(* ===== verification/Prelude.thy ===== *)
theory Prelude imports Main "HOL-Library.Char_ord" "HOL-Library.List_Lexorder" begin

text \<open>
  Shared vocabulary of the development: results of fallible Go functions, byte strings, the
  decimal numerals of \<open>%d\<close> and \<open>strconv.Itoa\<close>, and the lemmas on lists and maps that
  several components use.

  A Go \<open>string\<close> and a Go \<open>[]byte\<close> are both a list of bytes here (a \<open>char\<close> of HOL is a
  byte), and the order on strings is the bytewise lexicographic order of Go's \<open><\<close>, which
  \<open>List_Lexorder\<close> and \<open>Char_ord\<close> provide.  A function that returns \<open>(T, error)\<close> returns
  a value of \<open>'e + 't\<close>: \<open>Inl\<close> the error, \<open>Inr\<close> the value.
\<close>

named_theorems result_simps
named_theorems db_simps

type_synonym bytes = string

section \<open>Results\<close>

definition is_ok :: "'e + 'a \<Rightarrow> bool" where
  "is_ok r = (case r of Inl _ \<Rightarrow> False | Inr _ \<Rightarrow> True)"

lemma is_ok_simps [simp]:
  "is_ok (Inr x)"
  "\<not> is_ok (Inl e)"
  by (simp_all add: is_ok_def)

lemma is_ok_iff: "is_ok r \<longleftrightarrow> (\<exists>x. r = Inr x)"
  by (cases r) simp_all

section \<open>Decimal numerals\<close>

definition digit_char :: "nat \<Rightarrow> char" where
  "digit_char d = char_of (48 + d)"

definition is_digit :: "char \<Rightarrow> bool" where
  "is_digit c = (48 \<le> (of_char c :: nat) \<and> (of_char c :: nat) \<le> 57)"

definition digit_val :: "char \<Rightarrow> nat" where
  "digit_val c = (of_char c :: nat) - 48"

text \<open>\<open>strconv.FormatUint(n, 10)\<close>.\<close>

fun nat_dec :: "nat \<Rightarrow> string" where
  "nat_dec n = (if n < 10 then [digit_char n] else nat_dec (n div 10) @ [digit_char (n mod 10)])"

declare nat_dec.simps [simp del]

text \<open>\<open>strconv.Itoa\<close>: a sign for a negative number, then its digits.\<close>

definition int_dec :: "int \<Rightarrow> string" where
  "int_dec i = (if i < 0 then CHR ''-'' # nat_dec (nat (- i)) else nat_dec (nat i))"

text \<open>The value of a run of digits, most significant first.\<close>

definition dec_val :: "string \<Rightarrow> nat" where
  "dec_val s = foldl (\<lambda>a c. 10 * a + digit_val c) 0 s"

lemma digit_char_is_digit [simp]: "d < 10 \<Longrightarrow> is_digit (digit_char d)"
  by (simp add: is_digit_def digit_char_def)

lemma digit_val_char [simp]: "d < 10 \<Longrightarrow> digit_val (digit_char d) = d"
  by (simp add: digit_val_def digit_char_def)

lemma nat_dec_nonempty [simp]: "nat_dec n \<noteq> []"
  by (subst nat_dec.simps) simp

lemma nat_dec_digits: "c \<in> set (nat_dec n) \<Longrightarrow> is_digit c"
proof (induction n rule: nat_dec.induct)
  case (1 n)
  show ?case
  proof (cases "n < 10")
    case True
    with 1 show ?thesis by (simp add: nat_dec.simps [of n])
  next
    case False
    with 1 show ?thesis by (auto simp: nat_dec.simps [of n])
  qed
qed

lemma list_all_digits_nat_dec [simp]: "list_all is_digit (nat_dec n)"
  by (auto simp: list_all_iff intro: nat_dec_digits)

lemma dec_val_snoc: "dec_val (s @ [c]) = 10 * dec_val s + digit_val c"
  by (simp add: dec_val_def)

lemma dec_val_nat_dec [simp]: "dec_val (nat_dec n) = n"
proof (induction n rule: nat_dec.induct)
  case (1 n)
  show ?case
  proof (cases "n < 10")
    case True
    then show ?thesis by (simp add: nat_dec.simps [of n] dec_val_def)
  next
    case False
    with 1 show ?thesis by (simp add: nat_dec.simps [of n] dec_val_snoc)
  qed
qed

lemma nat_dec_inj [simp]: "nat_dec m = nat_dec n \<longleftrightarrow> m = n"
  by (metis dec_val_nat_dec)

section \<open>Lists used as tables\<close>

lemma find_Some_set: "List.find P xs = Some x \<Longrightarrow> x \<in> set xs \<and> P x"
  by (induction xs) (auto split: if_splits)

lemma find_None_iff2: "List.find P xs = None \<longleftrightarrow> (\<forall>x \<in> set xs. \<not> P x)"
  by (induction xs) auto

lemma find_append: "List.find P (xs @ ys) =
   (case List.find P xs of None \<Rightarrow> List.find P ys | Some x \<Rightarrow> Some x)"
  by (induction xs) auto

lemma distinct_map_append:
  "distinct (map f (xs @ [x])) \<longleftrightarrow> distinct (map f xs) \<and> f x \<notin> f ` set xs"
  by auto

section \<open>The total of a finite map\<close>

definition map_total :: "('k \<rightharpoonup> int) \<Rightarrow> int" where
  "map_total m = (\<Sum>x \<in> dom m. the (m x))"

lemma map_total_upd:
  assumes "finite (dom m)"
  shows "map_total (m(k \<mapsto> v)) = map_total m - (case m k of None \<Rightarrow> 0 | Some w \<Rightarrow> w) + v"
proof -
  have "map_total (m(k \<mapsto> v)) = v + (\<Sum>x \<in> dom m - {k}. the (m x))"
    unfolding map_total_def dom_fun_upd using assms
    by (simp add: sum.insert_remove)
  moreover have "map_total m = (case m k of None \<Rightarrow> 0 | Some w \<Rightarrow> w) + (\<Sum>x \<in> dom m - {k}. the (m x))"
    unfolding map_total_def using assms
    by (cases "m k") (auto simp: sum.remove [of "dom m" k] domI domIff)
  ultimately show ?thesis by simp
qed

end
