(* ===== verification/Float64.thy ===== *)
theory Float64 imports Prelude Complex_Main "HOL-Library.Log_Nat" begin

text \<open>
  Go's \<open>float64\<close> (IEEE 754 binary64, round to nearest, ties to even), which carries every
  amount of the platform, and the column type \<open>NUMERIC(20, 8)\<close> of
  \<open>wallet/store/schema.sql\<close>, which stores every balance.

  A float is a rational, an infinity or not-a-number.  The two zeros of binary64 are one value
  here: no comparison, sum or difference the wallet computes tells them apart.  A rational stands
  for a float when \<open>f64_of_rat\<close> keeps it; every sum and difference is the exact rational
  result rounded by \<open>f64_of_rat\<close>, as IEEE 754 prescribes.
\<close>

datatype float64 = Fin rat | PInf | NInf | FNaN

section \<open>Rounding a rational to binary64\<close>

text \<open>The binary exponent of a positive rational: \<open>2 powi bexp q \<le> q < 2 powi (bexp q + 1)\<close>.\<close>

definition bexp :: "rat \<Rightarrow> int" where
  "bexp q = (let (n, d) = quotient_of q;
                 e = bitlen n - bitlen d
             in if 2 powi e \<le> q then e else e - 1)"

definition round_half_even :: "rat \<Rightarrow> int" where
  "round_half_even x =
     (let f = \<lfloor>x\<rfloor>; d = x - of_int f
      in if d < 1 / 2 then f else if d > 1 / 2 then f + 1 else if even f then f else f + 1)"

text \<open>The exponent of the last bit: 53 significant bits, never below \<open>2 powi (- 1074)\<close>.\<close>

definition ulp_exp :: "rat \<Rightarrow> int" where
  "ulp_exp q = max (bexp q - 52) (- 1074)"

definition f64_mag :: "rat \<Rightarrow> rat" where
  "f64_mag q = of_int (round_half_even (q / 2 powi ulp_exp q)) * 2 powi ulp_exp q"

definition f64_overflow :: "rat" where
  "f64_overflow = 2 powi 1024"

definition f64_of_rat :: "rat \<Rightarrow> float64" where
  "f64_of_rat q =
     (if q = 0 then Fin 0
      else let r = f64_mag \<bar>q\<bar>
           in if f64_overflow \<le> r then (if 0 < q then PInf else NInf) else Fin (sgn q * r))"

section \<open>The operations the wallet uses\<close>

fun f64_neg :: "float64 \<Rightarrow> float64" where
  "f64_neg (Fin a) = Fin (- a)"
| "f64_neg PInf = NInf"
| "f64_neg NInf = PInf"
| "f64_neg FNaN = FNaN"

fun f64_add :: "float64 \<Rightarrow> float64 \<Rightarrow> float64" where
  "f64_add (Fin a) (Fin b) = f64_of_rat (a + b)"
| "f64_add FNaN _ = FNaN"
| "f64_add _ FNaN = FNaN"
| "f64_add PInf NInf = FNaN"
| "f64_add NInf PInf = FNaN"
| "f64_add PInf _ = PInf"
| "f64_add NInf _ = NInf"
| "f64_add _ PInf = PInf"
| "f64_add _ NInf = NInf"

definition f64_sub :: "float64 \<Rightarrow> float64 \<Rightarrow> float64" where
  "f64_sub a b = f64_add a (f64_neg b)"

text \<open>Every comparison with a NaN is false.\<close>

fun f64_lt :: "float64 \<Rightarrow> float64 \<Rightarrow> bool" where
  "f64_lt (Fin a) (Fin b) = (a < b)"
| "f64_lt FNaN _ = False"
| "f64_lt _ FNaN = False"
| "f64_lt NInf b = (b \<noteq> NInf)"
| "f64_lt _ NInf = False"
| "f64_lt a PInf = (a \<noteq> PInf)"
| "f64_lt PInf _ = False"

fun f64_le :: "float64 \<Rightarrow> float64 \<Rightarrow> bool" where
  "f64_le (Fin a) (Fin b) = (a \<le> b)"
| "f64_le FNaN _ = False"
| "f64_le _ FNaN = False"
| "f64_le NInf _ = True"
| "f64_le _ NInf = False"
| "f64_le _ PInf = True"
| "f64_le PInf _ = False"

section \<open>The column type NUMERIC(20, 8)\<close>

text \<open>
  A value of the column is NaN or an integer number of \<open>10 ^ - 8\<close> units below
  \<open>10 ^ 20\<close> in magnitude.  Storing a decimal rounds it to eight places, halves away from
  zero, and is refused when the result has more than twelve integral digits.
\<close>

datatype numeric = NumNaN | Num int

definition numeric_scale :: "rat" where
  "numeric_scale = 100000000"

definition numeric_limit :: "int" where
  "numeric_limit = 100000000000000000000"

definition round_half_away :: "rat \<Rightarrow> int" where
  "round_half_away x = (if x < 0 then - \<lfloor>- x + 1 / 2\<rfloor> else \<lfloor>x + 1 / 2\<rfloor>)"

definition numeric_of_rat :: "rat \<Rightarrow> numeric option" where
  "numeric_of_rat q =
     (let s = round_half_away (q * numeric_scale)
      in if \<bar>s\<bar> < numeric_limit then Some (Num s) else None)"

text \<open>
  The driver sends a float as a decimal numeral: \<open>wire\<close> is the value of that numeral.  The
  driver is not part of the repository; what the wallet relies on is that the numeral is one
  that parses back to the float it was printed from.
\<close>

definition wire_ok :: "(rat \<Rightarrow> rat) \<Rightarrow> bool" where
  "wire_ok wire \<longleftrightarrow> (\<forall>r. f64_of_rat r = Fin r \<longrightarrow> f64_of_rat (wire r) = Fin r)"

text \<open>Writing a float into the column, and reading the column with \<open>strconv.ParseFloat\<close>.\<close>

definition numeric_write :: "(rat \<Rightarrow> rat) \<Rightarrow> float64 \<Rightarrow> numeric option" where
  "numeric_write wire x =
     (case x of Fin r \<Rightarrow> numeric_of_rat (wire r) | FNaN \<Rightarrow> Some NumNaN | PInf \<Rightarrow> None | NInf \<Rightarrow> None)"

text \<open>The value of \<open>k\<close> units of the last place.\<close>

definition units :: "int \<Rightarrow> rat" where
  "units k = of_int k / numeric_scale"

fun numeric_read :: "numeric \<Rightarrow> float64" where
  "numeric_read NumNaN = FNaN"
| "numeric_read (Num k) = f64_of_rat (units k)"

section \<open>Bounds on the rounding\<close>

lemma bexp_bounds:
  assumes "0 < q"
  shows "2 powi bexp q \<le> q" and "q < 2 powi (bexp q + 1)"
proof -
  obtain n d where nd: "quotient_of q = (n, d)" by (cases "quotient_of q")
  have d: "0 < d" using quotient_of_denom_pos [OF nd] .
  have q: "q = of_int n / of_int d" using quotient_of_div [OF nd] .
  with assms d have n: "0 < n" by (simp add: zero_less_divide_iff)
  define a where "a = floorlog 2 (nat n)"
  define b where "b = floorlog 2 (nat d)"
  define e where "e = int a - int b"
  have a0: "0 < a" and b0: "0 < b"
    using n d by (auto simp: a_def b_def floorlog_eq_zero_iff intro!: Nat.gr0I)
  have na: "2 ^ (a - 1) \<le> nat n \<and> nat n < 2 ^ a"
    unfolding a_def using n by (intro floorlog_bounds) auto
  have db: "2 ^ (b - 1) \<le> nat d \<and> nat d < 2 ^ b"
    unfolding b_def using d by (intro floorlog_bounds) auto
  have na': "(2::rat) ^ (a - 1) \<le> of_int n" "(of_int n :: rat) < 2 ^ a"
    using na n by (simp_all flip: of_nat_nat add: nat_le_real_less)
  have db': "(2::rat) ^ (b - 1) \<le> of_int d" "(of_int d :: rat) < 2 ^ b"
    using db d by (simp_all flip: of_nat_nat)
  have dpos: "(0::rat) < of_int d" using d by simp
  have pa: "(2::rat) ^ a = 2 * 2 ^ (a - 1)" and pb: "(2::rat) ^ b = 2 * 2 ^ (b - 1)"
    using a0 b0 by (simp_all flip: power_Suc)
  have pe: "(2::rat) powi e = 2 ^ a / 2 ^ b"
    by (simp add: e_def power_int_diff)
  have lo: "(2::rat) powi (e - 1) < q"
  proof -
    have "(2::rat) powi (e - 1) = 2 ^ (a - 1) / 2 ^ b"
      using pe pa by (simp add: power_int_diff)
    also have "\<dots> < of_int n / of_int d"
      using na' db' dpos by (intro frac_less2) auto
    finally show ?thesis using q by simp
  qed
  have hi: "q < 2 powi (e + 1)"
  proof -
    have "q < 2 ^ a / 2 ^ (b - 1)"
      using na' db' dpos n unfolding q by (intro frac_less) auto
    also have "\<dots> = 2 powi (e + 1)"
      using pe pb by (simp add: power_int_add)
    finally show ?thesis .
  qed
  have bx: "bexp q = (if 2 powi e \<le> q then e else e - 1)"
    by (simp add: bexp_def nd Let_def e_def a_def b_def bitlen_def)
  show "2 powi bexp q \<le> q" using lo by (simp add: bx)
  show "q < 2 powi (bexp q + 1)" using hi by (simp add: bx)
qed

lemma powi2_less_iff [simp]: "(2::rat) powi a < 2 powi b \<longleftrightarrow> a < b"
  by (metis linorder_not_less power_int_increasing power_int_strict_increasing
      one_le_numeral one_less_numeral_iff semiring_norm(76))

lemma powi2_le_iff [simp]: "(2::rat) powi a \<le> 2 powi b \<longleftrightarrow> a \<le> b"
  by (metis linorder_not_less powi2_less_iff)

lemma bexp_less:
  assumes "0 < q" "q < 2 powi n"
  shows "bexp q < n"
proof -
  have "(2::rat) powi bexp q < 2 powi n"
    using bexp_bounds(1) [OF assms(1)] assms(2) by (rule order.strict_trans1)
  then show ?thesis by simp
qed

lemma bexp_ge:
  assumes "2 powi n \<le> q"
  shows "n \<le> bexp q"
proof -
  have "(0::rat) < 2 powi n" by simp
  with assms have "0 < q" by linarith
  then have "(2::rat) powi n < 2 powi (bexp q + 1)"
    using assms bexp_bounds(2) by (meson le_less_trans)
  then have "n < bexp q + 1" by (simp only: powi2_less_iff)
  then show ?thesis by simp
qed

lemma round_half_even_error: "\<bar>of_int (round_half_even x) - x\<bar> \<le> 1 / 2"
proof -
  have "of_int \<lfloor>x\<rfloor> \<le> x" "x < of_int \<lfloor>x\<rfloor> + 1" by linarith+
  then show ?thesis by (auto simp: round_half_even_def Let_def abs_le_iff)
qed

lemma round_half_even_int [simp]: "round_half_even (of_int i) = i"
  by (simp add: round_half_even_def)

lemma round_half_even_mono_int:
  "of_int i \<le> x \<Longrightarrow> i \<le> round_half_even x"
  "x \<le> of_int i \<Longrightarrow> round_half_even x \<le> i"
proof -
  show "of_int i \<le> x \<Longrightarrow> i \<le> round_half_even x"
    by (auto simp: round_half_even_def Let_def le_floor_iff intro: le_floor_iff [THEN iffD2] order_trans)
  assume x: "x \<le> of_int i"
  show "round_half_even x \<le> i"
  proof (cases "x = of_int i")
    case False
    with x have "\<lfloor>x\<rfloor> < i" by (simp add: floor_less_iff)
    then show ?thesis by (auto simp: round_half_even_def Let_def)
  qed simp
qed

text \<open>The magnitude after rounding: its error, and the powers of two it cannot cross.\<close>

lemma ulp_exp_le: "0 < q \<Longrightarrow> q < 2 powi n \<Longrightarrow> - 1021 \<le> n \<Longrightarrow> ulp_exp q \<le> n - 53"
  using bexp_less [of q n] by (simp add: ulp_exp_def)

lemma f64_mag_error: "\<bar>f64_mag q - q\<bar> \<le> 2 powi (ulp_exp q - 1)"
proof -
  define u where "u = (2::rat) powi ulp_exp q"
  have u: "0 < u" by (simp add: u_def)
  have "\<bar>of_int (round_half_even (q / u)) - q / u\<bar> * u \<le> 1 / 2 * u"
    using u round_half_even_error by (intro mult_right_mono) auto
  moreover have "f64_mag q - q = (of_int (round_half_even (q / u)) - q / u) * u"
    using u by (simp add: f64_mag_def u_def left_diff_distrib)
  moreover have "(2::rat) powi (ulp_exp q - 1) = 1 / 2 * u"
    by (simp add: u_def power_int_diff)
  ultimately show ?thesis using u by (simp only: abs_mult abs_of_pos)
qed

lemma f64_mag_le:
  assumes "0 < q" "q \<le> 2 powi n" "ulp_exp q \<le> n"
  shows "f64_mag q \<le> 2 powi n"
proof -
  define k where "k = ulp_exp q"
  have p: "(2::rat) powi n = of_int (2 ^ nat (n - k)) * 2 powi k"
    using assms(3) by (simp add: k_def flip: power_int_of_nat power_int_add)
  have "q / 2 powi k \<le> of_int (2 ^ nat (n - k))"
    using assms(2) unfolding p by (simp add: divide_le_eq)
  then have "round_half_even (q / 2 powi k) \<le> 2 ^ nat (n - k)"
    by (rule round_half_even_mono_int)
  then have "of_int (round_half_even (q / 2 powi k)) \<le> (of_int (2 ^ nat (n - k)) :: rat)"
    by (simp only: of_int_le_iff)
  then show ?thesis unfolding p f64_mag_def k_def by (intro mult_right_mono) auto
qed

lemma f64_mag_ge:
  assumes "2 powi n \<le> q" "ulp_exp q \<le> n"
  shows "2 powi n \<le> f64_mag q"
proof -
  define k where "k = ulp_exp q"
  have p: "(2::rat) powi n = of_int (2 ^ nat (n - k)) * 2 powi k"
    using assms(2) by (simp add: k_def flip: power_int_of_nat power_int_add)
  have "of_int (2 ^ nat (n - k)) \<le> q / 2 powi k"
    using assms(1) unfolding p by (simp add: le_divide_eq)
  then have "2 ^ nat (n - k) \<le> round_half_even (q / 2 powi k)"
    by (rule round_half_even_mono_int)
  then have "(of_int (2 ^ nat (n - k)) :: rat) \<le> of_int (round_half_even (q / 2 powi k))"
    by (simp only: of_int_le_iff)
  then show ?thesis unfolding p f64_mag_def k_def by (intro mult_right_mono) auto
qed

lemma f64_mag_nonneg: "0 \<le> q \<Longrightarrow> 0 \<le> f64_mag q"
  unfolding f64_mag_def
  by (intro mult_nonneg_nonneg) (auto intro: round_half_even_mono_int(1) [of 0, simplified])

lemma f64_of_rat_0 [simp]: "f64_of_rat 0 = Fin 0"
  by (simp add: f64_of_rat_def)

lemma f64_of_rat_not_NaN [simp]: "f64_of_rat q \<noteq> FNaN"
  by (simp add: f64_of_rat_def Let_def)

lemma f64_of_rat_minus: "f64_of_rat (- q) = f64_neg (f64_of_rat q)"
  by (simp add: f64_of_rat_def Let_def)

lemma f64_of_rat_FinD:
  "f64_of_rat q = Fin r \<Longrightarrow> q \<noteq> 0 \<Longrightarrow> r = sgn q * f64_mag \<bar>q\<bar> \<and> f64_mag \<bar>q\<bar> < f64_overflow"
  by (auto simp: f64_of_rat_def Let_def split: if_splits)

lemma f64_of_rat_abs: "f64_of_rat q = Fin r \<Longrightarrow> q \<noteq> 0 \<Longrightarrow> \<bar>r\<bar> = f64_mag \<bar>q\<bar>"
  using f64_of_rat_FinD [of q r] f64_mag_nonneg [of "\<bar>q\<bar>"] by (simp add: abs_mult)

lemma f64_of_rat_nonneg: "f64_of_rat q = Fin r \<Longrightarrow> 0 \<le> q \<Longrightarrow> 0 \<le> r"
  using f64_of_rat_FinD [of q r] f64_mag_nonneg [of "\<bar>q\<bar>"] by (cases "q = 0") auto

lemma f64_of_rat_small:
  assumes q: "\<bar>q\<bar> < 2 powi n" and n: "- 1021 \<le> n" "n \<le> 1023"
  obtains r where "f64_of_rat q = Fin r" "\<bar>r - q\<bar> \<le> 2 powi (n - 54)" "\<bar>r\<bar> \<le> 2 powi n"
proof (cases "q = 0")
  case True
  then show ?thesis using that [of 0] by simp
next
  case False
  define m where "m = f64_mag \<bar>q\<bar>"
  have u: "ulp_exp \<bar>q\<bar> \<le> n - 53" using False q n by (intro ulp_exp_le) auto
  then have le: "m \<le> 2 powi n" unfolding m_def using False q by (intro f64_mag_le) auto
  have "\<bar>m - \<bar>q\<bar>\<bar> \<le> 2 powi (ulp_exp \<bar>q\<bar> - 1)"
    unfolding m_def by (rule f64_mag_error)
  also have "(2::rat) powi (ulp_exp \<bar>q\<bar> - 1) \<le> 2 powi (n - 54)" using u by simp
  finally have err: "\<bar>m - \<bar>q\<bar>\<bar> \<le> 2 powi (n - 54)" .
  have "(2::rat) powi n < f64_overflow" using n by (simp only: f64_overflow_def powi2_less_iff)
  with le have fin: "f64_of_rat q = Fin (sgn q * m)"
    using False by (simp add: f64_of_rat_def Let_def m_def)
  have m0: "0 \<le> m" by (simp add: m_def f64_mag_nonneg)
  have "\<bar>sgn q * m - q\<bar> = \<bar>m - \<bar>q\<bar>\<bar>" using False by (simp add: sgn_if abs_if)
  with fin err le m0 False show ?thesis by (intro that [of "sgn q * m"]) (auto simp: abs_mult)
qed

lemma f64_of_rat_ge:
  assumes "f64_of_rat q = Fin r" "2 powi n \<le> \<bar>q\<bar>" "- 1074 \<le> n"
  shows "2 powi n \<le> \<bar>r\<bar>"
proof -
  have "(0::rat) < 2 powi n" by simp
  with assms(2) have "0 < \<bar>q\<bar>" by (rule order.strict_trans2 [rotated])
  then have q: "q \<noteq> 0" by simp
  have b: "n \<le> bexp \<bar>q\<bar>" using assms(2) by (rule bexp_ge)
  have "2 powi bexp \<bar>q\<bar> \<le> f64_mag \<bar>q\<bar>"
    using q b assms(3) bexp_bounds(1) [of "\<bar>q\<bar>"] by (intro f64_mag_ge) (auto simp: ulp_exp_def)
  moreover have "(2::rat) powi n \<le> 2 powi bexp \<bar>q\<bar>" using b by simp
  ultimately show ?thesis using f64_of_rat_abs [OF assms(1) q] by linarith
qed

text \<open>Every value binary64 can hold is kept, so rounding twice is rounding once.\<close>

lemma f64_mag_exact:
  assumes "0 < m" "m \<le> 2 ^ 53" "- 1074 \<le> k"
  shows "f64_mag (of_int m * 2 powi k) = of_int m * 2 powi k"
proof -
  define q where "q = (of_int m :: rat) * 2 powi k"
  define u where "u = ulp_exp q"
  have q: "0 < q" using assms by (simp add: q_def)
  have "\<exists>i::int. q / 2 powi u = of_int i"
  proof (cases "u \<le> k")
    case True
    then have "(2::rat) powi k = 2 ^ nat (k - u) * 2 powi u"
      by (simp flip: power_int_of_nat power_int_add)
    then have "q / 2 powi u = of_int (m * 2 ^ nat (k - u))"
      by (simp add: q_def)
    then show ?thesis by blast
  next
    case False
    have "q \<le> of_int (2 ^ 53) * 2 powi k"
      unfolding q_def using assms(2) by (intro mult_right_mono) (simp_all only: of_int_le_iff, simp)
    then have qle: "q \<le> 2 powi (k + 53)" by (simp add: power_int_add mult.commute)
    have "u = bexp q - 52" using False assms(3) by (auto simp: u_def ulp_exp_def)
    with False have bx: "k + 53 \<le> bexp q" by simp
    have "(2::rat) powi (k + 53) \<le> 2 powi bexp q" using bx by simp
    with bexp_bounds(1) [OF q] qle have eq: "q = 2 powi (k + 53)" and "2 powi bexp q = (2::rat) powi (k + 53)"
      by linarith+
    then have "bexp q = k + 53" by (metis powi2_le_iff order_antisym order_refl)
    then have "u = k + 1" using False assms(3) by (simp add: u_def ulp_exp_def)
    then have "q / 2 powi u = of_int (2 ^ 52)" unfolding eq
      by (simp flip: power_int_diff)
    then show ?thesis by blast
  qed
  then obtain i where "q / 2 powi u = of_int i" by blast
  then have "f64_mag q = q" by (simp add: f64_mag_def u_def [symmetric]) (simp add: field_simps)
  then show ?thesis by (simp add: q_def)
qed

lemma f64_mag_bound:
  assumes "0 < q"
  shows "\<exists>m. 0 \<le> m \<and> m \<le> 2 ^ 53 \<and> f64_mag q = of_int m * 2 powi ulp_exp q"
proof -
  define k where "k = ulp_exp q"
  have "bexp q + 1 \<le> k + 53" by (simp add: k_def ulp_exp_def)
  then have "(2::rat) powi (bexp q + 1) \<le> 2 powi (k + 53)" by (simp only: powi2_le_iff)
  then have "q \<le> 2 powi (k + 53)" using bexp_bounds(2) [OF assms] by linarith
  then have "q / 2 powi k \<le> of_int (2 ^ 53)" by (simp add: divide_le_eq power_int_add mult.commute)
  then have "round_half_even (q / 2 powi k) \<le> 2 ^ 53" by (rule round_half_even_mono_int)
  moreover have "0 \<le> round_half_even (q / 2 powi k)"
    using assms by (intro round_half_even_mono_int(1)) auto
  ultimately show ?thesis unfolding f64_mag_def k_def by blast
qed

lemma f64_of_rat_idem:
  assumes "f64_of_rat q = Fin r"
  shows "f64_of_rat r = Fin r"
proof (cases "q = 0 \<or> r = 0")
  case True
  with assms show ?thesis by auto
next
  case False
  then have q: "q \<noteq> 0" and r: "r \<noteq> 0" by auto
  have rr: "r = sgn q * f64_mag \<bar>q\<bar>" and lt: "f64_mag \<bar>q\<bar> < f64_overflow"
    using f64_of_rat_FinD [OF assms q] by auto
  obtain m where m: "0 \<le> m" "m \<le> 2 ^ 53" "f64_mag \<bar>q\<bar> = of_int m * 2 powi ulp_exp \<bar>q\<bar>"
    using f64_mag_bound [of "\<bar>q\<bar>"] q by auto
  have "m \<noteq> 0" using m(3) r rr by auto
  then have "f64_mag (f64_mag \<bar>q\<bar>) = f64_mag \<bar>q\<bar>"
    unfolding m(3) using m by (intro f64_mag_exact) (auto simp: ulp_exp_def)
  moreover have abs: "\<bar>r\<bar> = f64_mag \<bar>q\<bar>" by (rule f64_of_rat_abs [OF assms q])
  ultimately have "f64_mag \<bar>r\<bar> = \<bar>r\<bar>" by simp
  moreover have "sgn r * f64_mag \<bar>q\<bar> = r" using abs by (metis sgn_mult_abs)
  ultimately show ?thesis using r lt abs by (simp add: f64_of_rat_def Let_def)
qed

text \<open>Evaluating one rounding: its exponent and the nearest integral multiple of the last bit.\<close>

lemma round_half_even_near: "\<bar>x - of_int m\<bar> < 1 / 2 \<Longrightarrow> round_half_even x = m"
proof -
  assume "\<bar>x - of_int m\<bar> < 1 / 2"
  moreover have "\<bar>of_int (round_half_even x) - x\<bar> \<le> 1 / 2" by (rule round_half_even_error)
  ultimately have "\<bar>of_int (round_half_even x - m)\<bar> < (1::rat)" unfolding of_int_diff by linarith
  then have "\<bar>round_half_even x - m\<bar> < 1" by (simp only: of_int_abs [symmetric] of_int_less_1_iff)
  then show ?thesis by simp
qed

lemma bexp_eqI:
  assumes "2 powi b \<le> q" "q < 2 powi (b + 1)"
  shows "bexp q = b"
proof -
  have "(0::rat) < 2 powi b" by simp
  with assms(1) have "0 < q" by linarith
  then have "bexp q < b + 1" using assms(2) by (rule bexp_less)
  moreover have "b \<le> bexp q" using assms(1) by (rule bexp_ge)
  ultimately show ?thesis by simp
qed

lemma f64_of_rat_eqI:
  assumes b: "2 powi b \<le> q" "q < 2 powi (b + 1)" "- 1022 \<le> b" "b \<le> 1022"
    and m: "\<bar>q / 2 powi (b - 52) - of_int m\<bar> < 1 / 2"
  shows "f64_of_rat q = Fin (of_int m * 2 powi (b - 52))"
proof -
  have "(0::rat) < 2 powi b" by simp
  with b(1) have q: "0 < q" by linarith
  have u: "ulp_exp q = b - 52" using bexp_eqI [OF b(1,2)] b(3) by (simp add: ulp_exp_def)
  then have mag: "f64_mag q = of_int m * 2 powi (b - 52)"
    using m by (simp add: f64_mag_def round_half_even_near)
  have "\<bar>q\<bar> < 2 powi (b + 1)" using b(2) q by simp
  then obtain r where r: "f64_of_rat q = Fin r" using f64_of_rat_small [of q "b + 1"] b(3,4) by auto
  then have "r = f64_mag q" using f64_of_rat_FinD [OF r] q by simp
  with r mag show ?thesis by simp
qed

section \<open>When the column undoes the rounding of binary64\<close>

text \<open>
  Balances are read from the column, combined in binary64, and stored back.  Below
  \<open>2 ^ 23\<close> units the accumulated rounding error stays under half of the column's last
  place, so that storing the result gives the exact sum or difference.
\<close>

definition exact_limit :: "int" where
  "exact_limit = 2 ^ 23 * 100000000"

lemma numeric_of_rat_near:
  assumes "\<bar>q - units k\<bar> \<le> 1 / 2 ^ 28" "\<bar>k\<bar> < numeric_limit"
  shows "numeric_of_rat q = Some (Num k)"
proof -
  have "\<bar>q * numeric_scale - of_int k\<bar> = \<bar>q - units k\<bar> * numeric_scale"
    by (simp add: units_def numeric_scale_def abs_if field_simps)
  also have "\<dots> < 1 / 2"
    using assms(1) by (simp add: numeric_scale_def)
  finally have near: "\<bar>q * numeric_scale - of_int k\<bar> < 1 / 2" .
  have lo: "of_int k - 1 / 2 < q * numeric_scale" and hi: "q * numeric_scale < of_int k + 1 / 2"
    using near by linarith+
  have "round_half_away (q * numeric_scale) = k"
  proof (cases "q * numeric_scale < 0")
    case True
    have "\<lfloor>- (q * numeric_scale) + 1 / 2\<rfloor> = - k"
      using lo hi by (intro floor_unique) simp_all
    with True show ?thesis by (simp add: round_half_away_def)
  next
    case False
    have "\<lfloor>q * numeric_scale + 1 / 2\<rfloor> = k"
      using lo hi by (intro floor_unique) simp_all
    with False show ?thesis by (simp add: round_half_away_def)
  qed
  with assms(2) show ?thesis by (simp add: numeric_of_rat_def)
qed

lemma units_less: "\<bar>k\<bar> < exact_limit \<Longrightarrow> \<bar>units k\<bar> < 2 powi 23"
proof -
  assume "\<bar>k\<bar> < exact_limit"
  then have "(of_int \<bar>k\<bar> :: rat) < of_int exact_limit" by (simp only: of_int_less_iff)
  then show ?thesis by (simp add: units_def numeric_scale_def exact_limit_def)
qed

lemma units_add: "units (a + b) = units a + units b"
  by (simp add: units_def add_divide_distrib)

lemma units_minus: "units (- a) = - units a"
  by (simp add: units_def)

lemma numeric_read_small:
  assumes "\<bar>k\<bar> < exact_limit"
  obtains r where "f64_of_rat (units k) = Fin r" "\<bar>r - units k\<bar> \<le> 1 / 2 ^ 31" "\<bar>r\<bar> \<le> 2 ^ 23"
proof -
  obtain r where "f64_of_rat (units k) = Fin r" "\<bar>r - units k\<bar> \<le> 2 powi (23 - 54)" "\<bar>r\<bar> \<le> 2 powi 23"
    using f64_of_rat_small [OF units_less [OF assms]] by auto
  then show ?thesis by (intro that [of r]) (simp_all add: power_int_minus_divide)
qed

lemma wire_near:
  assumes w: "wire_ok wire" and r: "f64_of_rat r = Fin r" "\<bar>r\<bar> < 2 powi n"
    and n: "- 1021 \<le> n" "n \<le> 1023"
  shows "\<bar>wire r - r\<bar> \<le> 2 powi (n - 54)"
proof -
  have wr: "f64_of_rat (wire r) = Fin r" using w r by (simp add: wire_ok_def)
  have lt: "\<bar>wire r\<bar> < 2 powi n"
  proof (rule ccontr)
    assume "\<not> \<bar>wire r\<bar> < 2 powi n"
    then have "2 powi n \<le> \<bar>wire r\<bar>" by (simp only: not_less)
    from f64_of_rat_ge [OF wr this] n have "2 powi n \<le> \<bar>r\<bar>" by simp
    with r(2) show False by (meson linorder_not_less)
  qed
  obtain r' where "f64_of_rat (wire r) = Fin r'" "\<bar>r' - wire r\<bar> \<le> 2 powi (n - 54)"
    using f64_of_rat_small [OF lt n] by metis
  with wr show ?thesis by (simp add: abs_minus_commute)
qed

lemma numeric_add_exact:
  assumes w: "wire_ok wire"
    and a: "\<bar>a\<bar> < exact_limit" and b: "\<bar>b\<bar> < exact_limit" and ab: "\<bar>a + b\<bar> < exact_limit"
  shows "\<exists>z. f64_add (f64_of_rat (units a)) (f64_of_rat (units b)) = Fin z
           \<and> numeric_write wire (Fin z) = Some (Num (a + b))"
proof -
  obtain x where x: "f64_of_rat (units a) = Fin x" "\<bar>x - units a\<bar> \<le> 1 / 2 ^ 31"
    using a by (rule numeric_read_small)
  obtain y where y: "f64_of_rat (units b) = Fin y" "\<bar>y - units b\<bar> \<le> 1 / 2 ^ 31"
    using b by (rule numeric_read_small)
  have ab': "\<bar>units a + units b\<bar> < 2 ^ 23" using units_less [OF ab] by (simp add: units_add)
  have "\<bar>x + y - (units a + units b)\<bar> \<le> 1 / 2 ^ 31 + 1 / 2 ^ 31" using x(2) y(2) by linarith
  then have s: "\<bar>x + y - (units a + units b)\<bar> \<le> 1 / 2 ^ 30" by simp
  have "\<bar>x + y\<bar> < 2 ^ 23 + 1 / 2 ^ 30" using s ab' by linarith
  then have "\<bar>x + y\<bar> < 2 ^ 24" by simp
  then have "\<bar>x + y\<bar> < 2 powi 24" by (simp only: power_int_numeral)
  then obtain z where z: "f64_of_rat (x + y) = Fin z" "\<bar>z - (x + y)\<bar> \<le> 1 / 2 ^ 30" "\<bar>z\<bar> \<le> 2 ^ 24"
    by (rule f64_of_rat_small) (simp_all add: power_int_minus_divide)
  have "\<bar>wire z - z\<bar> \<le> 2 powi (25 - 54)"
    using z by (intro wire_near w) (auto intro: f64_of_rat_idem)
  then have "\<bar>wire z - z\<bar> \<le> 1 / 2 ^ 29" by (simp add: power_int_minus_divide)
  with z(2) s have "\<bar>wire z - units (a + b)\<bar> \<le> 1 / 2 ^ 29 + (1 / 2 ^ 30 + 1 / 2 ^ 30)"
    unfolding units_add by linarith
  then have "\<bar>wire z - units (a + b)\<bar> \<le> 1 / 2 ^ 28" by simp
  then have "numeric_of_rat (wire z) = Some (Num (a + b))"
    using ab by (intro numeric_of_rat_near) (auto simp: exact_limit_def numeric_limit_def)
  with x y z show ?thesis by (simp add: numeric_write_def)
qed

lemma numeric_sub_exact:
  assumes "wire_ok wire"
    and "\<bar>a\<bar> < exact_limit" "\<bar>b\<bar> < exact_limit" "\<bar>a - b\<bar> < exact_limit"
  shows "\<exists>z. f64_sub (f64_of_rat (units a)) (f64_of_rat (units b)) = Fin z
           \<and> numeric_write wire (Fin z) = Some (Num (a - b))"
  using numeric_add_exact [OF assms(1), of a "- b"] assms
  by (simp add: f64_sub_def units_minus f64_of_rat_minus)

end
