(* ===== verification/WalletStore.thy ===== *)
theory WalletStore imports Float64 begin

text \<open>
  The wallet's repository layer, \<open>wallet/store/postgres.go\<close> over \<open>wallet/store/schema.sql\<close>.

  The two tables are a record: \<open>wallet_accounts\<close>, keyed by its primary key, and
  \<open>wallet_transactions\<close> in insertion order.  Each method is one database transaction, modelled
  statement by statement on the tables; \<open>commit_tx\<close> is the deferred \<open>Rollback\<close> and the final
  \<open>Commit\<close>.  The environment \<open>wenv\<close> says which statement the server or the driver refuses
  for a reason outside the tables (a lost connection, an expired context, a string the column type
  or the encoding does not admit), what becomes of the commit, the clock, the UUID that
  \<open>uuid.New\<close> draws and how the driver prints a float.  Here one call runs alone; the
  interleaving of calls under row locks is the subject of theory \<open>WalletLocks\<close>.
\<close>

section \<open>State\<close>

record account =
  balance :: numeric
  created_at :: int
  updated_at :: int

record wtx =
  wtx_id :: string
  from_account :: "string option"
  to_account :: "string option"
  wtx_amount :: numeric
  reference_id :: string
  wtx_created_at :: int

record wallet_db =
  accounts :: "string \<rightharpoonup> account"
  transactions :: "wtx list"

datatype wcall =
    ReadBalance | BeginTx | CheckRef | EnsureAccount | LockFirst | LockSecond
  | UpdateFrom | UpdateTo | InsertLog

text \<open>A commit may fail, or succeed without the client learning of it.\<close>

datatype commit = Committed | CommitRefused | CommitUnseen

record wenv =
  wfails :: "wcall \<Rightarrow> bool"
  wcommit :: commit
  wnow :: int
  wuuid :: string
  wwire :: "rat \<Rightarrow> rat"

datatype werror =
    DbError
  | AccountNotFound string
  | AlreadyProcessed string
  | InsufficientFunds float64 float64
  | SameAccount

section \<open>Statements\<close>

definition ref_exists :: "wallet_db \<Rightarrow> string \<Rightarrow> bool" where
  "ref_exists db r = list_ex (\<lambda>t. reference_id t = r) (transactions db)"

text \<open>\<open>INSERT INTO wallet_accounts (id, balance) VALUES ($1, 0.0) ON CONFLICT (id) DO NOTHING\<close>\<close>

definition ensure_account :: "wenv \<Rightarrow> wallet_db \<Rightarrow> string \<Rightarrow> wallet_db" where
  "ensure_account env db acct =
     (case accounts db acct of
        Some _ \<Rightarrow> db
      | None \<Rightarrow> db\<lparr>accounts := (accounts db)(acct \<mapsto>
                 \<lparr>balance = Num 0, created_at = wnow env, updated_at = wnow env\<rparr>)\<rparr>)"

text \<open>\<open>SELECT balance FROM wallet_accounts WHERE id = $1 FOR UPDATE\<close>, scanned into a float\<close>

definition lock_balance :: "wallet_db \<Rightarrow> string \<Rightarrow> float64 option" where
  "lock_balance db acct = map_option (\<lambda>a. numeric_read (balance a)) (accounts db acct)"

text \<open>\<open>UPDATE wallet_accounts SET balance = $1, updated_at = NOW() WHERE id = $2\<close>\<close>

definition update_balance :: "wenv \<Rightarrow> wallet_db \<Rightarrow> float64 \<Rightarrow> string \<Rightarrow> wallet_db option" where
  "update_balance env db v acct =
     (case numeric_write (wwire env) v of
        None \<Rightarrow> None
      | Some n \<Rightarrow> Some (db\<lparr>accounts := (accounts db)(acct :=
                    map_option (\<lambda>a. a\<lparr>balance := n, updated_at := wnow env\<rparr>) (accounts db acct))\<rparr>))"

text \<open>
  \<open>INSERT INTO wallet_transactions ...\<close>: the amount must fit its column, and the primary key
  and the unique index on \<open>reference_id\<close> must not be violated.
\<close>

definition insert_log ::
  "wenv \<Rightarrow> wallet_db \<Rightarrow> string option \<Rightarrow> string option \<Rightarrow> float64 \<Rightarrow> string \<Rightarrow> wallet_db option" where
  "insert_log env db from to amount ref =
     (case numeric_write (wwire env) amount of
        None \<Rightarrow> None
      | Some n \<Rightarrow>
          if list_ex (\<lambda>t. wtx_id t = wuuid env) (transactions db) \<or> ref_exists db ref then None
          else Some (db\<lparr>transactions := transactions db @
                 [\<lparr>wtx_id = wuuid env, from_account = from, to_account = to, wtx_amount = n,
                   reference_id = ref, wtx_created_at = wnow env\<rparr>]\<rparr>))"

text \<open>\<open>defer tx.Rollback()\<close> and \<open>tx.Commit()\<close> around the body of a transaction\<close>

definition commit_tx ::
  "wenv \<Rightarrow> wallet_db \<Rightarrow> werror + 'a \<times> wallet_db \<Rightarrow> (werror + 'a) \<times> wallet_db" where
  "commit_tx env db r =
     (case r of
        Inl e \<Rightarrow> (Inl e, db)
      | Inr (v, db') \<Rightarrow>
          (case wcommit env of
             Committed \<Rightarrow> (Inr v, db')
           | CommitRefused \<Rightarrow> (Inl DbError, db)
           | CommitUnseen \<Rightarrow> (Inl DbError, db')))"

section \<open>The methods of PostgresStore\<close>

definition GetBalance :: "wenv \<Rightarrow> wallet_db \<Rightarrow> string \<Rightarrow> werror + float64" where
  "GetBalance env db acct =
     (if wfails env ReadBalance then Inl DbError
      else case accounts db acct of
             None \<Rightarrow> Inl (AccountNotFound acct)
           | Some a \<Rightarrow> Inr (numeric_read (balance a)))"

definition credit_body :: "wenv \<Rightarrow> wallet_db \<Rightarrow> string \<Rightarrow> float64 \<Rightarrow> string \<Rightarrow> werror + float64 \<times> wallet_db" where
  "credit_body env db acct amount ref =
     (if wfails env BeginTx \<or> wfails env CheckRef then Inl DbError
      else if ref_exists db ref then Inl (AlreadyProcessed ref)
      else if wfails env EnsureAccount then Inl DbError
      else let db1 = ensure_account env db acct
      in if wfails env LockFirst then Inl DbError
      else case lock_balance db1 acct of
             None \<Rightarrow> Inl DbError
           | Some cur \<Rightarrow>
      let new = f64_add cur amount
      in if wfails env UpdateTo then Inl DbError
      else case update_balance env db1 new acct of
             None \<Rightarrow> Inl DbError
           | Some db2 \<Rightarrow>
      if wfails env InsertLog then Inl DbError
      else case insert_log env db2 None (Some acct) amount ref of
             None \<Rightarrow> Inl DbError
           | Some db3 \<Rightarrow> Inr (new, db3))"

definition Credit :: "wenv \<Rightarrow> wallet_db \<Rightarrow> string \<Rightarrow> float64 \<Rightarrow> string \<Rightarrow> (werror + float64) \<times> wallet_db" where
  "Credit env db acct amount ref = commit_tx env db (credit_body env db acct amount ref)"

definition debit_body :: "wenv \<Rightarrow> wallet_db \<Rightarrow> string \<Rightarrow> float64 \<Rightarrow> string \<Rightarrow> werror + float64 \<times> wallet_db" where
  "debit_body env db acct amount ref =
     (if wfails env BeginTx \<or> wfails env CheckRef then Inl DbError
      else if ref_exists db ref then Inl (AlreadyProcessed ref)
      else if wfails env LockFirst then Inl DbError
      else case lock_balance db acct of
             None \<Rightarrow> Inl (AccountNotFound acct)
           | Some cur \<Rightarrow>
      if f64_lt cur amount then Inl (InsufficientFunds cur amount)
      else let new = f64_sub cur amount
      in if wfails env UpdateFrom then Inl DbError
      else case update_balance env db new acct of
             None \<Rightarrow> Inl DbError
           | Some db1 \<Rightarrow>
      if wfails env InsertLog then Inl DbError
      else case insert_log env db1 (Some acct) None amount ref of
             None \<Rightarrow> Inl DbError
           | Some db2 \<Rightarrow> Inr (new, db2))"

definition Debit :: "wenv \<Rightarrow> wallet_db \<Rightarrow> string \<Rightarrow> float64 \<Rightarrow> string \<Rightarrow> (werror + float64) \<times> wallet_db" where
  "Debit env db acct amount ref = commit_tx env db (debit_body env db acct amount ref)"

text \<open>The order in which \<open>Transfer\<close> locks its two rows: the smaller identifier first.\<close>

definition lock_order :: "string \<Rightarrow> string \<Rightarrow> string \<times> string" where
  "lock_order from to = (if from > to then (to, from) else (from, to))"

definition transfer_body ::
  "wenv \<Rightarrow> wallet_db \<Rightarrow> string \<Rightarrow> string \<Rightarrow> float64 \<Rightarrow> string \<Rightarrow> werror + (float64 \<times> float64) \<times> wallet_db" where
  "transfer_body env db from to amount ref =
     (if from = to then Inl SameAccount
      else if wfails env BeginTx \<or> wfails env CheckRef then Inl DbError
      else if ref_exists db ref then Inl (AlreadyProcessed ref)
      else if wfails env EnsureAccount then Inl DbError
      else let db1 = ensure_account env db to; (first, second) = lock_order from to
      in if wfails env LockFirst then Inl DbError
      else case lock_balance db1 first of
             None \<Rightarrow> Inl (AccountNotFound first)
           | Some bal1 \<Rightarrow>
      if wfails env LockSecond then Inl DbError
      else case lock_balance db1 second of
             None \<Rightarrow> Inl (AccountNotFound second)
           | Some bal2 \<Rightarrow>
      let locks = (\<lambda>_. Fin 0)(first := bal1, second := bal2);
          fromBalance = locks from; toBalance = locks to
      in if f64_lt fromBalance amount then Inl (InsufficientFunds fromBalance amount)
      else let fromNew = f64_sub fromBalance amount; toNew = f64_add toBalance amount
      in if wfails env UpdateFrom then Inl DbError
      else case update_balance env db1 fromNew from of
             None \<Rightarrow> Inl DbError
           | Some db2 \<Rightarrow>
      if wfails env UpdateTo then Inl DbError
      else case update_balance env db2 toNew to of
             None \<Rightarrow> Inl DbError
           | Some db3 \<Rightarrow>
      if wfails env InsertLog then Inl DbError
      else case insert_log env db3 (Some from) (Some to) amount ref of
             None \<Rightarrow> Inl DbError
           | Some db4 \<Rightarrow> Inr ((fromNew, toNew), db4))"

definition Transfer ::
  "wenv \<Rightarrow> wallet_db \<Rightarrow> string \<Rightarrow> string \<Rightarrow> float64 \<Rightarrow> string \<Rightarrow> (werror + float64 \<times> float64) \<times> wallet_db" where
  "Transfer env db from to amount ref = commit_tx env db (transfer_body env db from to amount ref)"

section \<open>What the statements do\<close>

lemma accounts_ensure:
  "accounts (ensure_account env db acct) =
     (accounts db)(acct \<mapsto> (case accounts db acct of Some a \<Rightarrow> a
        | None \<Rightarrow> \<lparr>balance = Num 0, created_at = wnow env, updated_at = wnow env\<rparr>))"
  by (auto simp: ensure_account_def split: option.splits)

lemma transactions_ensure [simp]: "transactions (ensure_account env db acct) = transactions db"
  by (simp add: ensure_account_def split: option.splits)

lemma ref_exists_ensure [simp]: "ref_exists (ensure_account env db acct) r = ref_exists db r"
  by (simp add: ref_exists_def)

lemma update_balance_SomeD:
  "update_balance env db v acct = Some db' \<Longrightarrow>
   \<exists>n. numeric_write (wwire env) v = Some n \<and> transactions db' = transactions db \<and>
       accounts db' = (accounts db)(acct :=
         map_option (\<lambda>a. a\<lparr>balance := n, updated_at := wnow env\<rparr>) (accounts db acct))"
  by (auto simp: update_balance_def split: option.splits)

lemma insert_log_SomeD:
  "insert_log env db from to amount ref = Some db' \<Longrightarrow>
   \<exists>n. numeric_write (wwire env) amount = Some n \<and> accounts db' = accounts db \<and>
       (\<forall>t \<in> set (transactions db). wtx_id t \<noteq> wuuid env) \<and> \<not> ref_exists db ref \<and>
       transactions db' = transactions db @
         [\<lparr>wtx_id = wuuid env, from_account = from, to_account = to, wtx_amount = n,
           reference_id = ref, wtx_created_at = wnow env\<rparr>]"
  by (auto simp: insert_log_def list_ex_iff split: option.splits if_splits)

lemma transfer_bodyD:
  assumes "transfer_body env db from to amount ref = Inr ((x, y), db')"
  obtains a b na nb nm where
    "from \<noteq> to" "\<not> ref_exists db ref" "accounts db from = Some a"
    "accounts (ensure_account env db to) to = Some b"
    "\<not> f64_lt (numeric_read (balance a)) amount"
    "x = f64_sub (numeric_read (balance a)) amount" "y = f64_add (numeric_read (balance b)) amount"
    "numeric_write (wwire env) x = Some na" "numeric_write (wwire env) y = Some nb"
    "numeric_write (wwire env) amount = Some nm"
    "\<forall>t \<in> set (transactions db). wtx_id t \<noteq> wuuid env"
    "accounts db' = (accounts db)(from \<mapsto> a\<lparr>balance := na, updated_at := wnow env\<rparr>,
                                  to \<mapsto> b\<lparr>balance := nb, updated_at := wnow env\<rparr>)"
    "transactions db' = transactions db @
       [\<lparr>wtx_id = wuuid env, from_account = Some from, to_account = Some to, wtx_amount = nm,
         reference_id = ref, wtx_created_at = wnow env\<rparr>]"
  using assms that
  by (auto simp: transfer_body_def lock_order_def Let_def lock_balance_def accounts_ensure
        ref_exists_def list_ex_iff fun_upd_twist
      split: if_splits option.splits prod.splits dest!: update_balance_SomeD insert_log_SomeD)

lemma credit_bodyD:
  assumes "credit_body env db acct amount ref = Inr (x, db')"
  obtains b nb nm where
    "\<not> ref_exists db ref" "accounts (ensure_account env db acct) acct = Some b"
    "x = f64_add (numeric_read (balance b)) amount"
    "numeric_write (wwire env) x = Some nb" "numeric_write (wwire env) amount = Some nm"
    "\<forall>t \<in> set (transactions db). wtx_id t \<noteq> wuuid env"
    "accounts db' = (accounts db)(acct \<mapsto> b\<lparr>balance := nb, updated_at := wnow env\<rparr>)"
    "transactions db' = transactions db @
       [\<lparr>wtx_id = wuuid env, from_account = None, to_account = Some acct, wtx_amount = nm,
         reference_id = ref, wtx_created_at = wnow env\<rparr>]"
  using assms that
  by (auto simp: credit_body_def Let_def lock_balance_def accounts_ensure ref_exists_def list_ex_iff
      split: if_splits option.splits dest!: update_balance_SomeD insert_log_SomeD)

lemma debit_bodyD:
  assumes "debit_body env db acct amount ref = Inr (x, db')"
  obtains a na nm where
    "\<not> ref_exists db ref" "accounts db acct = Some a"
    "\<not> f64_lt (numeric_read (balance a)) amount"
    "x = f64_sub (numeric_read (balance a)) amount"
    "numeric_write (wwire env) x = Some na" "numeric_write (wwire env) amount = Some nm"
    "\<forall>t \<in> set (transactions db). wtx_id t \<noteq> wuuid env"
    "accounts db' = (accounts db)(acct \<mapsto> a\<lparr>balance := na, updated_at := wnow env\<rparr>)"
    "transactions db' = transactions db @
       [\<lparr>wtx_id = wuuid env, from_account = Some acct, to_account = None, wtx_amount = nm,
         reference_id = ref, wtx_created_at = wnow env\<rparr>]"
  using assms that
  by (auto simp: debit_body_def Let_def lock_balance_def ref_exists_def list_ex_iff
      split: if_splits option.splits dest!: update_balance_SomeD insert_log_SomeD)

lemma commit_tx_InrD:
  "commit_tx env db r = (Inr v, db') \<Longrightarrow> r = Inr (v, db') \<and> wcommit env = Committed"
  by (auto simp: commit_tx_def split: sum.splits commit.splits)

lemma commit_tx_InlD:
  "commit_tx env db r = (Inl e, db') \<Longrightarrow>
   db' = db \<or> wcommit env = CommitUnseen \<and> (\<exists>v. r = Inr (v, db'))"
  by (auto simp: commit_tx_def split: sum.splits commit.splits)

lemma commit_tx_Inl [simp]: "commit_tx env db (Inl e) = (Inl e, db)"
  by (simp add: commit_tx_def)

lemma snd_commit_tx:
  "snd (commit_tx env db r) = db \<or> (\<exists>v. r = Inr (v, snd (commit_tx env db r)))"
  by (auto simp: commit_tx_def split: sum.splits commit.splits)

section \<open>The contract the three writing methods share\<close>

text \<open>
  Each method refuses a reference that is in the log and otherwise, when its body succeeds,
  appends exactly one row with that reference.  Atomicity, the uniqueness of references and the
  at-most-once guarantee follow from this alone.
\<close>

definition wallet_wf :: "wallet_db \<Rightarrow> bool" where
  "wallet_wf db \<longleftrightarrow> distinct (map reference_id (transactions db)) \<and> distinct (map wtx_id (transactions db))"

locale wallet_op =
  fixes body :: "wenv \<Rightarrow> wallet_db \<Rightarrow> 'arg \<Rightarrow> string \<Rightarrow> werror + 'v \<times> wallet_db"
  assumes refuses: "ref_exists db ref \<Longrightarrow> \<exists>e. body env db arg ref = Inl e"
    and logs_once: "body env db arg ref = Inr (v, db') \<Longrightarrow>
      \<exists>t. transactions db' = transactions db @ [t] \<and> reference_id t = ref \<and> wtx_id t = wuuid env
        \<and> (\<forall>u \<in> set (transactions db). wtx_id u \<noteq> wuuid env)"
begin

lemma success_new: "body env db arg ref = Inr (v, db') \<Longrightarrow> \<not> ref_exists db ref"
  using refuses [of db ref env arg] by auto

lemma body_wf:
  assumes "wallet_wf db" "body env db arg ref = Inr (v, db')"
  shows "wallet_wf db'"
proof -
  obtain t where "transactions db' = transactions db @ [t]" "reference_id t = ref"
    "wtx_id t = wuuid env" "\<forall>u \<in> set (transactions db). wtx_id u \<noteq> wuuid env"
    using logs_once [OF assms(2)] by auto
  moreover have "\<forall>u \<in> set (transactions db). reference_id u \<noteq> ref"
    using success_new [OF assms(2)] by (auto simp: ref_exists_def list_ex_iff)
  ultimately show ?thesis using assms(1) by (auto simp: wallet_wf_def)
qed

lemma op_wf: "wallet_wf db \<Longrightarrow> wallet_wf (snd (commit_tx env db (body env db arg ref)))"
  using snd_commit_tx [of env db "body env db arg ref"] body_wf by metis

lemma op_refused:
  assumes "ref_exists db ref"
  shows "\<exists>e. commit_tx env db (body env db arg ref) = (Inl e, db)"
  using refuses [OF assms, of env arg] by auto

lemma op_logged:
  "commit_tx env db (body env db arg ref) = (Inr v, db') \<Longrightarrow> ref_exists db' ref"
  by (drule commit_tx_InrD) (auto dest!: logs_once simp: ref_exists_def)

lemma op_error:
  assumes "commit_tx env db (body env db arg ref) = (Inl e, db')"
  shows "db' = db \<or> wcommit env = CommitUnseen \<and> ref_exists db' ref \<and>
         (\<exists>v. body env db arg ref = Inr (v, db'))"
proof -
  from commit_tx_InlD [OF assms] consider "db' = db"
    | v where "wcommit env = CommitUnseen" "body env db arg ref = Inr (v, db')" by auto
  then show ?thesis
  proof cases
    case 2
    then show ?thesis using logs_once [OF 2(2)] by (auto simp: ref_exists_def)
  qed simp
qed

lemma op_step:
  assumes "commit_tx env db (body env db arg ref) = (res, db')"
  shows "db' = db \<and> \<not> is_ok res \<or>
         \<not> ref_exists db ref \<and> (\<exists>t. transactions db' = transactions db @ [t] \<and> reference_id t = ref)"
proof (cases "body env db arg ref")
  case (Inl e)
  with assms show ?thesis by auto
next
  case (Inr p)
  then obtain v d where "body env db arg ref = Inr (v, d)" by (cases p) auto
  then show ?thesis
    using assms logs_once [of env db arg ref v d] success_new [of env db arg ref v d]
    by (auto simp: commit_tx_def split: commit.splits)
qed

end

lemma bodies_refuse:
  assumes "ref_exists db ref"
  shows "\<exists>e. credit_body env db acct amount ref = Inl e"
    and "\<exists>e. debit_body env db acct amount ref = Inl e"
    and "\<exists>e. transfer_body env db from to amount ref = Inl e"
  using assms by (auto simp: credit_body_def debit_body_def transfer_body_def)

interpretation credit_op: wallet_op "\<lambda>env db (acct, amount) ref. credit_body env db acct amount ref"
  by unfold_locales (auto simp: bodies_refuse elim!: credit_bodyD)

interpretation debit_op: wallet_op "\<lambda>env db (acct, amount) ref. debit_body env db acct amount ref"
  by unfold_locales (auto simp: bodies_refuse elim!: debit_bodyD)

interpretation transfer_op:
  wallet_op "\<lambda>env db (from, to, amount) ref. transfer_body env db from to amount ref"
  by unfold_locales (auto simp: bodies_refuse elim!: transfer_bodyD)

lemmas Credit_facts =
  credit_op.op_wf [of db env "(acct, amount)" ref for db env acct amount ref, simplified, folded Credit_def]
  credit_op.op_refused [of db ref env "(acct, amount)" for db ref env acct amount, simplified, folded Credit_def]
  credit_op.op_logged [of env db "(acct, amount)" ref for db env acct amount ref, simplified, folded Credit_def]
  credit_op.op_error [of env db "(acct, amount)" ref for db env acct amount ref, simplified, folded Credit_def]
  credit_op.op_step [of env db "(acct, amount)" ref for db env acct amount ref, simplified, folded Credit_def]

lemmas Debit_facts =
  debit_op.op_wf [of db env "(acct, amount)" ref for db env acct amount ref, simplified, folded Debit_def]
  debit_op.op_refused [of db ref env "(acct, amount)" for db ref env acct amount, simplified, folded Debit_def]
  debit_op.op_logged [of env db "(acct, amount)" ref for db env acct amount ref, simplified, folded Debit_def]
  debit_op.op_error [of env db "(acct, amount)" ref for db env acct amount ref, simplified, folded Debit_def]
  debit_op.op_step [of env db "(acct, amount)" ref for db env acct amount ref, simplified, folded Debit_def]

lemmas Transfer_facts =
  transfer_op.op_wf [of db env "(from, to, amount)" ref for db env "from" to amount ref, simplified, folded Transfer_def]
  transfer_op.op_refused [of db ref env "(from, to, amount)" for db ref env "from" to amount, simplified, folded Transfer_def]
  transfer_op.op_logged [of env db "(from, to, amount)" ref for db env "from" to amount ref, simplified, folded Transfer_def]
  transfer_op.op_error [of env db "(from, to, amount)" ref for db env "from" to amount ref, simplified, folded Transfer_def]
  transfer_op.op_step [of env db "(from, to, amount)" ref for db env "from" to amount ref, simplified, folded Transfer_def]

end
