(* ===== verification/WalletMoney.thy ===== *)
theory WalletMoney imports WalletStore begin

text \<open>
  What the wallet's arithmetic does to money: balances never become negative, and inside the
  range where the column undoes the rounding of binary64 a transfer is the exact transfer of the
  abstract specification \<open>spec_transfer\<close> on integer balances, so the total is conserved.
\<close>

section \<open>Solvency\<close>

definition numeric_nonneg :: "numeric \<Rightarrow> bool" where
  "numeric_nonneg n = (case n of NumNaN \<Rightarrow> False | Num k \<Rightarrow> 0 \<le> k \<and> k < numeric_limit)"

definition solvent :: "wallet_db \<Rightarrow> bool" where
  "solvent db \<longleftrightarrow> (\<forall>acct a. accounts db acct = Some a \<longrightarrow> numeric_nonneg (balance a))"

text \<open>An amount the handlers let through, other than NaN.\<close>

definition positive_amount :: "float64 \<Rightarrow> bool" where
  "positive_amount x = (case x of Fin q \<Rightarrow> 0 < q | PInf \<Rightarrow> True | NInf \<Rightarrow> False | FNaN \<Rightarrow> False)"

lemma f64_zero_small:
  assumes "f64_of_rat w = Fin 0"
  shows "\<bar>w\<bar> < 2 powi (- 1074)"
proof (rule ccontr)
  assume "\<not> ?thesis"
  then have "2 powi (- 1074) \<le> \<bar>w\<bar>" by (simp only: not_less)
  from f64_of_rat_ge [OF assms this] have "(2::rat) powi (- 1074) \<le> 0" by simp
  moreover have "(0::rat) < 2 powi (- 1074)" by (rule zero_less_power_int) simp
  ultimately show False by linarith
qed

lemma numeric_of_rat_range:
  assumes "numeric_of_rat q = Some n" "0 \<le> q"
  shows "numeric_nonneg n"
proof -
  define s where "s = round_half_away (q * numeric_scale)"
  have "0 \<le> q * numeric_scale" using assms(2) by (simp add: numeric_scale_def)
  then have "0 \<le> s" by (simp add: s_def round_half_away_def)
  with assms(1) show ?thesis
    by (auto simp: numeric_of_rat_def Let_def numeric_nonneg_def simp flip: s_def split: if_splits)
qed

lemma write_nonneg:
  assumes w: "wire_ok wire" and r: "f64_of_rat q = Fin r" "0 \<le> q"
    and n: "numeric_write wire (Fin r) = Some n"
  shows "numeric_nonneg n"
proof -
  have rr: "f64_of_rat (wire r) = Fin r" using w f64_of_rat_idem [OF r(1)] by (simp add: wire_ok_def)
  have r0: "0 \<le> r" using f64_of_rat_nonneg r by blast
  show ?thesis
  proof (cases "0 \<le> wire r")
    case True
    with n show ?thesis by (auto simp: numeric_write_def intro: numeric_of_rat_range)
  next
    case False
    have "f64_of_rat (- wire r) = Fin (- r)" using rr by (simp add: f64_of_rat_minus)
    then have "0 \<le> - r" using False f64_of_rat_nonneg [of "- wire r" "- r"] by simp
    with r0 rr have "f64_of_rat (wire r) = Fin 0" by auto
    then have "\<bar>wire r\<bar> < 2 powi (- 1074)" by (rule f64_zero_small)
    also have "(2::rat) powi (- 1074) \<le> 2 powi (- 28)" by (simp only: powi2_le_iff)
    also have "(2::rat) powi (- 28) = 1 / 2 ^ 28" by (simp add: power_int_minus_divide)
    finally have "numeric_of_rat (wire r) = Some (Num 0)"
      by (intro numeric_of_rat_near) (auto simp: units_def numeric_limit_def)
    with n show ?thesis by (auto simp: numeric_write_def numeric_nonneg_def numeric_limit_def)
  qed
qed

lemma numeric_read_cases:
  assumes "numeric_nonneg n"
  obtains x where "numeric_read n = Fin x" "0 \<le> x"
proof -
  obtain k where k: "n = Num k" "0 \<le> k" "k < numeric_limit"
    using assms by (cases n) (auto simp: numeric_nonneg_def)
  have "(of_int k :: rat) < of_int numeric_limit" using k by (simp only: of_int_less_iff)
  then have "\<bar>units k\<bar> < 2 powi 40"
    using k by (simp add: units_def numeric_scale_def numeric_limit_def divide_less_eq)
  then obtain x where x: "f64_of_rat (units k) = Fin x"
    using f64_of_rat_small [of "units k" 40] by auto
  moreover have "0 \<le> x" using k f64_of_rat_nonneg [OF x] by (simp add: units_def numeric_scale_def)
  ultimately show ?thesis using k that by simp
qed

lemma debit_nonneg:
  assumes "wire_ok wire" "numeric_nonneg n" "positive_amount amount"
    and "\<not> f64_lt (numeric_read n) amount"
    and "numeric_write wire (f64_sub (numeric_read n) amount) = Some m"
  shows "numeric_nonneg m"
proof -
  obtain x where x: "numeric_read n = Fin x" "0 \<le> x" using assms(2) by (rule numeric_read_cases)
  obtain q where q: "amount = Fin q" "q \<le> x"
    using assms(3,4) x by (cases amount) (auto simp: positive_amount_def)
  have sub: "f64_sub (numeric_read n) amount = f64_of_rat (x - q)" using x q by (simp add: f64_sub_def)
  then obtain r where r: "f64_of_rat (x - q) = Fin r"
    using assms(5) by (cases "f64_of_rat (x - q)") (auto simp: numeric_write_def)
  with sub assms(1,5) q show ?thesis by (intro write_nonneg [of wire "x - q" r]) auto
qed

lemma credit_nonneg:
  assumes "wire_ok wire" "numeric_nonneg n" "positive_amount amount"
    and "numeric_write wire (f64_add (numeric_read n) amount) = Some m"
  shows "numeric_nonneg m"
proof -
  obtain x where x: "numeric_read n = Fin x" "0 \<le> x" using assms(2) by (rule numeric_read_cases)
  obtain q where q: "amount = Fin q" "0 < q"
    using assms(3,4) x by (cases amount) (auto simp: positive_amount_def numeric_write_def)
  have add: "f64_add (numeric_read n) amount = f64_of_rat (x + q)" using x q by simp
  then obtain r where r: "f64_of_rat (x + q) = Fin r"
    using assms(4) by (cases "f64_of_rat (x + q)") (auto simp: numeric_write_def)
  with add assms(1,4) x q show ?thesis by (intro write_nonneg [of wire "x + q" r]) auto
qed

lemma solvent_ensure: "solvent db \<Longrightarrow> solvent (ensure_account env db acct)"
  by (auto simp: solvent_def ensure_account_def numeric_nonneg_def numeric_limit_def split: option.splits if_splits)

lemma credit_body_solvent:
  assumes "wire_ok (wwire env)" "solvent db" "positive_amount amount"
    and "credit_body env db acct amount ref = Inr (x, db')"
  shows "solvent db'"
  using assms(4)
proof (rule credit_bodyD)
  fix b nb nm
  assume b: "accounts (ensure_account env db acct) acct = Some b"
    and x: "x = f64_add (numeric_read (balance b)) amount" "numeric_write (wwire env) x = Some nb"
    and db': "accounts db' = (accounts db)(acct \<mapsto> b\<lparr>balance := nb, updated_at := wnow env\<rparr>)"
  have "numeric_nonneg (balance b)" using solvent_ensure [OF assms(2)] b by (auto simp: solvent_def)
  then have "numeric_nonneg nb" using assms(1,3) x by (auto intro: credit_nonneg)
  with assms(2) db' show ?thesis by (auto simp: solvent_def)
qed

lemma debit_body_solvent:
  assumes "wire_ok (wwire env)" "solvent db" "positive_amount amount"
    and "debit_body env db acct amount ref = Inr (x, db')"
  shows "solvent db'"
  using assms(4)
proof (rule debit_bodyD)
  fix a na nm
  assume a: "accounts db acct = Some a" "\<not> f64_lt (numeric_read (balance a)) amount"
    and x: "x = f64_sub (numeric_read (balance a)) amount" "numeric_write (wwire env) x = Some na"
    and db': "accounts db' = (accounts db)(acct \<mapsto> a\<lparr>balance := na, updated_at := wnow env\<rparr>)"
  have "numeric_nonneg (balance a)" using assms(2) a by (auto simp: solvent_def)
  then have "numeric_nonneg na" using assms(1,3) a x by (auto intro: debit_nonneg)
  with assms(2) db' show ?thesis by (auto simp: solvent_def)
qed

lemma transfer_body_solvent:
  assumes "wire_ok (wwire env)" "solvent db" "positive_amount amount"
    and "transfer_body env db from to amount ref = Inr ((x, y), db')"
  shows "solvent db'"
  using assms(4)
proof (rule transfer_bodyD)
  fix a b na nb nm
  assume a: "accounts db from = Some a" "\<not> f64_lt (numeric_read (balance a)) amount"
    and b: "accounts (ensure_account env db to) to = Some b"
    and x: "x = f64_sub (numeric_read (balance a)) amount" "numeric_write (wwire env) x = Some na"
    and y: "y = f64_add (numeric_read (balance b)) amount" "numeric_write (wwire env) y = Some nb"
    and db': "accounts db' = (accounts db)(from \<mapsto> a\<lparr>balance := na, updated_at := wnow env\<rparr>,
                                           to \<mapsto> b\<lparr>balance := nb, updated_at := wnow env\<rparr>)"
  have "numeric_nonneg (balance a)" using assms(2) a by (auto simp: solvent_def)
  then have "numeric_nonneg na" using assms(1,3) a x by (auto intro: debit_nonneg)
  moreover have "numeric_nonneg (balance b)"
    using solvent_ensure [OF assms(2)] b by (auto simp: solvent_def)
  then have "numeric_nonneg nb" using assms(1,3) y by (auto intro: credit_nonneg)
  ultimately show ?thesis using assms(2) db' by (auto simp: solvent_def)
qed

section \<open>The abstract wallet\<close>

text \<open>
  The specification works on integer balances (in units of \<open>10 ^ - 8\<close>) and the set of
  references already processed.
\<close>

record wspec =
  wbal :: "string \<rightharpoonup> int"
  wrefs :: "string set"

fun numeric_int :: "numeric \<Rightarrow> int" where
  "numeric_int (Num k) = k"
| "numeric_int NumNaN = 0"

definition wallet_abs :: "wallet_db \<Rightarrow> wspec" where
  "wallet_abs db = \<lparr>wbal = (\<lambda>acct. map_option (\<lambda>a. numeric_int (balance a)) (accounts db acct)),
                    wrefs = reference_id ` set (transactions db)\<rparr>"

definition spec_transfer :: "wspec \<Rightarrow> string \<Rightarrow> string \<Rightarrow> int \<Rightarrow> string \<Rightarrow> wspec option" where
  "spec_transfer s from to k ref =
     (if from = to \<or> ref \<in> wrefs s then None
      else case wbal s from of
             None \<Rightarrow> None
           | Some a \<Rightarrow>
               if a < k then None
               else let b = (case wbal s to of None \<Rightarrow> 0 | Some b \<Rightarrow> b)
                    in Some \<lparr>wbal = (wbal s)(from \<mapsto> a - k, to \<mapsto> b + k), wrefs = insert ref (wrefs s)\<rparr>)"

definition spec_total :: "wspec \<Rightarrow> int" where
  "spec_total s = map_total (wbal s)"

lemma spec_transfer_total:
  assumes "spec_transfer s from to k ref = Some s'" "finite (dom (wbal s))"
  shows "spec_total s' = spec_total s"
  using assms
  by (auto simp: spec_transfer_def spec_total_def Let_def map_total_upd split: if_splits option.splits)

section \<open>Exact arithmetic below the limit\<close>

definition small_wallet :: "wallet_db \<Rightarrow> bool" where
  "small_wallet db \<longleftrightarrow> (\<forall>acct a. accounts db acct = Some a \<longrightarrow>
     (\<exists>k. balance a = Num k \<and> 0 \<le> k \<and> k < exact_limit))"

text \<open>A call that nothing outside the tables disturbs.\<close>

definition healthy :: "wenv \<Rightarrow> wallet_db \<Rightarrow> bool" where
  "healthy env db \<longleftrightarrow> (\<forall>c. \<not> wfails env c) \<and> wcommit env = Committed \<and> wire_ok (wwire env) \<and>
     (\<forall>t \<in> set (transactions db). wtx_id t \<noteq> wuuid env)"

lemma f64_lt_units:
  assumes "\<bar>a\<bar> < exact_limit" "\<bar>b\<bar> < exact_limit"
  shows "f64_lt (f64_of_rat (units a)) (f64_of_rat (units b)) \<longleftrightarrow> a < b"
proof -
  obtain x where x: "f64_of_rat (units a) = Fin x" "\<bar>x - units a\<bar> \<le> 1 / 2 ^ 31"
    using assms(1) by (rule numeric_read_small)
  obtain y where y: "f64_of_rat (units b) = Fin y" "\<bar>y - units b\<bar> \<le> 1 / 2 ^ 31"
    using assms(2) by (rule numeric_read_small)
  have gap: "units i + 1 / 100000000 \<le> units j" if "i < j" for i j
  proof -
    have "(of_int (i + 1) :: rat) \<le> of_int j" using that by (simp only: of_int_le_iff)
    then show ?thesis by (simp add: units_def numeric_scale_def field_simps)
  qed
  have e: "(1::rat) / 2 ^ 31 < 1 / 200000000" by simp
  consider "a < b" | "a = b" | "b < a" by linarith
  then show ?thesis
  proof cases
    case 1
    with gap [of a b] x(2) y(2) e have "x < y" by linarith
    with 1 x y show ?thesis by simp
  next
    case 2
    with x y show ?thesis by simp
  next
    case 3
    with gap [of b a] x(2) y(2) e have "\<not> x < y" by linarith
    with 3 x y show ?thesis by simp
  qed
qed

lemma write_units:
  assumes "wire_ok wire" "\<bar>k\<bar> < exact_limit"
  shows "numeric_write wire (f64_of_rat (units k)) = Some (Num k)"
proof -
  obtain r where r: "f64_of_rat (units k) = Fin r" using assms(2) by (rule numeric_read_small)
  obtain z where "f64_add (f64_of_rat (units k)) (f64_of_rat (units 0)) = Fin z"
    "numeric_write wire (Fin z) = Some (Num (k + 0))"
    using numeric_add_exact [OF assms(1), of k 0] assms(2) by (auto simp: exact_limit_def)
  then show ?thesis using r f64_of_rat_idem [OF r] by (simp add: units_def)
qed

lemma ref_exists_abs: "ref_exists db ref \<longleftrightarrow> ref \<in> wrefs (wallet_abs db)"
  by (auto simp: ref_exists_def list_ex_iff wallet_abs_def)

lemma transfer_missing:
  assumes "healthy env db" "from \<noteq> to" "\<not> ref_exists db ref" "accounts db from = None"
  shows "transfer_body env db from to amount ref = Inl (AccountNotFound from)"
  using assms
  by (auto simp: healthy_def transfer_body_def lock_order_def lock_balance_def accounts_ensure Let_def
      split: if_splits)

lemma transfer_insufficient:
  assumes "healthy env db" "from \<noteq> to" "\<not> ref_exists db ref" "accounts db from = Some a"
    and "f64_lt (numeric_read (balance a)) amount"
  shows "transfer_body env db from to amount ref =
         Inl (InsufficientFunds (numeric_read (balance a)) amount)"
  using assms
  by (auto simp: healthy_def transfer_body_def lock_order_def lock_balance_def accounts_ensure Let_def
      split: if_splits)

lemma transfer_run:
  assumes "healthy env db" "from \<noteq> to" "\<not> ref_exists db ref" "accounts db from = Some a"
    and "accounts (ensure_account env db to) to = Some b"
    and "\<not> f64_lt (numeric_read (balance a)) amount"
    and "numeric_write (wwire env) (f64_sub (numeric_read (balance a)) amount) = Some na"
    and "numeric_write (wwire env) (f64_add (numeric_read (balance b)) amount) = Some nb"
    and "numeric_write (wwire env) amount = Some nm"
  obtains v db' where "Transfer env db from to amount ref = (Inr v, db')"
    "transfer_body env db from to amount ref = Inr (v, db')"
    "accounts db' = (accounts db)(from \<mapsto> a\<lparr>balance := na, updated_at := wnow env\<rparr>,
                                  to \<mapsto> b\<lparr>balance := nb, updated_at := wnow env\<rparr>)"
    "reference_id ` set (transactions db') = insert ref (reference_id ` set (transactions db))"
proof -
  have "\<exists>v db'. transfer_body env db from to amount ref = Inr (v, db')"
    using assms
    by (auto simp: healthy_def transfer_body_def lock_order_def lock_balance_def accounts_ensure Let_def
        update_balance_def insert_log_def ref_exists_def list_ex_iff split: if_splits)
  then obtain x y db' where body: "transfer_body env db from to amount ref = Inr ((x, y), db')" by auto
  then have "Transfer env db from to amount ref = (Inr (x, y), db')"
    using assms(1) by (simp add: Transfer_def commit_tx_def healthy_def)
  note run = this
  from body show ?thesis
  proof (rule transfer_bodyD)
    fix a' b' na' nb' nm'
    assume "accounts db from = Some a'" "accounts (ensure_account env db to) to = Some b'"
      "x = f64_sub (numeric_read (balance a')) amount" "y = f64_add (numeric_read (balance b')) amount"
      "numeric_write (wwire env) x = Some na'" "numeric_write (wwire env) y = Some nb'"
      and acc: "accounts db' = (accounts db)(from \<mapsto> a'\<lparr>balance := na', updated_at := wnow env\<rparr>,
                                    to \<mapsto> b'\<lparr>balance := nb', updated_at := wnow env\<rparr>)"
      and log: "transactions db' = transactions db @
        [\<lparr>wtx_id = wuuid env, from_account = Some from, to_account = Some to, wtx_amount = nm',
          reference_id = ref, wtx_created_at = wnow env\<rparr>]"
    with assms(4,5,7,8) have "a' = a" "b' = b" "na' = na" "nb' = nb" by simp_all
    with acc log run body show ?thesis by (intro that [of "(x, y)" db']) simp_all
  qed
qed

lemma small_balance:
  "small_wallet db \<Longrightarrow> accounts db acct = Some a \<Longrightarrow> \<exists>k. balance a = Num k \<and> 0 \<le> k \<and> k < exact_limit"
  by (simp add: small_wallet_def)

lemma small_ensure:
  assumes "small_wallet db"
  obtains b j where "accounts (ensure_account env db to) to = Some b" "balance b = Num j"
    "0 \<le> j" "j < exact_limit" "j = (case wbal (wallet_abs db) to of None \<Rightarrow> 0 | Some j \<Rightarrow> j)"
proof (cases "accounts db to")
  case None
  then show ?thesis
    using that [of "\<lparr>balance = Num 0, created_at = wnow env, updated_at = wnow env\<rparr>" 0]
    by (simp add: accounts_ensure wallet_abs_def exact_limit_def)
next
  case (Some b)
  then obtain j where j: "balance b = Num j" "0 \<le> j" "j < exact_limit"
    using small_balance [OF assms] by blast
  have "accounts (ensure_account env db to) to = Some b" using Some by (simp add: accounts_ensure)
  moreover have "j = (case wbal (wallet_abs db) to of None \<Rightarrow> 0 | Some j \<Rightarrow> j)"
    using Some j(1) by (simp add: wallet_abs_def)
  ultimately show ?thesis using j by (intro that [of b j])
qed

theorem transfer_exact:
  assumes h: "healthy env db" and s: "small_wallet db"
    and k: "0 < k" "k < exact_limit"
    and room: "(case wbal (wallet_abs db) to of None \<Rightarrow> 0 | Some j \<Rightarrow> j) + k < exact_limit"
  shows "case spec_transfer (wallet_abs db) from to k ref of
           None \<Rightarrow> \<exists>e. Transfer env db from to (f64_of_rat (units k)) ref = (Inl e, db)
         | Some s' \<Rightarrow> \<exists>v db'. Transfer env db from to (f64_of_rat (units k)) ref = (Inr v, db')
                      \<and> wallet_abs db' = s'"
proof -
  let ?amt = "f64_of_rat (units k)"
  have w: "wire_ok (wwire env)" using h by (simp add: healthy_def)
  consider "from = to \<or> ref_exists db ref" | "from \<noteq> to" "\<not> ref_exists db ref" "accounts db from = None"
    | a where "from \<noteq> to" "\<not> ref_exists db ref" "accounts db from = Some a" by auto
  then show ?thesis
  proof cases
    case 1
    then have "\<exists>e. transfer_body env db from to ?amt ref = Inl e"
      using bodies_refuse(3) by (auto simp: transfer_body_def)
    moreover have "spec_transfer (wallet_abs db) from to k ref = None"
      using 1 by (auto simp: spec_transfer_def ref_exists_abs)
    ultimately show ?thesis by (auto simp: Transfer_def)
  next
    case 2
    then show ?thesis using transfer_missing [OF h 2]
      by (simp add: Transfer_def spec_transfer_def ref_exists_abs wallet_abs_def)
  next
    case 3
    obtain i where i: "balance a = Num i" "0 \<le> i" "i < exact_limit"
      using small_balance [OF s 3(3)] by blast
    have read: "numeric_read (balance a) = f64_of_rat (units i)" using i(1) by simp
    have src: "wbal (wallet_abs db) from = Some i" using 3 i by (simp add: wallet_abs_def)
    have lt: "f64_lt (numeric_read (balance a)) ?amt \<longleftrightarrow> i < k"
      unfolding read using i k by (intro f64_lt_units) auto
    show ?thesis
    proof (cases "i < k")
      case True
      then show ?thesis using transfer_insufficient [OF h 3] lt src 3
        by (simp add: Transfer_def spec_transfer_def ref_exists_abs)
    next
      case False
      obtain b j where b: "accounts (ensure_account env db to) to = Some b" "balance b = Num j"
        and j: "0 \<le> j" "j < exact_limit" "j = (case wbal (wallet_abs db) to of None \<Rightarrow> 0 | Some j \<Rightarrow> j)"
        using small_ensure [OF s] by metis
      have na: "numeric_write (wwire env) (f64_sub (numeric_read (balance a)) ?amt) = Some (Num (i - k))"
        unfolding read using numeric_sub_exact [OF w, of i k] i k False by auto
      have nb: "numeric_write (wwire env) (f64_add (numeric_read (balance b)) ?amt) = Some (Num (j + k))"
        using numeric_add_exact [OF w, of j k] b j k room by auto
      have nm: "numeric_write (wwire env) ?amt = Some (Num k)" using write_units [OF w] k by simp
      obtain v db' where run: "Transfer env db from to ?amt ref = (Inr v, db')"
        and acc: "accounts db' = (accounts db)(from \<mapsto> a\<lparr>balance := Num (i - k), updated_at := wnow env\<rparr>,
                                  to \<mapsto> b\<lparr>balance := Num (j + k), updated_at := wnow env\<rparr>)"
        and refs: "reference_id ` set (transactions db') = insert ref (reference_id ` set (transactions db))"
        using transfer_run [OF h 3 b(1) _ na nb nm] lt False by metis
      have "spec_transfer (wallet_abs db) from to k ref = Some (wallet_abs db')"
        using 3 False src j(3) refs
        by (auto simp: spec_transfer_def ref_exists_abs Let_def)
           (auto simp: wallet_abs_def acc fun_eq_iff)
      with run show ?thesis by simp
    qed
  qed
qed

end
