(* ===== verification/Grpc.thy ===== *)
theory Grpc imports Prelude begin

text \<open>
  The gRPC status codes of \<open>google.golang.org/grpc/codes\<close> with their numbers, which the
  services return and the gateway turns into HTTP statuses.  A handler's error is a code and the
  error it reports; \<open>'e\<close> is the error type of the layer below.
\<close>

datatype grpc_code =
    OK | Canceled | Unknown | InvalidArgument | DeadlineExceeded | NotFound | AlreadyExists
  | PermissionDenied | ResourceExhausted | FailedPrecondition | Aborted | OutOfRange
  | Unimplemented | Internal | Unavailable | DataLoss | Unauthenticated

fun code_number :: "grpc_code \<Rightarrow> nat" where
  "code_number OK = 0"
| "code_number Canceled = 1"
| "code_number Unknown = 2"
| "code_number InvalidArgument = 3"
| "code_number DeadlineExceeded = 4"
| "code_number NotFound = 5"
| "code_number AlreadyExists = 6"
| "code_number PermissionDenied = 7"
| "code_number ResourceExhausted = 8"
| "code_number FailedPrecondition = 9"
| "code_number Aborted = 10"
| "code_number OutOfRange = 11"
| "code_number Unimplemented = 12"
| "code_number Internal = 13"
| "code_number Unavailable = 14"
| "code_number DataLoss = 15"
| "code_number Unauthenticated = 16"

text \<open>The message of a status: a fixed text, or the text of an error of the layer below.\<close>

datatype 'e message = Msg string | FromError 'e

type_synonym 'e status = "grpc_code \<times> 'e message"

end
