(* ===== verification/WalletHandler.thy ===== *)
theory WalletHandler imports WalletMoney Grpc begin

text \<open>
  The wallet's gRPC handlers, \<open>wallet/handler/handler.go\<close>, over the store of
  \<open>WalletStore\<close>, with the request and response messages of \<open>proto/wallet/v1\<close>.  The logger
  is left out.  The last section states what the service promises over any sequence of calls.
\<close>

section \<open>Messages\<close>

record GetBalanceRequest =
  gb_account_id :: string

record GetBalanceResponse =
  gbr_account_id :: string
  gbr_balance :: float64

record CreditRequest =
  cr_account_id :: string
  cr_amount :: float64
  cr_reference_id :: string

record CreditResponse =
  crr_account_id :: string
  crr_new_balance :: float64

record DebitRequest =
  dr_account_id :: string
  dr_amount :: float64
  dr_reference_id :: string

record DebitResponse =
  drr_account_id :: string
  drr_new_balance :: float64

record TransferRequest =
  tr_from_account_id :: string
  tr_to_account_id :: string
  tr_amount :: float64
  tr_reference_id :: string

record TransferResponse =
  trr_from_account_id :: string
  trr_to_account_id :: string
  trr_from_new_balance :: float64
  trr_to_new_balance :: float64

type_synonym wstatus = "werror status"

section \<open>Handlers\<close>

definition handler_GetBalance :: "wenv \<Rightarrow> wallet_db \<Rightarrow> GetBalanceRequest \<Rightarrow> wstatus + GetBalanceResponse" where
  "handler_GetBalance env db req =
     (if gb_account_id req = '''' then Inl (InvalidArgument, Msg ''account_id cannot be empty'')
      else case GetBalance env db (gb_account_id req) of
             Inl e \<Rightarrow> Inl (NotFound, FromError e)
           | Inr bal \<Rightarrow> Inr \<lparr>gbr_account_id = gb_account_id req, gbr_balance = bal\<rparr>)"

definition handler_Credit ::
  "wenv \<Rightarrow> wallet_db \<Rightarrow> CreditRequest \<Rightarrow> (wstatus + CreditResponse) \<times> wallet_db" where
  "handler_Credit env db req =
     (if cr_account_id req = '''' then (Inl (InvalidArgument, Msg ''account_id cannot be empty''), db)
      else if f64_le (cr_amount req) (Fin 0)
      then (Inl (InvalidArgument, Msg ''amount must be greater than zero''), db)
      else if cr_reference_id req = '''' then (Inl (InvalidArgument, Msg ''reference_id cannot be empty''), db)
      else case Credit env db (cr_account_id req) (cr_amount req) (cr_reference_id req) of
             (Inl e, db') \<Rightarrow> (Inl (Internal, FromError e), db')
           | (Inr new, db') \<Rightarrow> (Inr \<lparr>crr_account_id = cr_account_id req, crr_new_balance = new\<rparr>, db'))"

definition handler_Debit ::
  "wenv \<Rightarrow> wallet_db \<Rightarrow> DebitRequest \<Rightarrow> (wstatus + DebitResponse) \<times> wallet_db" where
  "handler_Debit env db req =
     (if dr_account_id req = '''' then (Inl (InvalidArgument, Msg ''account_id cannot be empty''), db)
      else if f64_le (dr_amount req) (Fin 0)
      then (Inl (InvalidArgument, Msg ''amount must be greater than zero''), db)
      else if dr_reference_id req = '''' then (Inl (InvalidArgument, Msg ''reference_id cannot be empty''), db)
      else case Debit env db (dr_account_id req) (dr_amount req) (dr_reference_id req) of
             (Inl e, db') \<Rightarrow> (Inl (FailedPrecondition, FromError e), db')
           | (Inr new, db') \<Rightarrow> (Inr \<lparr>drr_account_id = dr_account_id req, drr_new_balance = new\<rparr>, db'))"

definition handler_Transfer ::
  "wenv \<Rightarrow> wallet_db \<Rightarrow> TransferRequest \<Rightarrow> (wstatus + TransferResponse) \<times> wallet_db" where
  "handler_Transfer env db req =
     (if tr_from_account_id req = '''' \<or> tr_to_account_id req = ''''
      then (Inl (InvalidArgument, Msg ''from_account_id and to_account_id cannot be empty''), db)
      else if f64_le (tr_amount req) (Fin 0)
      then (Inl (InvalidArgument, Msg ''amount must be greater than zero''), db)
      else if tr_reference_id req = '''' then (Inl (InvalidArgument, Msg ''reference_id cannot be empty''), db)
      else case Transfer env db (tr_from_account_id req) (tr_to_account_id req) (tr_amount req)
                  (tr_reference_id req) of
             (Inl e, db') \<Rightarrow> (Inl (FailedPrecondition, FromError e), db')
           | (Inr (fromNew, toNew), db') \<Rightarrow>
               (Inr \<lparr>trr_from_account_id = tr_from_account_id req,
                    trr_to_account_id = tr_to_account_id req,
                    trr_from_new_balance = fromNew, trr_to_new_balance = toNew\<rparr>, db'))"

section \<open>The service as a state machine\<close>

text \<open>The requests the server answers, and one call.\<close>

datatype wallet_request =
    ReqGetBalance GetBalanceRequest
  | ReqCredit CreditRequest
  | ReqDebit DebitRequest
  | ReqTransfer TransferRequest

definition request_amount :: "wallet_request \<Rightarrow> float64" where
  "request_amount r = (case r of ReqGetBalance _ \<Rightarrow> Fin 0 | ReqCredit c \<Rightarrow> cr_amount c
     | ReqDebit d \<Rightarrow> dr_amount d | ReqTransfer t \<Rightarrow> tr_amount t)"

definition request_ref :: "wallet_request \<Rightarrow> string" where
  "request_ref r = (case r of ReqGetBalance _ \<Rightarrow> '''' | ReqCredit c \<Rightarrow> cr_reference_id c
     | ReqDebit d \<Rightarrow> dr_reference_id d | ReqTransfer t \<Rightarrow> tr_reference_id t)"

text \<open>The database after a call, and whether the caller was told that it succeeded.\<close>

definition serve :: "wenv \<Rightarrow> wallet_db \<Rightarrow> wallet_request \<Rightarrow> bool \<times> wallet_db" where
  "serve env db r =
     (case r of
        ReqGetBalance q \<Rightarrow> (is_ok (handler_GetBalance env db q), db)
      | ReqCredit q \<Rightarrow> map_prod is_ok id (handler_Credit env db q)
      | ReqDebit q \<Rightarrow> map_prod is_ok id (handler_Debit env db q)
      | ReqTransfer q \<Rightarrow> map_prod is_ok id (handler_Transfer env db q))"

fun serve_all :: "wallet_db \<Rightarrow> (wenv \<times> wallet_request) list \<Rightarrow> wallet_db" where
  "serve_all db [] = db"
| "serve_all db ((env, r) # rs) = serve_all (snd (serve env db r)) rs"

text \<open>The requests of a run that were acknowledged as successful, in order.\<close>

fun acknowledged :: "wallet_db \<Rightarrow> (wenv \<times> wallet_request) list \<Rightarrow> wallet_request list" where
  "acknowledged db [] = []"
| "acknowledged db ((env, r) # rs) =
     (case serve env db r of (ok, db') \<Rightarrow> (if ok then [r] else []) @ acknowledged db' rs)"

end
