(* ===== verification/WalletProps.thy ===== *)
theory WalletProps imports WalletHandler begin

text \<open>
  The properties of the wallet: what one transfer does, that no reference is processed twice, that
  balances stay non-negative, that transfers are exact below the limit, and two inputs on which
  the code does not keep money safe.
\<close>

section \<open>One transfer\<close>

text \<open>The database a successful transfer leaves: two balances rewritten and one row appended.\<close>

definition moved ::
  "wenv \<Rightarrow> wallet_db \<Rightarrow> string \<Rightarrow> string \<Rightarrow> float64 \<Rightarrow> string \<Rightarrow> float64 \<Rightarrow> float64 \<Rightarrow> wallet_db \<Rightarrow> bool" where
  "moved env db from to amount ref x y db' \<longleftrightarrow>
     (\<exists>a b na nb nm.
        from \<noteq> to \<and> \<not> ref_exists db ref \<and>
        accounts db from = Some a \<and> accounts (ensure_account env db to) to = Some b \<and>
        \<not> f64_lt (numeric_read (balance a)) amount \<and>
        x = f64_sub (numeric_read (balance a)) amount \<and> y = f64_add (numeric_read (balance b)) amount \<and>
        numeric_write (wwire env) x = Some na \<and> numeric_write (wwire env) y = Some nb \<and>
        numeric_write (wwire env) amount = Some nm \<and>
        accounts db' = (accounts db)(from \<mapsto> a\<lparr>balance := na, updated_at := wnow env\<rparr>,
                                     to \<mapsto> b\<lparr>balance := nb, updated_at := wnow env\<rparr>) \<and>
        transactions db' = transactions db @
          [\<lparr>wtx_id = wuuid env, from_account = Some from, to_account = Some to, wtx_amount = nm,
            reference_id = ref, wtx_created_at = wnow env\<rparr>])"

lemma transfer_body_moved:
  "transfer_body env db from to amount ref = Inr ((x, y), db') \<Longrightarrow> moved env db from to amount ref x y db'"
  unfolding moved_def by (erule transfer_bodyD) blast

text \<open>
  C2. A transfer is all or nothing.  When it is acknowledged, both balances are rewritten, no
  other account changes and one log row carries the reference; when it reports an error, the
  database is unchanged, except where the commit took effect and its acknowledgement was lost, and
  then the whole transfer has happened.
\<close>

theorem transfer_all_or_nothing:
  "case Transfer env db from to amount ref of
     (Inr (x, y), db') \<Rightarrow> moved env db from to amount ref x y db'
   | (Inl e, db') \<Rightarrow> db' = db \<or>
       (wcommit env = CommitUnseen \<and> (\<exists>x y. moved env db from to amount ref x y db'))"
  by (auto simp: Transfer_def commit_tx_def split: sum.splits commit.splits intro: transfer_body_moved)

section \<open>No reference is processed twice\<close>

definition is_write :: "wallet_request \<Rightarrow> bool" where
  "is_write r = (case r of ReqGetBalance _ \<Rightarrow> False | _ \<Rightarrow> True)"

lemma serve_wf: "wallet_wf db \<Longrightarrow> wallet_wf (snd (serve env db r))"
  by (auto simp: serve_def handler_Credit_def handler_Debit_def handler_Transfer_def
      split: wallet_request.splits prod.splits sum.splits
      dest: Credit_facts(1) Debit_facts(1) Transfer_facts(1))
     (metis Credit_facts(1) Debit_facts(1) Transfer_facts(1) snd_conv)+

lemma serve_all_wf: "wallet_wf db \<Longrightarrow> wallet_wf (serve_all db rs)"
  by (induction db rs rule: serve_all.induct) (auto intro: serve_wf)

lemma serve_step:
  assumes "serve env db r = (ok, db')" "is_write r"
  shows "db' = db \<and> \<not> ok \<or>
         \<not> ref_exists db (request_ref r) \<and>
         (\<exists>t. transactions db' = transactions db @ [t] \<and> reference_id t = request_ref r)"
  using assms
  by (auto simp: serve_def is_write_def request_ref_def handler_Credit_def handler_Debit_def
        handler_Transfer_def split: wallet_request.splits prod.splits sum.splits if_splits
      dest!: Credit_facts(5) Debit_facts(5) Transfer_facts(5))

lemma serve_read: "\<not> is_write r \<Longrightarrow> snd (serve env db r) = db"
  by (simp add: serve_def is_write_def split: wallet_request.splits)

lemma serve_keeps_refs: "ref_exists db x \<Longrightarrow> ref_exists (snd (serve env db r)) x"
proof (cases "is_write r")
  case True
  assume "ref_exists db x"
  with serve_step [OF _ True, of env db "fst (serve env db r)" "snd (serve env db r)"]
  show ?thesis by (auto simp: ref_exists_def)
qed (simp add: serve_read)

lemma acknowledged_refs:
  assumes "r \<in> set (acknowledged db rs)" "is_write r"
  shows "\<not> ref_exists db (request_ref r) \<and> ref_exists (serve_all db rs) (request_ref r)"
  using assms
proof (induction db rs rule: acknowledged.induct)
  case (2 db env q rs)
  obtain ok db' where s: "serve env db q = (ok, db')" by (cases "serve env db q")
  have mono: "ref_exists db x \<Longrightarrow> ref_exists db' x" for x
    using serve_keeps_refs [of db x env q] s by simp
  have all: "ref_exists d x \<Longrightarrow> ref_exists (serve_all d rs') x" for d x rs'
    by (induction d rs' rule: serve_all.induct) (auto intro: serve_keeps_refs)
  show ?case
  proof (cases "ok \<and> r = q")
    case True
    with serve_step [OF s] 2(3) have "\<not> ref_exists db (request_ref r)" "ref_exists db' (request_ref r)"
      by (auto simp: ref_exists_def)
    with all s show ?thesis by auto
  next
    case False
    with 2(2) s have "r \<in> set (acknowledged db' rs)" by (auto split: if_splits)
    with 2(1) [OF s [symmetric]] 2(3) s mono show ?thesis by auto
  qed
qed simp

text \<open>
  C3. Over any sequence of calls, with any failures, the log never holds two rows with one
  reference, and no two successful acknowledgements are for the same reference: a duplicate
  delivery is refused, also after a commit whose acknowledgement was lost.
\<close>

theorem reference_processed_once:
  assumes "wallet_wf db"
  shows "wallet_wf (serve_all db rs)
       \<and> distinct (map request_ref (filter is_write (acknowledged db rs)))"
proof
  show "wallet_wf (serve_all db rs)" using assms by (rule serve_all_wf)
  show "distinct (map request_ref (filter is_write (acknowledged db rs)))"
  proof (induction db rs rule: acknowledged.induct)
    case (2 db env q rs)
    obtain ok db' where s: "serve env db q = (ok, db')" by (cases "serve env db q")
    have "request_ref q \<notin> request_ref ` set (filter is_write (acknowledged db' rs))"
      if "ok" "is_write q"
    proof
      assume "request_ref q \<in> request_ref ` set (filter is_write (acknowledged db' rs))"
      then obtain r where "r \<in> set (acknowledged db' rs)" "is_write r" "request_ref r = request_ref q"
        by auto
      with acknowledged_refs [of r db' rs] serve_step [OF s that(2)] that(1)
      show False by (auto simp: ref_exists_def)
    qed
    with 2 [OF s [symmetric]] s show ?case by (cases ok; cases "is_write q"; simp)
  qed simp
qed

section \<open>Balances\<close>

lemma positive_amountI: "\<not> f64_le x (Fin 0) \<Longrightarrow> x \<noteq> FNaN \<Longrightarrow> positive_amount x"
  by (cases x) (auto simp: positive_amount_def)

lemma ops_solvent:
  assumes "wire_ok (wwire env)" "solvent db" "positive_amount amount"
  shows "solvent (snd (Credit env db acct amount ref))"
    and "solvent (snd (Debit env db acct amount ref))"
    and "solvent (snd (Transfer env db from to amount ref))"
  unfolding Credit_def Debit_def Transfer_def
  using assms(2) snd_commit_tx [of env db "credit_body env db acct amount ref"]
    snd_commit_tx [of env db "debit_body env db acct amount ref"]
    snd_commit_tx [of env db "transfer_body env db from to amount ref"]
    credit_body_solvent [OF assms] debit_body_solvent [OF assms] transfer_body_solvent [OF assms]
  by (metis, metis, metis surj_pair)

lemma serve_solvent:
  assumes "wire_ok (wwire env)" "solvent db" "request_amount r \<noteq> FNaN"
  shows "solvent (snd (serve env db r))"
  using assms(2,3) ops_solvent [OF assms(1,2)]
  by (auto simp: serve_def request_amount_def handler_Credit_def handler_Debit_def handler_Transfer_def
      split: wallet_request.splits prod.splits sum.splits dest!: positive_amountI)
     (metis snd_conv)+

text \<open>
  C5. No sequence of credits, debits and transfers drives a balance below zero or out of the
  column's range, as long as no request carries the amount NaN.
\<close>

theorem balances_stay_nonnegative:
  assumes "solvent db"
    and "\<forall>(env, r) \<in> set rs. wire_ok (wwire env) \<and> request_amount r \<noteq> FNaN"
  shows "solvent (serve_all db rs)"
  using assms
proof (induction db rs rule: serve_all.induct)
  case (2 db env r rs)
  then have "solvent (snd (serve env db r))" by (intro serve_solvent) auto
  with 2 show ?case by simp
qed simp

section \<open>Exact transfers\<close>

text \<open>
  C7. Below \<open>2 ^ 23\<close> units the float arithmetic of the code and the rounding of the column
  implement the abstract transfer on integer balances: the call fails exactly when the
  specification refuses, and otherwise moves exactly \<open>k\<close> units; the total never changes.
\<close>

theorem transfer_refines_spec:
  assumes "healthy env db" "small_wallet db" "0 < k" "k < exact_limit"
    and "(case wbal (wallet_abs db) to of None \<Rightarrow> 0 | Some j \<Rightarrow> j) + k < exact_limit"
    and "finite (dom (accounts db))"
    and "Transfer env db from to (f64_of_rat (units k)) ref = (res, db')"
  shows "(is_ok res \<longleftrightarrow> spec_transfer (wallet_abs db) from to k ref \<noteq> None)
       \<and> wallet_abs db' = (case spec_transfer (wallet_abs db) from to k ref of
                             None \<Rightarrow> wallet_abs db | Some s' \<Rightarrow> s')
       \<and> spec_total (wallet_abs db') = spec_total (wallet_abs db)"
proof -
  have fin: "finite (dom (wbal (wallet_abs db)))"
    using assms(6) by (auto simp: wallet_abs_def dom_def elim: rev_finite_subset)
  note exact = transfer_exact [OF assms(1-5), of "from" ref]
  show ?thesis
  proof (cases "spec_transfer (wallet_abs db) from to k ref")
    case None
    with exact assms(7) show ?thesis by auto
  next
    case (Some s')
    with exact assms(7) spec_transfer_total [OF Some fin] show ?thesis by auto
  qed
qed

section \<open>Where binary64 loses money\<close>

definition healthy_env :: "wenv" where
  "healthy_env = \<lparr>wfails = (\<lambda>_. False), wcommit = Committed, wnow = 0, wuuid = ''u1'', wwire = (\<lambda>x. x)\<rparr>"

definition two_accounts :: "int \<Rightarrow> int \<Rightarrow> wallet_db" where
  "two_accounts a b = \<lparr>accounts =
      [''alice'' \<mapsto> \<lparr>balance = Num a, created_at = 0, updated_at = 0\<rparr>,
       ''bob'' \<mapsto> \<lparr>balance = Num b, created_at = 0, updated_at = 0\<rparr>], transactions = []\<rparr>"

lemma healthy_two_accounts [simp]: "healthy healthy_env (two_accounts a b)"
  by (simp add: healthy_def healthy_env_def two_accounts_def wire_ok_def)

lemma f64_billion: "f64_of_rat 1000000000 = Fin 1000000000"
  using f64_of_rat_eqI [of 29 1000000000 "1000000000 * 2 ^ 23"] by (simp add: power_int_minus_divide)

definition f64_unit :: "rat" where
  "f64_unit = 6044629098073146 / 2 ^ 79"

lemma f64_of_unit: "f64_of_rat (units 1) = Fin f64_unit"
  using f64_of_rat_eqI [of "- 27" "1 / 100000000" 6044629098073146]
  by (simp add: power_int_minus_divide units_def numeric_scale_def f64_unit_def)

lemma billion_minus_unit: "f64_of_rat (1000000000 - f64_unit) = Fin 1000000000"
  using f64_of_rat_eqI [of 29 "1000000000 - f64_unit" "1000000000 * 2 ^ 23"]
  by (simp add: power_int_minus_divide f64_unit_def)

text \<open>
  C38. Money is created.  An account with one billion units, the balance the load test seeds, sends
  the smallest amount the column can hold: the sender's new balance rounds back to the old one, the
  recipient is credited, and the total of the ledger grows by one unit of the last place.
\<close>

theorem transfer_creates_money:
  "\<exists>v db'. Transfer healthy_env (two_accounts 100000000000000000 0) ''alice'' ''bob''
             (f64_of_rat (units 1)) ''ref'' = (Inr v, db')
         \<and> wbal (wallet_abs db') ''alice'' = Some 100000000000000000
         \<and> wbal (wallet_abs db') ''bob'' = Some 1
         \<and> spec_total (wallet_abs db') = spec_total (wallet_abs (two_accounts 100000000000000000 0)) + 1"
proof -
  let ?db = "two_accounts 100000000000000000 0"
  let ?a = "\<lparr>balance = Num 100000000000000000, created_at = 0, updated_at = 0\<rparr> :: account"
  let ?b = "\<lparr>balance = Num 0, created_at = 0, updated_at = 0\<rparr> :: account"
  have ra: "numeric_read (balance ?a) = Fin 1000000000"
    by (simp add: units_def numeric_scale_def f64_billion)
  have rb: "numeric_read (balance ?b) = Fin 0" by (simp add: units_def)
  have near: "numeric_of_rat f64_unit = Some (Num 1)"
    by (rule numeric_of_rat_near)
       (simp_all add: f64_unit_def units_def numeric_scale_def numeric_limit_def)
  have big: "numeric_of_rat 1000000000 = Some (Num 100000000000000000)"
    by (rule numeric_of_rat_near) (simp_all add: units_def numeric_scale_def numeric_limit_def)
  have na: "numeric_write (wwire healthy_env) (f64_sub (numeric_read (balance ?a)) (f64_of_rat (units 1)))
            = Some (Num 100000000000000000)"
    unfolding ra f64_of_unit using big
    by (simp add: f64_sub_def billion_minus_unit numeric_write_def healthy_env_def)
  have nm: "numeric_write (wwire healthy_env) (f64_of_rat (units 1)) = Some (Num 1)"
    unfolding f64_of_unit using near by (simp add: numeric_write_def healthy_env_def)
  have nb: "numeric_write (wwire healthy_env) (f64_add (numeric_read (balance ?b)) (f64_of_rat (units 1)))
            = Some (Num 1)"
    unfolding rb f64_of_unit using near f64_of_rat_idem [OF f64_of_unit]
    by (simp add: numeric_write_def healthy_env_def)
  have lt: "\<not> f64_lt (numeric_read (balance ?a)) (f64_of_rat (units 1))"
    unfolding ra f64_of_unit by (simp add: f64_unit_def)
  have a: "accounts ?db ''alice'' = Some ?a" by (simp add: two_accounts_def)
  have b: "accounts (ensure_account healthy_env ?db ''bob'') ''bob'' = Some ?b"
    by (simp add: accounts_ensure two_accounts_def)
  have ref: "\<not> ref_exists ?db ''ref''" by (simp add: ref_exists_def two_accounts_def)
  have ne: "''alice'' \<noteq> ''bob''" by simp
  obtain v db' where run: "Transfer healthy_env ?db ''alice'' ''bob'' (f64_of_rat (units 1)) ''ref'' = (Inr v, db')"
    and acc: "accounts db' = (accounts ?db)
       (''alice'' \<mapsto> ?a\<lparr>balance := Num 100000000000000000, updated_at := wnow healthy_env\<rparr>,
        ''bob'' \<mapsto> ?b\<lparr>balance := Num 1, updated_at := wnow healthy_env\<rparr>)"
    using transfer_run [OF healthy_two_accounts ne ref a b lt na nb nm] by metis
  have "wbal (wallet_abs ?db) = [''alice'' \<mapsto> 100000000000000000, ''bob'' \<mapsto> 0]"
    "wbal (wallet_abs db') = [''alice'' \<mapsto> 100000000000000000, ''bob'' \<mapsto> 1]"
    unfolding wallet_abs_def acc by (auto simp: two_accounts_def fun_eq_iff)
  with run show ?thesis by (simp add: spec_total_def map_total_upd)
qed

text \<open>
  A not-a-number amount is accepted.  The handler refuses an amount by testing that it is at
  most zero, which NaN is not, and the store refuses it by testing that the balance is smaller,
  which no balance is; so the transfer succeeds and both balances become NaN, for every pair of
  balances.
\<close>

theorem nan_transfer_poisons:
  "\<exists>resp db'. handler_Transfer healthy_env (two_accounts a b)
        \<lparr>tr_from_account_id = ''alice'', tr_to_account_id = ''bob'', tr_amount = FNaN,
         tr_reference_id = ''ref''\<rparr> = (Inr resp, db')
      \<and> map_option balance (accounts db' ''alice'') = Some NumNaN
      \<and> map_option balance (accounts db' ''bob'') = Some NumNaN"
proof -
  let ?db = "two_accounts a b"
  let ?a = "\<lparr>balance = Num a, created_at = 0, updated_at = 0\<rparr> :: account"
  let ?b = "\<lparr>balance = Num b, created_at = 0, updated_at = 0\<rparr> :: account"
  have nan: "f64_sub x FNaN = FNaN" "f64_add x FNaN = FNaN" "\<not> f64_lt x FNaN" for x
    by (cases x; simp add: f64_sub_def)+
  have w: "numeric_write (wwire healthy_env) FNaN = Some NumNaN" by (simp add: numeric_write_def)
  have a: "accounts ?db ''alice'' = Some ?a" by (simp add: two_accounts_def)
  have b: "accounts (ensure_account healthy_env ?db ''bob'') ''bob'' = Some ?b"
    by (simp add: accounts_ensure two_accounts_def)
  have ref: "\<not> ref_exists ?db ''ref''" by (simp add: ref_exists_def two_accounts_def)
  have ne: "''alice'' \<noteq> ''bob''" by simp
  obtain v db' where run: "Transfer healthy_env ?db ''alice'' ''bob'' FNaN ''ref'' = (Inr v, db')"
    and acc: "accounts db' = (accounts ?db)
       (''alice'' \<mapsto> ?a\<lparr>balance := NumNaN, updated_at := wnow healthy_env\<rparr>,
        ''bob'' \<mapsto> ?b\<lparr>balance := NumNaN, updated_at := wnow healthy_env\<rparr>)"
    using transfer_run [OF healthy_two_accounts ne ref a b nan(3) _ _ w] w by (metis nan(1,2))
  show ?thesis
    by (cases v) (use run acc in \<open>auto simp: handler_Transfer_def\<close>)
qed

section \<open>Instances\<close>

lemma wallet_wf_two [simp]: "wallet_wf (two_accounts a b)"
  by (simp add: wallet_wf_def two_accounts_def)

lemma two_solvent: "0 \<le> a \<Longrightarrow> a < numeric_limit \<Longrightarrow> 0 \<le> b \<Longrightarrow> b < numeric_limit \<Longrightarrow> solvent (two_accounts a b)"
  by (auto simp: solvent_def two_accounts_def numeric_nonneg_def)

definition sample_call :: "wenv \<times> wallet_request" where
  "sample_call = (healthy_env, ReqDebit \<lparr>dr_account_id = ''alice'', dr_amount = Fin 1, dr_reference_id = ''r''\<rparr>)"

lemma reference_processed_once_witness:
  "wallet_wf (serve_all (two_accounts 500 0) [sample_call, sample_call])
   \<and> distinct (map request_ref (filter is_write (acknowledged (two_accounts 500 0) [sample_call, sample_call])))"
  by (rule reference_processed_once) simp

lemma balances_stay_nonnegative_witness:
  "solvent (serve_all (two_accounts 500 0) [sample_call, sample_call])"
proof (rule balances_stay_nonnegative)
  show "solvent (two_accounts 500 0)" by (rule two_solvent) (simp_all add: numeric_limit_def)
  show "\<forall>(env, r) \<in> set [sample_call, sample_call]. wire_ok (wwire env) \<and> request_amount r \<noteq> FNaN"
    by (simp add: sample_call_def healthy_env_def wire_ok_def request_amount_def)
qed

lemma transfer_refines_spec_witness:
  "\<exists>s'. spec_transfer (wallet_abs (two_accounts 500 7)) ''alice'' ''bob'' 200 ''ref'' = Some s'
      \<and> wallet_abs (snd (Transfer healthy_env (two_accounts 500 7) ''alice'' ''bob''
            (f64_of_rat (units 200)) ''ref'')) = s'
      \<and> wbal s' ''alice'' = Some 300 \<and> wbal s' ''bob'' = Some 207"
proof -
  have small: "small_wallet (two_accounts 500 7)"
    by (auto simp: small_wallet_def two_accounts_def exact_limit_def split: if_splits)
  have fin: "finite (dom (accounts (two_accounts 500 7)))" by (simp add: two_accounts_def)
  have room: "(case wbal (wallet_abs (two_accounts 500 7)) ''bob'' of None \<Rightarrow> 0 | Some j \<Rightarrow> j) + 200 < exact_limit"
    by (simp add: wallet_abs_def two_accounts_def exact_limit_def)
  have lim: "(200::int) < exact_limit" by (simp add: exact_limit_def)
  note run = transfer_refines_spec [OF healthy_two_accounts small _ lim room fin prod.collapse [symmetric],
      of "''alice''" "''ref''"]
  have "\<exists>s'. spec_transfer (wallet_abs (two_accounts 500 7)) ''alice'' ''bob'' 200 ''ref'' = Some s'
      \<and> wbal s' ''alice'' = Some 300 \<and> wbal s' ''bob'' = Some 207"
    by (simp add: spec_transfer_def wallet_abs_def two_accounts_def)
  with run show ?thesis by force
qed

end
