(* ===== verification/IntentTypes.thy ===== *)
theory IntentTypes imports Prelude begin

text \<open>
  The messages of \<open>proto/intent/v1\<close> as the generated code \<open>intent.pb.go\<close> declares them, and
  the clock.

  A proto3 enum is open: a number the schema does not name decodes to that number, which is the
  last constructor of each type below; the decoders only build it for such a number.  A
  \<open>time.Time\<close> is the number of nanoseconds since the Unix epoch, an integer without bound; the
  wire form \<open>timestamppb.Timestamp\<close> is a pair of seconds and nanoseconds.  A nil pointer to a
  message is \<open>None\<close>.
\<close>

section \<open>Time\<close>

type_synonym time = int

definition second :: "time" where
  "second = 1000000000"

definition minute :: "time" where
  "minute = 60 * second"

record Timestamp =
  Seconds :: int
  Nanos :: int

text \<open>\<open>timestamppb.New(t)\<close> and \<open>(*Timestamp).AsTime\<close>, where nil is the zero message\<close>

definition timestamp_New :: "time \<Rightarrow> Timestamp" where
  "timestamp_New t = \<lparr>Seconds = t div second, Nanos = t mod second\<rparr>"

definition AsTime :: "Timestamp option \<Rightarrow> time" where
  "AsTime ts = (case ts of None \<Rightarrow> 0 | Some x \<Rightarrow> Seconds x * second + Nanos x)"

lemma AsTime_New [simp]: "AsTime (Some (timestamp_New t)) = t"
  by (simp add: AsTime_def timestamp_New_def)

section \<open>Enums\<close>

datatype IntentType =
    INTENT_TYPE_UNSPECIFIED | INTENT_TYPE_TRANSFER | INTENT_TYPE_COMPUTE | INTENT_TYPE_QUERY
  | INTENT_TYPE_SCHEDULED | IntentType_Number int

datatype IntentStatus =
    INTENT_STATUS_UNSPECIFIED | INTENT_STATUS_PENDING | INTENT_STATUS_VALIDATED
  | INTENT_STATUS_SCHEDULED | INTENT_STATUS_EXECUTING | INTENT_STATUS_COMPLETED
  | INTENT_STATUS_FAILED | INTENT_STATUS_REJECTED | INTENT_STATUS_CANCELLED
  | IntentStatus_Number int

text \<open>\<open>String()\<close>: the name in the table, or the decimal number of an unnamed value\<close>

fun IntentType_String :: "IntentType \<Rightarrow> string" where
  "IntentType_String INTENT_TYPE_UNSPECIFIED = ''INTENT_TYPE_UNSPECIFIED''"
| "IntentType_String INTENT_TYPE_TRANSFER = ''INTENT_TYPE_TRANSFER''"
| "IntentType_String INTENT_TYPE_COMPUTE = ''INTENT_TYPE_COMPUTE''"
| "IntentType_String INTENT_TYPE_QUERY = ''INTENT_TYPE_QUERY''"
| "IntentType_String INTENT_TYPE_SCHEDULED = ''INTENT_TYPE_SCHEDULED''"
| "IntentType_String (IntentType_Number n) = int_dec n"

fun IntentStatus_String :: "IntentStatus \<Rightarrow> string" where
  "IntentStatus_String INTENT_STATUS_UNSPECIFIED = ''INTENT_STATUS_UNSPECIFIED''"
| "IntentStatus_String INTENT_STATUS_PENDING = ''INTENT_STATUS_PENDING''"
| "IntentStatus_String INTENT_STATUS_VALIDATED = ''INTENT_STATUS_VALIDATED''"
| "IntentStatus_String INTENT_STATUS_SCHEDULED = ''INTENT_STATUS_SCHEDULED''"
| "IntentStatus_String INTENT_STATUS_EXECUTING = ''INTENT_STATUS_EXECUTING''"
| "IntentStatus_String INTENT_STATUS_COMPLETED = ''INTENT_STATUS_COMPLETED''"
| "IntentStatus_String INTENT_STATUS_FAILED = ''INTENT_STATUS_FAILED''"
| "IntentStatus_String INTENT_STATUS_REJECTED = ''INTENT_STATUS_REJECTED''"
| "IntentStatus_String INTENT_STATUS_CANCELLED = ''INTENT_STATUS_CANCELLED''"
| "IntentStatus_String (IntentStatus_Number n) = int_dec n"

text \<open>The decoders of the wire number\<close>

definition IntentType_of_number :: "int \<Rightarrow> IntentType" where
  "IntentType_of_number n =
     (if n = 0 then INTENT_TYPE_UNSPECIFIED else if n = 1 then INTENT_TYPE_TRANSFER
      else if n = 2 then INTENT_TYPE_COMPUTE else if n = 3 then INTENT_TYPE_QUERY
      else if n = 4 then INTENT_TYPE_SCHEDULED else IntentType_Number n)"

definition IntentStatus_of_number :: "int \<Rightarrow> IntentStatus" where
  "IntentStatus_of_number n =
     (if n = 0 then INTENT_STATUS_UNSPECIFIED else if n = 1 then INTENT_STATUS_PENDING
      else if n = 2 then INTENT_STATUS_VALIDATED else if n = 3 then INTENT_STATUS_SCHEDULED
      else if n = 4 then INTENT_STATUS_EXECUTING else if n = 5 then INTENT_STATUS_COMPLETED
      else if n = 6 then INTENT_STATUS_FAILED else if n = 7 then INTENT_STATUS_REJECTED
      else if n = 8 then INTENT_STATUS_CANCELLED else IntentStatus_Number n)"

definition known_type :: "IntentType \<Rightarrow> bool" where
  "known_type t = (case t of IntentType_Number _ \<Rightarrow> False | _ \<Rightarrow> True)"

definition known_status :: "IntentStatus \<Rightarrow> bool" where
  "known_status s = (case s of IntentStatus_Number _ \<Rightarrow> False | _ \<Rightarrow> True)"

lemma int_dec_head: "int_dec n = c # cs \<Longrightarrow> c = CHR ''-'' \<or> is_digit c"
  using nat_dec_digits [of c "nat n"] by (auto simp: int_dec_def split: if_splits)

lemma int_dec_not_name [simp]: "int_dec n \<noteq> CHR ''I'' # s" "CHR ''I'' # s \<noteq> int_dec n"
  using int_dec_head [of n "CHR ''I''" s] by (auto simp: is_digit_def)

section \<open>Messages\<close>

record IntentConstraints =
  Deadline :: "Timestamp option"
  Priority :: int
  MaxRetries :: int
  Idempotent :: bool

record Intent =
  Id :: string
  Type :: IntentType
  Status :: IntentStatus
  SubmitterId :: string
  Payload :: bytes
  Constraints :: "IntentConstraints option"
  Signature :: string
  SubmitterPublicKey :: string
  CreatedAt :: "Timestamp option"
  UpdatedAt :: "Timestamp option"

record SubmitIntentRequest =
  si_Type :: IntentType
  si_Payload :: bytes
  si_Constraints :: "IntentConstraints option"
  si_SubmitterId :: string
  si_Signature :: string
  si_SubmitterPublicKey :: string

record SubmitIntentResponse =
  sr_IntentId :: string
  sr_Status :: IntentStatus
  sr_CreatedAt :: "Timestamp option"

record GetIntentRequest =
  gi_IntentId :: string

record GetIntentResponse =
  gr_Intent :: Intent

record ListIntentsRequest =
  li_StatusFilter :: IntentStatus
  li_SubmitterIdFilter :: string
  li_PageSize :: int
  li_PageToken :: string

record ListIntentsResponse =
  lr_Intents :: "Intent list"
  lr_NextPageToken :: string
  lr_TotalCount :: int

text \<open>Conversion to \<open>int32\<close>\<close>

definition int32 :: "int \<Rightarrow> int" where
  "int32 n = (n + 2 ^ 31) mod 2 ^ 32 - 2 ^ 31"

lemma int32_small: "- (2 ^ 31) \<le> n \<Longrightarrow> n < 2 ^ 31 \<Longrightarrow> int32 n = n"
  by (simp add: int32_def)

text \<open>The part of an intent that the submitter determines\<close>

definition intent_core :: "Intent \<Rightarrow> IntentType \<times> string \<times> bytes \<times> string \<times> string" where
  "intent_core i = (Type i, SubmitterId i, Payload i, Signature i, SubmitterPublicKey i)"

definition request_core :: "SubmitIntentRequest \<Rightarrow> IntentType \<times> string \<times> bytes \<times> string \<times> string" where
  "request_core q = (si_Type q, si_SubmitterId q, si_Payload q, si_Signature q, si_SubmitterPublicKey q)"

end
