(* ===== verification/IntentStore.thy ===== *)
theory IntentStore imports IntentTypes begin

text \<open>
  The persistence interface of the intent service, \<open>intent-service/store/memory.go\<close>: the Go
  interface \<open>Store\<close> is a record of functions over a state \<open>'s\<close> and an environment \<open>'e\<close>
  (clock, identifiers, failures), the contract its clients rely on is the locale \<open>intent_store\<close>,
  and the first provider is \<open>MemoryStore\<close>.  The mutex of \<open>MemoryStore\<close> makes each method
  atomic, so a method is one function on the state.
\<close>

section \<open>The interface\<close>

datatype store_error =
    IntentNotFound string
  | BeginFailed | InsertIntentFailed | MarshalFailed | InsertOutboxFailed | CommitFailed
  | ScanFailed | RowsFailed | CountFailed | QueryFailed | NilDereference

record ('e, 's) Store =
  Create :: "'e \<Rightarrow> 's \<Rightarrow> SubmitIntentRequest \<Rightarrow> (store_error + Intent) \<times> 's"
  Get :: "'e \<Rightarrow> 's \<Rightarrow> string \<Rightarrow> store_error + Intent"
  List :: "'e \<Rightarrow> 's \<Rightarrow> IntentStatus \<Rightarrow> string \<Rightarrow> int \<Rightarrow> string \<Rightarrow> store_error + Intent list \<times> string \<times> int"

text \<open>What both filters of \<open>List\<close> let through; an unspecified status or an empty submitter filters nothing.\<close>

definition intent_matches :: "IntentStatus \<Rightarrow> string \<Rightarrow> Intent \<Rightarrow> bool" where
  "intent_matches statusFilter submitterFilter i \<longleftrightarrow>
     (statusFilter = INTENT_STATUS_UNSPECIFIED \<or> Status i = statusFilter) \<and>
     (submitterFilter = '''' \<or> SubmitterId i = submitterFilter)"

definition page_limit :: "int \<Rightarrow> int" where
  "page_limit pageSize = (if pageSize \<le> 0 then 20 else pageSize)"

text \<open>
  The contract.  \<open>contents\<close> is what the store holds, in insertion order; \<open>fresh\<close> says that the
  identifiers the environment draws are new and \<open>up\<close> that the backend answers.
\<close>

locale intent_store =
  fixes S :: "('e, 's) Store"
    and inv :: "'s \<Rightarrow> bool"
    and contents :: "'s \<Rightarrow> Intent list"
    and fresh :: "'e \<Rightarrow> 's \<Rightarrow> bool"
    and up :: "'e \<Rightarrow> 's \<Rightarrow> bool"
  assumes create_ok:
      "inv s \<Longrightarrow> fresh e s \<Longrightarrow> Create S e s q = (Inr i, s') \<Longrightarrow>
       inv s' \<and> Id i \<notin> Id ` set (contents s) \<and> Status i = INTENT_STATUS_PENDING \<and>
       intent_core i = request_core q \<and>
       (\<exists>j. contents s' = contents s @ [j] \<and> Id j = Id i \<and> Status j = INTENT_STATUS_PENDING \<and>
            (known_type (si_Type q) \<longrightarrow> intent_core j = request_core q))"
    and create_error:
      "inv s \<Longrightarrow> fresh e s \<Longrightarrow> Create S e s q = (Inl x, s') \<Longrightarrow>
       inv s' \<and> (contents s' = contents s \<or>
         (\<exists>j. contents s' = contents s @ [j] \<and> Status j = INTENT_STATUS_PENDING \<and>
            (known_type (si_Type q) \<longrightarrow> intent_core j = request_core q)))"
    and ids_distinct: "inv s \<Longrightarrow> distinct (map Id (contents s))"
    and get_sound: "inv s \<Longrightarrow> Get S e s iid = Inr i \<Longrightarrow> i \<in> set (contents s)"
    and get_complete: "inv s \<Longrightarrow> up e s \<Longrightarrow> i \<in> set (contents s) \<Longrightarrow> Get S e s (Id i) = Inr i"
    and list_ok:
      "inv s \<Longrightarrow> List S e s sf uf n tok = Inr (xs, nxt, cnt) \<Longrightarrow>
       set xs \<subseteq> set (filter (intent_matches sf uf) (contents s)) \<and> distinct (map Id xs) \<and>
       int (length xs) \<le> page_limit n \<and>
       cnt = int (length (filter (intent_matches sf uf) (contents s)))"
begin

lemma get_id_unique: "inv s \<Longrightarrow> i \<in> set (contents s) \<Longrightarrow> j \<in> set (contents s) \<Longrightarrow> Id i = Id j \<Longrightarrow> i = j"
  using ids_distinct [of s] by (metis distinct_map inj_onD)

lemma create_then_get:
  assumes "inv s" "fresh e s" "Create S e s q = (Inr i, s')" "up e' s'" "known_type (si_Type q)"
  shows "\<exists>j. Get S e' s' (Id i) = Inr j \<and> Id j = Id i \<and> Status j = INTENT_STATUS_PENDING
           \<and> intent_core j = request_core q"
proof -
  obtain j where j: "contents s' = contents s @ [j]" "Id j = Id i" "Status j = INTENT_STATUS_PENDING"
    "intent_core j = request_core q" and inv: "inv s'"
    using create_ok [OF assms(1-3)] assms(5) by auto
  then have "Get S e' s' (Id j) = Inr j" by (intro get_complete assms(4)) simp_all
  with j show ?thesis by auto
qed

lemma create_keeps_others:
  assumes "inv s" "fresh e s" "Create S e s q = (r, s')" "i \<in> set (contents s)"
  shows "inv s' \<and> i \<in> set (contents s')"
proof (cases r)
  case (Inl x)
  with create_error [OF assms(1,2), of q x s'] assms(3,4) show ?thesis by auto
next
  case (Inr j)
  with create_ok [OF assms(1,2), of q j s'] assms(3,4) show ?thesis by auto
qed

lemma get_stable:
  assumes "inv s" "fresh e s" "Create S e s q = (r, s')" "Get S e1 s iid = Inr i" "up e2 s'"
  shows "Get S e2 s' (Id i) = Inr i"
  using create_keeps_others [OF assms(1-3) get_sound [OF assms(1,4)]] get_complete [OF _ assms(5)]
  by blast

end

section \<open>The scanner of page tokens\<close>

text \<open>
  \<open>fmt.Sscanf(token, "%d", &startIdx)\<close>: leading white space in the sense of package \<open>fmt\<close> is
  skipped (a newline is an error), then an optional sign and a run of digits, which
  \<open>strconv.ParseInt\<close> must accept at 64 bits; what follows is ignored.  On any error the
  destination keeps its old value.
\<close>

definition fmt_spaces :: "bytes list" where
  "fmt_spaces = map (map char_of)
     ([[9], [11], [12], [13], [32], [194, 133], [194, 160], [225, 154, 128],
       [226, 128, 168], [226, 128, 169], [226, 128, 175], [226, 129, 159], [227, 128, 128]]
      @ map (\<lambda>k. [226, 128, k]) [128..<139] :: nat list list)"

definition strip_prefix :: "bytes \<Rightarrow> bytes \<Rightarrow> bytes option" where
  "strip_prefix p s = (if take (length p) s = p then Some (drop (length p) s) else None)"

fun first_space :: "bytes list \<Rightarrow> bytes \<Rightarrow> bytes option" where
  "first_space [] s = None"
| "first_space (p # ps) s = (case strip_prefix p s of Some r \<Rightarrow> Some r | None \<Rightarrow> first_space ps s)"

fun skip_space :: "nat \<Rightarrow> bytes \<Rightarrow> bytes option" where
  "skip_space 0 s = Some s"
| "skip_space (Suc n) s =
     (case s of
        [] \<Rightarrow> Some s
      | c # _ \<Rightarrow> if c = char_of (10 :: nat) then None
                 else case first_space fmt_spaces s of None \<Rightarrow> Some s | Some r \<Rightarrow> skip_space n r)"

definition ParseInt64 :: "bool \<Rightarrow> nat \<Rightarrow> int option" where
  "ParseInt64 neg n =
     (if neg then (if int n \<le> 2 ^ 63 then Some (- int n) else None)
      else if int n < 2 ^ 63 then Some (int n) else None)"

definition Sscanf_d :: "string \<Rightarrow> int option" where
  "Sscanf_d s =
     (case skip_space (length s) s of
        None \<Rightarrow> None
      | Some t \<Rightarrow>
          let neg = (t \<noteq> [] \<and> hd t = CHR ''-'');
              u = (if t \<noteq> [] \<and> (hd t = CHR ''-'' \<or> hd t = CHR ''+'') then tl t else t);
              ds = takeWhile is_digit u
          in if ds = [] then None else ParseInt64 neg (dec_val ds))"

lemma takeWhile_nat_dec [simp]: "takeWhile is_digit (nat_dec n) = nat_dec n"
  by (simp add: nat_dec_digits)

lemma first_space_None:
  "\<forall>p \<in> set ps. p \<noteq> [] \<and> hd p \<noteq> c \<Longrightarrow> first_space ps (c # s) = None"
proof (induction ps)
  case (Cons p ps)
  then show ?case by (cases p) (auto simp: strip_prefix_def)
qed simp

lemma fmt_spaces_not_digits: "\<forall>p \<in> set fmt_spaces. p \<noteq> [] \<and> \<not> is_digit (hd p)"
  by code_simp

lemma skip_space_digits: "is_digit c \<Longrightarrow> skip_space n (c # s) = Some (c # s)"
proof (cases n)
  case (Suc m)
  assume "is_digit c"
  then have "first_space fmt_spaces (c # s) = None" "c \<noteq> char_of (10 :: nat)"
    using fmt_spaces_not_digits by (auto intro!: first_space_None simp: is_digit_def)
  with Suc show ?thesis by simp
qed simp

lemma Sscanf_d_nat_dec [simp]:
  assumes "int n < 2 ^ 63"
  shows "Sscanf_d (nat_dec n) = Some (int n)"
proof -
  obtain c cs where cs: "nat_dec n = c # cs" by (cases "nat_dec n") simp_all
  have "is_digit c" using nat_dec_digits [of c n] cs by simp
  then have "c \<noteq> CHR ''-''" "c \<noteq> CHR ''+''" by (auto simp: is_digit_def)
  moreover have "takeWhile is_digit cs = cs"
    using nat_dec_digits [of _ n] cs by (simp add: takeWhile_eq_all_conv)
  moreover have "dec_val (c # cs) = n" using dec_val_nat_dec [of n] cs by simp
  ultimately show ?thesis
    unfolding Sscanf_d_def cs using assms \<open>is_digit c\<close>
    by (simp add: skip_space_digits ParseInt64_def Let_def del: skip_space.simps takeWhile_eq_all_conv)
qed

section \<open>MemoryStore\<close>

record mem_env =
  mem_now :: time
  mem_id :: string

record MemoryStore =
  intents :: "string \<rightharpoonup> Intent"
  ordered :: "string list"

definition NewMemoryStore :: "MemoryStore" where
  "NewMemoryStore = \<lparr>intents = Map.empty, ordered = []\<rparr>"

definition mem_Create ::
  "mem_env \<Rightarrow> MemoryStore \<Rightarrow> SubmitIntentRequest \<Rightarrow> (store_error + Intent) \<times> MemoryStore" where
  "mem_Create e m req =
     (let now = timestamp_New (mem_now e);
          intent = \<lparr>Id = mem_id e, Type = si_Type req, Status = INTENT_STATUS_PENDING,
            SubmitterId = si_SubmitterId req, Payload = si_Payload req, Constraints = si_Constraints req,
            Signature = si_Signature req, SubmitterPublicKey = si_SubmitterPublicKey req,
            CreatedAt = Some now, UpdatedAt = Some now\<rparr>
      in (Inr intent, m\<lparr>intents := (intents m)(Id intent \<mapsto> intent), ordered := ordered m @ [Id intent]\<rparr>))"

definition mem_Get :: "mem_env \<Rightarrow> MemoryStore \<Rightarrow> string \<Rightarrow> store_error + Intent" where
  "mem_Get e m iid = (case intents m iid of None \<Rightarrow> Inl (IntentNotFound iid) | Some i \<Rightarrow> Inr i)"

text \<open>
  The loop of \<open>List\<close> over the ordered identifiers, with its two accumulators: the page and the
  number of matches.  An identifier without an intent would be a nil dereference.
\<close>

fun mem_list_loop ::
  "(string \<rightharpoonup> Intent) \<Rightarrow> IntentStatus \<Rightarrow> string \<Rightarrow> int \<Rightarrow> int \<Rightarrow> string list \<Rightarrow> Intent list \<Rightarrow> int
   \<Rightarrow> (Intent list \<times> int) option" where
  "mem_list_loop tab sf uf pageSize startIdx [] results totalMatching = Some (results, totalMatching)"
| "mem_list_loop tab sf uf pageSize startIdx (iid # ids) results totalMatching =
     (case tab iid of
        None \<Rightarrow> None
      | Some intent \<Rightarrow>
          if \<not> intent_matches sf uf intent
          then mem_list_loop tab sf uf pageSize startIdx ids results totalMatching
          else let totalMatching = totalMatching + 1
          in if totalMatching \<le> startIdx
          then mem_list_loop tab sf uf pageSize startIdx ids results totalMatching
          else if int (length results) < pageSize
          then mem_list_loop tab sf uf pageSize startIdx ids (results @ [intent]) totalMatching
          else mem_list_loop tab sf uf pageSize startIdx ids results totalMatching)"

definition mem_List ::
  "mem_env \<Rightarrow> MemoryStore \<Rightarrow> IntentStatus \<Rightarrow> string \<Rightarrow> int \<Rightarrow> string
   \<Rightarrow> store_error + Intent list \<times> string \<times> int" where
  "mem_List e m sf uf pageSize pageToken =
     (let pageSize = page_limit pageSize;
          startIdx = (if pageToken = '''' then 0 else case Sscanf_d pageToken of None \<Rightarrow> 0 | Some n \<Rightarrow> n)
      in case mem_list_loop (intents m) sf uf pageSize startIdx (ordered m) [] 0 of
           None \<Rightarrow> Inl NilDereference
         | Some (results, totalMatching) \<Rightarrow>
             let next = startIdx + int (length results)
             in Inr (results, if next < totalMatching then int_dec next else '''', totalMatching))"

definition memory_store :: "(mem_env, MemoryStore) Store" where
  "memory_store = \<lparr>Create = mem_Create, Get = mem_Get, List = mem_List\<rparr>"

end
