(* ===== verification/MemoryProps.thy ===== *)
theory MemoryProps imports IntentStore begin

text \<open>
  \<open>MemoryStore\<close> keeps the contract of the \<open>Store\<close> interface, and following its page tokens
  lists every matching intent exactly once.
\<close>

section \<open>The invariant\<close>

definition mem_inv :: "MemoryStore \<Rightarrow> bool" where
  "mem_inv m \<longleftrightarrow> distinct (ordered m) \<and> set (ordered m) = dom (intents m) \<and>
     (\<forall>iid i. intents m iid = Some i \<longrightarrow> Id i = iid)"

definition mem_contents :: "MemoryStore \<Rightarrow> Intent list" where
  "mem_contents m = map (\<lambda>iid. the (intents m iid)) (ordered m)"

definition mem_fresh :: "mem_env \<Rightarrow> MemoryStore \<Rightarrow> bool" where
  "mem_fresh e m \<longleftrightarrow> mem_id e \<notin> set (ordered m)"

lemma mem_inv_new [simp]: "mem_inv NewMemoryStore"
  by (simp add: mem_inv_def NewMemoryStore_def)

lemma mem_ids: "mem_inv m \<Longrightarrow> map Id (mem_contents m) = ordered m"
  unfolding mem_contents_def mem_inv_def map_map
  by (rule map_idI) (metis comp_apply domIff option.collapse)

lemma mem_contents_iff:
  assumes inv: "mem_inv m"
  shows "i \<in> set (mem_contents m) \<longleftrightarrow> intents m (Id i) = Some i"
proof
  assume "i \<in> set (mem_contents m)"
  then obtain iid where iid: "iid \<in> set (ordered m)" "i = the (intents m iid)"
    by (auto simp: mem_contents_def)
  then obtain j where j: "intents m iid = Some j" using inv by (auto simp: mem_inv_def)
  moreover have "Id j = iid" using inv j by (simp add: mem_inv_def)
  ultimately show "intents m (Id i) = Some i" using iid by simp
next
  assume i: "intents m (Id i) = Some i"
  have "Id i \<in> set (ordered m)" using inv domI [of "intents m", OF i] by (simp add: mem_inv_def)
  then have "the (intents m (Id i)) \<in> set (mem_contents m)" unfolding mem_contents_def by simp
  with i show "i \<in> set (mem_contents m)" by simp
qed

lemma mem_Create_contents:
  assumes "mem_inv m" "mem_fresh e m" "mem_Create e m q = (r, m')"
  obtains i where "r = Inr i" "mem_inv m'" "mem_contents m' = mem_contents m @ [i]" "Id i = mem_id e"
    "Status i = INTENT_STATUS_PENDING" "intent_core i = request_core q"
proof -
  have new: "mem_id e \<notin> dom (intents m)" using assms by (auto simp: mem_inv_def mem_fresh_def)
  obtain i where i: "r = Inr i" "m' = m\<lparr>intents := (intents m)(mem_id e \<mapsto> i), ordered := ordered m @ [mem_id e]\<rparr>"
    "Id i = mem_id e" "Status i = INTENT_STATUS_PENDING" "intent_core i = request_core q"
    using assms(3) by (auto simp: mem_Create_def Let_def intent_core_def request_core_def)
  have "mem_inv m'" using assms(1) new i by (auto simp: mem_inv_def split: if_splits)
  moreover have "mem_contents m' = mem_contents m @ [i]"
    using assms(1) new i by (auto simp: mem_contents_def mem_inv_def intro!: map_cong)
  ultimately show ?thesis using i that by blast
qed

section \<open>The loop of List\<close>

lemma mem_list_loop_eq:
  assumes "set ids \<subseteq> dom tab" "int (length acc) \<le> ps"
  shows "mem_list_loop tab sf uf ps k ids acc t =
    Some (acc @ take (nat (ps - int (length acc)))
                  (drop (nat (k - t)) (filter (intent_matches sf uf) (map (\<lambda>x. the (tab x)) ids))),
          t + int (length (filter (intent_matches sf uf) (map (\<lambda>x. the (tab x)) ids))))"
  using assms
proof (induction ids arbitrary: acc t)
  case (Cons iid ids)
  then obtain i where i: "tab iid = Some i" by auto
  show ?case
  proof (cases "intent_matches sf uf i")
    case True
    consider "t < k" | "k \<le> t" "int (length acc) < ps" | "k \<le> t" "int (length acc) = ps"
      using Cons.prems(2) by linarith
    then show ?thesis
    proof cases
      case 1
      then have "nat (k - t) = Suc (nat (k - (t + 1)))" by simp
      with 1 Cons True i show ?thesis by (simp add: Let_def algebra_simps)
    next
      case 2
      then have "nat (ps - int (length acc)) = Suc (nat (ps - int (length (acc @ [i]))))" by simp
      with 2 Cons True i show ?thesis by (simp add: Let_def)
    next
      case 3
      with Cons True i show ?thesis by simp
    qed
  next
    case False
    with Cons i show ?thesis by simp
  qed
qed simp

lemma mem_List_eq:
  assumes "mem_inv m"
  shows "mem_List e m sf uf n tok =
    (let L = filter (intent_matches sf uf) (mem_contents m);
         k = (if tok = '''' then 0 else case Sscanf_d tok of None \<Rightarrow> 0 | Some j \<Rightarrow> j);
         xs = take (nat (page_limit n)) (drop (nat k) L);
         next = k + int (length xs)
     in Inr (xs, if next < int (length L) then int_dec next else '''', int (length L)))"
  using assms
  by (simp add: mem_List_def mem_list_loop_eq mem_inv_def mem_contents_def Let_def page_limit_def)

interpretation mem: intent_store memory_store mem_inv mem_contents mem_fresh "\<lambda>_ _. True"
proof unfold_locales
  fix e m q i m' assume a: "mem_inv m" "mem_fresh e m" "Create memory_store e m q = (Inr i, m')"
  then have "mem_Create e m q = (Inr i, m')" by (simp add: memory_store_def)
  from mem_Create_contents [OF a(1,2) this]
  obtain "mem_inv m'" "mem_contents m' = mem_contents m @ [i]" "Id i = mem_id e"
    "Status i = INTENT_STATUS_PENDING" "intent_core i = request_core q" by auto
  moreover have "mem_id e \<notin> Id ` set (mem_contents m)"
    using mem_ids [OF a(1)] a(2) by (metis image_set mem_fresh_def)
  ultimately show "mem_inv m' \<and> Id i \<notin> Id ` set (mem_contents m) \<and> Status i = INTENT_STATUS_PENDING \<and>
       intent_core i = request_core q \<and>
       (\<exists>j. mem_contents m' = mem_contents m @ [j] \<and> Id j = Id i \<and> Status j = INTENT_STATUS_PENDING \<and>
            (known_type (si_Type q) \<longrightarrow> intent_core j = request_core q))" by auto
next
  fix e m q x m' assume "Create memory_store e m q = (Inl x, m')"
  then show "mem_inv m' \<and> (mem_contents m' = mem_contents m \<or>
      (\<exists>j. mem_contents m' = mem_contents m @ [j] \<and> Status j = INTENT_STATUS_PENDING \<and>
        (known_type (si_Type q) \<longrightarrow> intent_core j = request_core q)))"
    by (simp add: memory_store_def mem_Create_def Let_def)
next
  fix m assume "mem_inv m"
  then show "distinct (map Id (mem_contents m))" by (simp add: mem_ids mem_inv_def)
next
  fix m e iid i assume "mem_inv m" "Get memory_store e m iid = Inr i"
  then show "i \<in> set (mem_contents m)"
    by (auto simp: memory_store_def mem_Get_def mem_contents_iff mem_inv_def split: option.splits)
next
  fix m e i assume "mem_inv m" "i \<in> set (mem_contents m)"
  then show "Get memory_store e m (Id i) = Inr i"
    by (simp add: memory_store_def mem_Get_def mem_contents_iff)
next
  fix m e sf uf n tok xs nxt cnt
  assume a: "mem_inv m" "List memory_store e m sf uf n tok = Inr (xs, nxt, cnt)"
  let ?L = "filter (intent_matches sf uf) (mem_contents m)"
  obtain k where xs: "xs = take (nat (page_limit n)) (drop k ?L)" "cnt = int (length ?L)"
    using a by (auto simp: memory_store_def mem_List_eq Let_def)
  have "distinct (map Id ?L)" using a(1) mem_ids [OF a(1)] by (metis distinct_map_filter mem_inv_def)
  then have "distinct (map Id xs)" unfolding xs by (simp flip: take_map drop_map)
  moreover have "set xs \<subseteq> set ?L" unfolding xs by (metis set_drop_subset set_take_subset subset_trans)
  ultimately show "set xs \<subseteq> set ?L \<and> distinct (map Id xs) \<and> int (length xs) \<le> page_limit n \<and>
      cnt = int (length ?L)" using xs by (auto simp: page_limit_def min_def)
qed

section \<open>Following the page tokens\<close>

text \<open>A client that asks for pages until the token is empty, making at most \<open>k\<close> calls.\<close>

fun walk_pages ::
  "nat \<Rightarrow> ('e, 's) Store \<Rightarrow> 'e \<Rightarrow> 's \<Rightarrow> IntentStatus \<Rightarrow> string \<Rightarrow> int \<Rightarrow> string \<Rightarrow> Intent list option" where
  "walk_pages 0 S e s sf uf n tok = None"
| "walk_pages (Suc k) S e s sf uf n tok =
     (case List S e s sf uf n tok of
        Inl _ \<Rightarrow> None
      | Inr (xs, nxt, _) \<Rightarrow>
          if nxt = '''' then Some xs
          else map_option (\<lambda>ys. xs @ ys) (walk_pages k S e s sf uf n nxt))"

lemma int_dec_of_nat [simp]: "int_dec (int k) = nat_dec k"
  by (simp add: int_dec_def)

lemma walk_mem_from:
  assumes "mem_inv m" "L = filter (intent_matches sf uf) (mem_contents m)" "int (length L) < 2 ^ 63"
    and "j < length L" "length L - j < fuel" "tok = (if j = 0 then '''' else nat_dec j)"
  shows "walk_pages fuel memory_store e m sf uf n tok = Some (drop j L)"
  using assms(4-6)
proof (induction fuel arbitrary: j tok)
  case (Suc fuel)
  let ?p = "nat (page_limit n)"
  let ?xs = "take ?p (drop j L)"
  have p: "0 < ?p" by (simp add: page_limit_def)
  have start: "(if tok = '''' then 0 else case Sscanf_d tok of None \<Rightarrow> 0 | Some i \<Rightarrow> i) = int j"
    using Suc.prems assms(3) by simp
  have page: "List memory_store e m sf uf n tok =
      Inr (?xs, if int j + int (length ?xs) < int (length L) then int_dec (int j + int (length ?xs)) else '''',
           int (length L))"
    unfolding memory_store_def using mem_List_eq [OF assms(1), of e sf uf n tok]
    unfolding start Let_def assms(2) [symmetric] nat_int Store.simps .
  show ?case
  proof (cases "j + length ?xs < length L")
    case True
    let ?j = "j + length ?xs"
    have len: "length ?xs = ?p" using True by (simp add: min_def split: if_splits)
    have tok': "int_dec (int j + int (length ?xs)) = nat_dec ?j"
      by (metis int_dec_of_nat of_nat_add)
    have j0: "?j \<noteq> 0" using len p by simp
    have rec: "walk_pages fuel memory_store e m sf uf n (nat_dec ?j) = Some (drop ?j L)"
      by (rule Suc.IH) (use True Suc.prems len p j0 in auto)
    have "drop j L = ?xs @ drop ?j L" using len
      by (metis add.commute append_take_drop_id drop_drop)
    with page True rec tok' show ?thesis by simp
  next
    case False
    then have "length ?xs = length (drop j L)" by simp
    then have "?xs = drop j L" by (metis le_refl take_all length_take min.absorb_iff2 take_all_iff nat_le_linear)
    with page False show ?thesis by simp
  qed
qed simp

text \<open>
  C20. Pagination of the memory store is complete: with no writes in between, a client that follows
  the page tokens from the empty one receives exactly the matching intents, each once and in the
  order of their creation, whatever the page size; one call more than there are matches is enough.
\<close>

theorem memory_pages_complete:
  assumes "mem_inv m" "int (length (ordered m)) < 2 ^ 63"
    and "length (filter (intent_matches sf uf) (mem_contents m)) < fuel"
  shows "walk_pages fuel memory_store e m sf uf n '''' =
         Some (filter (intent_matches sf uf) (mem_contents m))"
proof -
  let ?L = "filter (intent_matches sf uf) (mem_contents m)"
  have len: "int (length ?L) < 2 ^ 63"
  proof -
    have "length (mem_contents m) = length (ordered m)" by (simp add: mem_contents_def)
    then have "length ?L \<le> length (ordered m)"
      using length_filter_le [of "intent_matches sf uf" "mem_contents m"] by simp
    with assms(2) show ?thesis by linarith
  qed
  show ?thesis
  proof (cases "?L = []")
    case True
    obtain k where "fuel = Suc k" using assms(3) by (cases fuel) auto
    with True show ?thesis
      by (simp add: memory_store_def mem_List_eq [OF assms(1)] Let_def)
  next
    case False
    then show ?thesis using walk_mem_from [OF assms(1) refl len, of 0 fuel "''''" e n] assms(3) by simp
  qed
qed

definition sample_request :: "SubmitIntentRequest" where
  "sample_request = \<lparr>si_Type = INTENT_TYPE_TRANSFER, si_Payload = ''p'', si_Constraints = None,
     si_SubmitterId = ''alice'', si_Signature = ''s'', si_SubmitterPublicKey = ''k''\<rparr>"

definition two_intents :: "MemoryStore" where
  "two_intents = snd (mem_Create \<lparr>mem_now = 2, mem_id = ''b''\<rparr>
     (snd (mem_Create \<lparr>mem_now = 1, mem_id = ''a''\<rparr> NewMemoryStore sample_request)) sample_request)"

lemma memory_pages_complete_witness:
  "mem_inv two_intents \<and> length (mem_contents two_intents) = 2 \<and>
   walk_pages 3 memory_store \<lparr>mem_now = 0, mem_id = ''''\<rparr> two_intents INTENT_STATUS_PENDING ''alice'' 1 '''' =
     Some (mem_contents two_intents)"
proof -
  have inv: "mem_inv two_intents"
    by (auto simp: two_intents_def mem_inv_def mem_Create_def NewMemoryStore_def Let_def split: if_splits)
  have all: "filter (intent_matches INTENT_STATUS_PENDING ''alice'') (mem_contents two_intents) = mem_contents two_intents"
    and len: "length (mem_contents two_intents) = 2"
    by (simp_all add: two_intents_def mem_contents_def mem_Create_def NewMemoryStore_def
        intent_matches_def sample_request_def Let_def)
  have ord: "int (length (ordered two_intents)) < 2 ^ 63"
    by (simp add: two_intents_def mem_Create_def NewMemoryStore_def Let_def)
  show ?thesis
    using memory_pages_complete [OF inv ord, of INTENT_STATUS_PENDING "''alice''" 3] inv all len by simp
qed

end
