(* ===== verification/Crypto.thy ===== *)
theory Crypto imports IntentTypes begin

text \<open>
  \<open>encoding/hex\<close> and the package \<open>shared/crypto\<close>.  The Ed25519 primitives are a record of
  functions, a parameter of the model; what the code relies on is \<open>ed25519_ok\<close>: sizes of keys and
  signatures, and that a signature made with a generated private key verifies under its public key.
\<close>

section \<open>Hexadecimal\<close>

definition hex_digit :: "nat \<Rightarrow> char" where
  "hex_digit n = (if n < 10 then char_of (48 + n) else char_of (87 + n))"

definition EncodeToString :: "bytes \<Rightarrow> string" where
  "EncodeToString bs =
     concat (map (\<lambda>b. [hex_digit (of_char b div 16), hex_digit (of_char b mod 16)]) bs)"

text \<open>Both cases of a letter are digits for the decoder.\<close>

definition hex_value :: "char \<Rightarrow> nat option" where
  "hex_value c =
     (let n = of_char c :: nat
      in if 48 \<le> n \<and> n \<le> 57 then Some (n - 48)
         else if 97 \<le> n \<and> n \<le> 102 then Some (n - 87)
         else if 65 \<le> n \<and> n \<le> 70 then Some (n - 55)
         else None)"

fun DecodeString :: "string \<Rightarrow> bytes option" where
  "DecodeString [] = Some []"
| "DecodeString [_] = None"
| "DecodeString (a # b # s) =
     (case (hex_value a, hex_value b) of
        (Some x, Some y) \<Rightarrow> map_option (\<lambda>r. char_of (16 * x + y) # r) (DecodeString s)
      | _ \<Rightarrow> None)"

lemma hex_value_digit [simp]: "n < 16 \<Longrightarrow> hex_value (hex_digit n) = Some n"
  by (auto simp: hex_value_def hex_digit_def Let_def)

lemma Decode_Encode [simp]: "DecodeString (EncodeToString bs) = Some bs"
proof (induction bs)
  case (Cons b bs)
  have "(of_char b :: nat) < 256" by simp
  then have "(of_char b :: nat) div 16 < 16" by (intro less_mult_imp_div_less) simp
  then show ?case using Cons by (simp add: EncodeToString_def)
qed (simp add: EncodeToString_def)

lemma length_Encode [simp]: "length (EncodeToString bs) = 2 * length bs"
  by (induction bs) (simp_all add: EncodeToString_def)

lemma Encode_inj [simp]: "EncodeToString a = EncodeToString b \<longleftrightarrow> a = b"
  by (metis Decode_Encode option.inject)

lemma Encode_Cons [simp]:
  "EncodeToString (b # bs) = hex_digit (of_char b div 16) # hex_digit (of_char b mod 16) # EncodeToString bs"
  "EncodeToString [] = []"
  by (simp_all add: EncodeToString_def)

text \<open>ASCII upper case; the decoder does not tell a digit from its upper case\<close>

definition upper_char :: "char \<Rightarrow> char" where
  "upper_char c = (let n = of_char c :: nat in if 97 \<le> n \<and> n \<le> 122 then char_of (n - 32) else c)"

lemma hex_value_upper [simp]: "hex_value c \<noteq> None \<Longrightarrow> hex_value (upper_char c) = hex_value c"
  by (auto simp: hex_value_def upper_char_def Let_def split: if_splits)

lemma Decode_upper: "DecodeString s = Some bs \<Longrightarrow> DecodeString (map upper_char s) = Some bs"
proof (induction s arbitrary: bs rule: DecodeString.induct)
  case (3 a b s)
  then obtain x y r where xy: "hex_value a = Some x" "hex_value b = Some y" "DecodeString s = Some r"
    "bs = char_of (16 * x + y) # r" by (auto split: option.splits)
  with 3(1) [OF refl xy(1,2) xy(3)] show ?case by simp
qed simp_all

section \<open>Signatures\<close>

record ed25519 =
  ed_keys :: "bytes \<Rightarrow> bytes \<times> bytes"
  ed_sign :: "bytes \<Rightarrow> bytes \<Rightarrow> bytes"
  ed_verify :: "bytes \<Rightarrow> bytes \<Rightarrow> bytes \<Rightarrow> bool"

definition ed25519_ok :: "ed25519 \<Rightarrow> bool" where
  "ed25519_ok ed \<longleftrightarrow> (\<forall>seed. length seed = 32 \<longrightarrow>
     (case ed_keys ed seed of (pub, priv) \<Rightarrow>
        length pub = 32 \<and> length priv = 64 \<and>
        (\<forall>m. length (ed_sign ed priv m) = 64 \<and> ed_verify ed pub m (ed_sign ed priv m))))"

datatype crypto_error = RandomFailed | KeyNotHex | KeySize nat | SignatureNotHex | SignatureSize nat

text \<open>\<open>GenerateKeyPair\<close>: 32 bytes from the random source, or its failure\<close>

definition GenerateKeyPair :: "ed25519 \<Rightarrow> bytes option \<Rightarrow> crypto_error + string \<times> string" where
  "GenerateKeyPair ed random =
     (case random of
        None \<Rightarrow> Inl RandomFailed
      | Some seed \<Rightarrow>
          (case ed_keys ed seed of (pub, priv) \<Rightarrow> Inr (EncodeToString pub, EncodeToString priv)))"

definition Sign :: "ed25519 \<Rightarrow> bytes \<Rightarrow> string \<Rightarrow> crypto_error + string" where
  "Sign ed payload privateKeyHex =
     (case DecodeString privateKeyHex of
        None \<Rightarrow> Inl KeyNotHex
      | Some priv \<Rightarrow>
          if length priv \<noteq> 64 then Inl (KeySize (length priv))
          else Inr (EncodeToString (ed_sign ed priv payload)))"

definition Verify :: "ed25519 \<Rightarrow> bytes \<Rightarrow> string \<Rightarrow> string \<Rightarrow> crypto_error + bool" where
  "Verify ed payload signatureHex publicKeyHex =
     (case DecodeString publicKeyHex of
        None \<Rightarrow> Inl KeyNotHex
      | Some pub \<Rightarrow>
          if length pub \<noteq> 32 then Inl (KeySize (length pub))
          else case DecodeString signatureHex of
                 None \<Rightarrow> Inl SignatureNotHex
               | Some sig \<Rightarrow>
                   if length sig \<noteq> 64 then Inl (SignatureSize (length sig))
                   else Inr (ed_verify ed pub payload sig))"

definition GetSignBytes :: "string \<Rightarrow> string \<Rightarrow> bytes \<Rightarrow> bytes" where
  "GetSignBytes typeStr submitterId payload = typeStr @ ''|'' @ submitterId @ ''|'' @ payload"

text \<open>
  Signing and verification fit together: a signature made with a generated private key is
  accepted under the generated public key for the same bytes, also when the hexadecimal text of
  either has been turned into upper case.
\<close>

theorem sign_then_verify:
  assumes "ed25519_ok ed" "length seed = 32"
    and "GenerateKeyPair ed (Some seed) = Inr (pubHex, privHex)"
  shows "\<exists>sig. Sign ed payload privHex = Inr sig \<and> length sig = 128
           \<and> Verify ed payload sig pubHex = Inr True
           \<and> Verify ed payload (map upper_char sig) (map upper_char pubHex) = Inr True"
proof -
  obtain pub priv where keys: "ed_keys ed seed = (pub, priv)" by (cases "ed_keys ed seed")
  then have hex: "pubHex = EncodeToString pub" "privHex = EncodeToString priv"
    using assms(3) by (simp_all add: GenerateKeyPair_def)
  have ok: "length pub = 32" "length priv = 64" "length (ed_sign ed priv payload) = 64"
    "ed_verify ed pub payload (ed_sign ed priv payload)"
  proof -
    have "case ed_keys ed seed of (pub, priv) \<Rightarrow> length pub = 32 \<and> length priv = 64 \<and>
        (\<forall>m. length (ed_sign ed priv m) = 64 \<and> ed_verify ed pub m (ed_sign ed priv m))"
      by (rule assms(1) [unfolded ed25519_ok_def, rule_format, OF assms(2)])
    then show "length pub = 32" "length priv = 64" "length (ed_sign ed priv payload) = 64"
      "ed_verify ed pub payload (ed_sign ed priv payload)" unfolding keys by simp_all
  qed
  have up: "DecodeString (map upper_char (EncodeToString bs)) = Some bs" for bs
    by (rule Decode_upper) simp
  show ?thesis
    unfolding hex using ok by (simp add: Sign_def Verify_def up)
qed

lemma append_bar_eq:
  assumes "s @ CHR ''|'' # p = s' @ CHR ''|'' # p'" "CHR ''|'' \<notin> set s" "CHR ''|'' \<notin> set s'"
  shows "s = s' \<and> p = p'"
  using assms
proof (induction s arbitrary: s')
  case Nil
  then show ?case by (cases s') auto
next
  case (Cons c s)
  then show ?case by (cases s') auto
qed

text \<open>
  C39. The signed bytes determine the intent when the submitter identifier has no bar in it, and only
  then: otherwise the boundary between submitter and payload can be moved, and one signature covers
  two different intents.
\<close>

theorem sign_bytes_injective:
  "(CHR ''|'' \<notin> set (s @ s') \<and> GetSignBytes (IntentType_String t) s p = GetSignBytes (IntentType_String t') s' p'
      \<longrightarrow> IntentType_String t = IntentType_String t' \<and> s = s' \<and> p = p')
   \<and> GetSignBytes (IntentType_String t) (s @ ''|'' @ q) p = GetSignBytes (IntentType_String t) s (q @ ''|'' @ p)"
proof -
  have "CHR ''|'' \<notin> set (int_dec n)" for n
    using nat_dec_digits [of "CHR ''|''"] by (auto simp: int_dec_def is_digit_def)
  then have "CHR ''|'' \<notin> set (IntentType_String u)" for u by (cases u) simp_all
  then show ?thesis by (auto simp: GetSignBytes_def dest!: append_bar_eq)
qed

lemma sign_bytes_injective_witness:
  "CHR ''|'' \<notin> set (''alice'' @ ''bob'') \<and>
   GetSignBytes (IntentType_String INTENT_TYPE_TRANSFER) ''alice'' ''p'' \<noteq>
   GetSignBytes (IntentType_String INTENT_TYPE_TRANSFER) ''bob'' ''p''"
  using sign_bytes_injective [of "''alice''" "''bob''" INTENT_TYPE_TRANSFER "''p''" INTENT_TYPE_TRANSFER "''p''"]
  by auto

text \<open>A signature scheme for the instances: the key and the first bytes of the message\<close>

definition toy_ed :: "ed25519" where
  "toy_ed = \<lparr>ed_keys = (\<lambda>seed. (seed, seed @ seed)),
     ed_sign = (\<lambda>priv m. take 32 (m @ replicate 32 CHR ''0'') @ take 32 priv),
     ed_verify = (\<lambda>pub m sig. sig = take 32 (m @ replicate 32 CHR ''0'') @ pub)\<rparr>"

lemma toy_ed_ok: "ed25519_ok toy_ed"
  by (auto simp: ed25519_ok_def toy_ed_def min_def)

lemma sign_then_verify_witness:
  "\<exists>pub priv sig. GenerateKeyPair toy_ed (Some (replicate 32 CHR ''k'')) = Inr (pub, priv)
     \<and> Sign toy_ed ''message'' priv = Inr sig \<and> Verify toy_ed ''message'' sig pub = Inr True"
  using sign_then_verify [OF toy_ed_ok, of "replicate 32 CHR ''k''"]
  by (fastforce simp: GenerateKeyPair_def toy_ed_def)

end
