(* ===== verification/IntentPostgres.thy ===== *)
theory IntentPostgres imports IntentStore "HOL-Library.Multiset" begin

text \<open>
  The intents database: the two tables of \<open>intent-service/store/schema.sql\<close>, which the intent
  service, its outbox worker, the scheduler, the execution engine and the validator share, and the
  store \<open>intent-service/store/postgres.go\<close> over them.

  The parameters of the model are one record \<open>codecs\<close>: the protobuf codec of \<open>Intent\<close>, how
  PostgreSQL reads a UUID literal and rounds a time to the microseconds of a \<open>timestamptz\<close>, and
  the RFC 3339 text of a time in the session's zone.  The record \<open>pg_env\<close> is what a call meets:
  the clock, the identifiers drawn, which statement fails for a reason outside the tables, what
  becomes of the commit, and the order in which the planner delivers rows that \<open>ORDER BY\<close> does
  not tell apart.
\<close>

section \<open>Tables\<close>

record intent_row =
  row_id :: string
  row_type :: string
  row_status :: string
  row_submitter_id :: string
  row_payload :: bytes
  row_priority :: int
  row_max_retries :: int
  row_idempotent :: bool
  row_deadline :: "time option"
  row_signature :: string
  row_submitter_public_key :: string
  row_created_at :: time
  row_updated_at :: time

record outbox_row =
  ob_id :: string
  ob_topic :: string
  ob_payload :: bytes
  ob_status :: string
  ob_retry_count :: int
  ob_created_at :: time
  ob_updated_at :: time

record intent_db =
  intent_rows :: "intent_row list"
  outbox_rows :: "outbox_row list"

record codecs =
  marshal :: "Intent \<Rightarrow> bytes option"
  unmarshal :: "bytes \<Rightarrow> Intent option"
  uuid_in :: "string \<Rightarrow> string option"
  ts_round :: "time \<Rightarrow> time"
  fmt_time :: "time \<Rightarrow> string"
  parse_time :: "string \<Rightarrow> time option"

datatype pg_call = PgBegin | PgInsertIntent | PgInsertOutbox | PgCount | PgQuery | PgScan | PgRows

datatype pg_commit = PgCommitted | PgCommitRefused | PgCommitUnseen

record pg_env =
  pg_now :: time
  pg_id :: string
  pg_outbox_id :: string
  pg_fails :: "pg_call \<Rightarrow> bool"
  pg_commit :: pg_commit
  pg_order :: "intent_row list \<Rightarrow> intent_row list"

section \<open>Create\<close>

definition PENDING_name :: "string" where
  "PENDING_name = IntentStatus_String INTENT_STATUS_PENDING"

text \<open>The constraints as stored: the defaults when the request has none\<close>

definition stored_constraints :: "IntentConstraints option \<Rightarrow> time option \<times> int \<times> int \<times> bool" where
  "stored_constraints c =
     (case c of
        None \<Rightarrow> (None, 5, 3, False)
      | Some k \<Rightarrow>
          (case Deadline k of None \<Rightarrow> None | Some d \<Rightarrow> Some (AsTime (Some d)),
           Priority k, MaxRetries k, Idempotent k))"

text \<open>The statement \<open>INSERT INTO intents\<close>: the primary key must be new, times are rounded\<close>

definition insert_intent :: "codecs \<Rightarrow> intent_db \<Rightarrow> intent_row \<Rightarrow> intent_db option" where
  "insert_intent c db r =
     (case uuid_in c (row_id r) of
        None \<Rightarrow> None
      | Some u \<Rightarrow>
          if list_ex (\<lambda>x. row_id x = u) (intent_rows db) then None
          else Some (db\<lparr>intent_rows := intent_rows db @
            [r\<lparr>row_id := u, row_deadline := map_option (ts_round c) (row_deadline r),
              row_created_at := ts_round c (row_created_at r),
              row_updated_at := ts_round c (row_updated_at r)\<rparr>]\<rparr>))"

definition insert_outbox :: "codecs \<Rightarrow> intent_db \<Rightarrow> outbox_row \<Rightarrow> intent_db option" where
  "insert_outbox c db r =
     (case uuid_in c (ob_id r) of
        None \<Rightarrow> None
      | Some u \<Rightarrow>
          if list_ex (\<lambda>x. ob_id x = u) (outbox_rows db) then None
          else Some (db\<lparr>outbox_rows := outbox_rows db @
            [r\<lparr>ob_id := u, ob_created_at := ts_round c (ob_created_at r),
              ob_updated_at := ts_round c (ob_updated_at r)\<rparr>]\<rparr>))"

text \<open>The intent that is returned and whose encoding goes to the outbox\<close>

definition created_intent :: "pg_env \<Rightarrow> SubmitIntentRequest \<Rightarrow> Intent" where
  "created_intent e req =
     (let (deadline, priority, maxRetries, idempotent) = stored_constraints (si_Constraints req);
          now = Some (timestamp_New (pg_now e))
      in \<lparr>Id = pg_id e, Type = si_Type req, Status = INTENT_STATUS_PENDING,
          SubmitterId = si_SubmitterId req, Payload = si_Payload req,
          Constraints = Some \<lparr>Deadline = map_option timestamp_New deadline, Priority = priority,
             MaxRetries = maxRetries, Idempotent = idempotent\<rparr>,
          Signature = si_Signature req, SubmitterPublicKey = si_SubmitterPublicKey req,
          CreatedAt = now, UpdatedAt = now\<rparr>)"

text \<open>The arguments of the two \<open>INSERT\<close> statements\<close>

definition new_row :: "pg_env \<Rightarrow> SubmitIntentRequest \<Rightarrow> intent_row" where
  "new_row e req =
     (let (deadline, priority, maxRetries, idempotent) = stored_constraints (si_Constraints req)
      in \<lparr>row_id = pg_id e, row_type = IntentType_String (si_Type req), row_status = PENDING_name,
          row_submitter_id = si_SubmitterId req, row_payload = si_Payload req, row_priority = priority,
          row_max_retries = maxRetries, row_idempotent = idempotent, row_deadline = deadline,
          row_signature = si_Signature req, row_submitter_public_key = si_SubmitterPublicKey req,
          row_created_at = pg_now e, row_updated_at = pg_now e\<rparr>)"

definition new_event :: "pg_env \<Rightarrow> SubmitIntentRequest \<Rightarrow> bytes \<Rightarrow> outbox_row" where
  "new_event e req eventData =
     \<lparr>ob_id = pg_outbox_id e, ob_topic = ''intents.submitted.'' @ IntentType_String (si_Type req),
      ob_payload = eventData, ob_status = ''PENDING'', ob_retry_count = 0,
      ob_created_at = pg_now e, ob_updated_at = pg_now e\<rparr>"

definition create_body ::
  "codecs \<Rightarrow> pg_env \<Rightarrow> intent_db \<Rightarrow> SubmitIntentRequest \<Rightarrow> store_error + Intent \<times> intent_db" where
  "create_body c e db req =
     (if pg_fails e PgBegin then Inl BeginFailed
      else if pg_fails e PgInsertIntent then Inl InsertIntentFailed
      else case insert_intent c db (new_row e req) of
             None \<Rightarrow> Inl InsertIntentFailed
           | Some db1 \<Rightarrow>
      let intent = created_intent e req
      in case marshal c intent of
           None \<Rightarrow> Inl MarshalFailed
         | Some eventData \<Rightarrow>
      if pg_fails e PgInsertOutbox then Inl InsertOutboxFailed
      else case insert_outbox c db1 (new_event e req eventData) of
             None \<Rightarrow> Inl InsertOutboxFailed
           | Some db2 \<Rightarrow> Inr (intent, db2))"

definition pg_Create ::
  "codecs \<Rightarrow> pg_env \<Rightarrow> intent_db \<Rightarrow> SubmitIntentRequest \<Rightarrow> (store_error + Intent) \<times> intent_db" where
  "pg_Create c e db req =
     (case create_body c e db req of
        Inl x \<Rightarrow> (Inl x, db)
      | Inr (intent, db') \<Rightarrow>
          (case pg_commit e of
             PgCommitted \<Rightarrow> (Inr intent, db')
           | PgCommitRefused \<Rightarrow> (Inl CommitFailed, db)
           | PgCommitUnseen \<Rightarrow> (Inl CommitFailed, db')))"

section \<open>Get and List\<close>

definition parseIntentType :: "string \<Rightarrow> IntentType" where
  "parseIntentType s =
     (if s = ''INTENT_TYPE_TRANSFER'' then INTENT_TYPE_TRANSFER
      else if s = ''INTENT_TYPE_COMPUTE'' then INTENT_TYPE_COMPUTE
      else if s = ''INTENT_TYPE_QUERY'' then INTENT_TYPE_QUERY
      else if s = ''INTENT_TYPE_SCHEDULED'' then INTENT_TYPE_SCHEDULED
      else INTENT_TYPE_UNSPECIFIED)"

definition parseIntentStatus :: "string \<Rightarrow> IntentStatus" where
  "parseIntentStatus s =
     (if s = ''INTENT_STATUS_PENDING'' then INTENT_STATUS_PENDING
      else if s = ''INTENT_STATUS_VALIDATED'' then INTENT_STATUS_VALIDATED
      else if s = ''INTENT_STATUS_SCHEDULED'' then INTENT_STATUS_SCHEDULED
      else if s = ''INTENT_STATUS_EXECUTING'' then INTENT_STATUS_EXECUTING
      else if s = ''INTENT_STATUS_COMPLETED'' then INTENT_STATUS_COMPLETED
      else if s = ''INTENT_STATUS_FAILED'' then INTENT_STATUS_FAILED
      else if s = ''INTENT_STATUS_REJECTED'' then INTENT_STATUS_REJECTED
      else if s = ''INTENT_STATUS_CANCELLED'' then INTENT_STATUS_CANCELLED
      else INTENT_STATUS_UNSPECIFIED)"

text \<open>The scan of a row into an intent, the same in \<open>Get\<close> and \<open>List\<close>\<close>

definition row_intent :: "intent_row \<Rightarrow> Intent" where
  "row_intent r =
     \<lparr>Id = row_id r, Type = parseIntentType (row_type r), Status = parseIntentStatus (row_status r),
      SubmitterId = row_submitter_id r, Payload = row_payload r,
      Constraints = Some \<lparr>Deadline = map_option timestamp_New (row_deadline r), Priority = row_priority r,
        MaxRetries = row_max_retries r, Idempotent = row_idempotent r\<rparr>,
      Signature = row_signature r, SubmitterPublicKey = row_submitter_public_key r,
      CreatedAt = Some (timestamp_New (row_created_at r)),
      UpdatedAt = Some (timestamp_New (row_updated_at r))\<rparr>"

definition pg_Get :: "codecs \<Rightarrow> pg_env \<Rightarrow> intent_db \<Rightarrow> string \<Rightarrow> store_error + Intent" where
  "pg_Get c e db iid =
     (if pg_fails e PgQuery then Inl ScanFailed
      else case uuid_in c iid of
             None \<Rightarrow> Inl ScanFailed
           | Some u \<Rightarrow>
      case List.find (\<lambda>r. row_id r = u) (intent_rows db) of
        None \<Rightarrow> Inl (IntentNotFound iid)
      | Some r \<Rightarrow> if pg_fails e PgScan then Inl ScanFailed else Inr (row_intent r))"

text \<open>The zero \<open>time.Time\<close>, the first of January of the year one\<close>

definition zero_time :: "time" where
  "zero_time = - 62135596800 * second"

text \<open>The \<open>WHERE\<close> clause that both queries of \<open>List\<close> build\<close>

definition row_matches :: "IntentStatus \<Rightarrow> string \<Rightarrow> intent_row \<Rightarrow> bool" where
  "row_matches statusFilter submitterFilter r \<longleftrightarrow>
     (statusFilter \<noteq> INTENT_STATUS_UNSPECIFIED \<longrightarrow> row_status r = IntentStatus_String statusFilter) \<and>
     (submitterFilter \<noteq> '''' \<longrightarrow> row_submitter_id r = submitterFilter)"

text \<open>The cursor of a page token: no filter without a token or with one that does not parse\<close>

definition cursor :: "codecs \<Rightarrow> string \<Rightarrow> intent_row \<Rightarrow> bool" where
  "cursor c pageToken r =
     (if pageToken = '''' then True
      else case parse_time c pageToken of
             None \<Rightarrow> True
           | Some t \<Rightarrow> row_created_at r < ts_round c t)"

text \<open>The planner delivers the selected rows in an order of its own before they are sorted.\<close>

definition planner_order :: "pg_env \<Rightarrow> intent_row list \<Rightarrow> intent_row list" where
  "planner_order e rows = (if mset (pg_order e rows) = mset rows then pg_order e rows else rows)"

definition page_rows ::
  "codecs \<Rightarrow> pg_env \<Rightarrow> intent_db \<Rightarrow> IntentStatus \<Rightarrow> string \<Rightarrow> int \<Rightarrow> string \<Rightarrow> intent_row list" where
  "page_rows c e db sf uf pageSize pageToken =
     take (nat pageSize)
       (sort_key (\<lambda>r. - row_created_at r)
          (planner_order e (filter (\<lambda>r. row_matches sf uf r \<and> cursor c pageToken r) (intent_rows db))))"

definition pg_List ::
  "codecs \<Rightarrow> pg_env \<Rightarrow> intent_db \<Rightarrow> IntentStatus \<Rightarrow> string \<Rightarrow> int \<Rightarrow> string
   \<Rightarrow> store_error + Intent list \<times> string \<times> int" where
  "pg_List c e db sf uf pageSize pageToken =
     (let pageSize = page_limit pageSize
      in if pg_fails e PgCount then Inl CountFailed
      else let totalCount = int (length (filter (row_matches sf uf) (intent_rows db)))
      in if pg_fails e PgQuery then Inl QueryFailed
      else let rows = page_rows c e db sf uf pageSize pageToken
      in if rows \<noteq> [] \<and> pg_fails e PgScan then Inl ScanFailed
      else if pg_fails e PgRows then Inl RowsFailed
      else let lastCreatedAt = (if rows = [] then zero_time else row_created_at (last rows))
      in Inr (map row_intent rows,
              if int (length rows) = pageSize \<and> lastCreatedAt \<noteq> zero_time
              then fmt_time c lastCreatedAt else '''',
              totalCount))"

definition postgres_store :: "codecs \<Rightarrow> (pg_env, intent_db) Store" where
  "postgres_store c = \<lparr>Create = pg_Create c, Get = pg_Get c, List = pg_List c\<rparr>"

end
