(* ===== verification/PostgresProps.thy ===== *)
theory PostgresProps imports IntentPostgres MemoryProps begin

text \<open>
  The PostgreSQL store keeps the same contract as \<open>MemoryStore\<close>, writes the intent and its outbox
  event together, and its keyset pagination is complete exactly as long as no two matching intents
  were created in the same microsecond.
\<close>

section \<open>The invariant of the tables\<close>

definition status_names :: "string list" where
  "status_names = map IntentStatus_String
     [INTENT_STATUS_PENDING, INTENT_STATUS_VALIDATED, INTENT_STATUS_SCHEDULED, INTENT_STATUS_EXECUTING,
      INTENT_STATUS_COMPLETED, INTENT_STATUS_FAILED, INTENT_STATUS_REJECTED, INTENT_STATUS_CANCELLED]"

definition pg_inv :: "codecs \<Rightarrow> intent_db \<Rightarrow> bool" where
  "pg_inv c db \<longleftrightarrow> distinct (map row_id (intent_rows db)) \<and>
     (\<forall>r \<in> set (intent_rows db). uuid_in c (row_id r) = Some (row_id r) \<and> row_status r \<in> set status_names)"

definition pg_contents :: "intent_db \<Rightarrow> Intent list" where
  "pg_contents db = map row_intent (intent_rows db)"

definition pg_fresh :: "codecs \<Rightarrow> pg_env \<Rightarrow> intent_db \<Rightarrow> bool" where
  "pg_fresh c e db \<longleftrightarrow> uuid_in c (pg_id e) = Some (pg_id e) \<and> pg_id e \<notin> row_id ` set (intent_rows db)"

definition pg_up :: "pg_env \<Rightarrow> bool" where
  "pg_up e \<longleftrightarrow> (\<forall>x. \<not> pg_fails e x)"

lemma parse_String_type [simp]: "known_type t \<Longrightarrow> parseIntentType (IntentType_String t) = t"
  by (cases t) (simp_all add: parseIntentType_def known_type_def)

lemma parse_String_status [simp]: "known_status s \<Longrightarrow> parseIntentStatus (IntentStatus_String s) = s"
  by (cases s) (simp_all add: parseIntentStatus_def known_status_def)

lemma parse_status_eq:
  assumes "n \<in> set status_names" "s \<noteq> INTENT_STATUS_UNSPECIFIED"
  shows "parseIntentStatus n = s \<longleftrightarrow> n = IntentStatus_String s"
  using assms by (cases s) (auto simp: status_names_def parseIntentStatus_def)

lemma row_intent_simps [simp]:
  "Id (row_intent r) = row_id r"
  "Status (row_intent r) = parseIntentStatus (row_status r)"
  "SubmitterId (row_intent r) = row_submitter_id r"
  by (simp_all add: row_intent_def)

lemma row_matches_intent:
  "row_status r \<in> set status_names \<Longrightarrow> intent_matches sf uf (row_intent r) \<longleftrightarrow> row_matches sf uf r"
  using parse_status_eq [of "row_status r" sf]
  by (cases "sf = INTENT_STATUS_UNSPECIFIED") (simp_all add: intent_matches_def row_matches_def disj_imp)

lemma pg_matches_filter:
  "pg_inv c db \<Longrightarrow> filter (intent_matches sf uf) (pg_contents db) =
     map row_intent (filter (row_matches sf uf) (intent_rows db))"
  by (auto simp: pg_contents_def pg_inv_def filter_map row_matches_intent intro!: arg_cong [of _ _ "map row_intent"] filter_cong)

section \<open>Create\<close>

text \<open>What a successful body of \<open>Create\<close> has written: one row and one outbox event.\<close>

lemma new_row_simps [simp]:
  "row_id (new_row e req) = pg_id e"
  "row_type (new_row e req) = IntentType_String (si_Type req)"
  "row_status (new_row e req) = PENDING_name"
  "row_submitter_id (new_row e req) = si_SubmitterId req"
  "row_payload (new_row e req) = si_Payload req"
  "row_signature (new_row e req) = si_Signature req"
  "row_submitter_public_key (new_row e req) = si_SubmitterPublicKey req"
  "row_deadline (new_row e req) = fst (stored_constraints (si_Constraints req))"
  "row_created_at (new_row e req) = pg_now e"
  by (simp_all add: new_row_def Let_def split: prod.splits)

lemma create_bodyD:
  assumes "create_body c e db req = Inr (i, db')"
  obtains u v ev where
    "i = created_intent e req" "marshal c i = Some ev"
    "uuid_in c (pg_id e) = Some u" "uuid_in c (pg_outbox_id e) = Some v"
    "\<forall>x \<in> set (intent_rows db). row_id x \<noteq> u" "\<forall>x \<in> set (outbox_rows db). ob_id x \<noteq> v"
    "intent_rows db' = intent_rows db @
       [(new_row e req)\<lparr>row_id := u, row_deadline := map_option (ts_round c) (row_deadline (new_row e req)),
          row_created_at := ts_round c (pg_now e), row_updated_at := ts_round c (pg_now e)\<rparr>]"
    "outbox_rows db' = outbox_rows db @
       [\<lparr>ob_id = v, ob_topic = ''intents.submitted.'' @ IntentType_String (si_Type req), ob_payload = ev,
         ob_status = ''PENDING'', ob_retry_count = 0,
         ob_created_at = ts_round c (pg_now e), ob_updated_at = ts_round c (pg_now e)\<rparr>]"
proof -
  have "row_updated_at (new_row e req) = pg_now e" by (simp add: new_row_def Let_def split: prod.splits)
  with assms that show ?thesis
    by (auto simp: create_body_def insert_intent_def insert_outbox_def new_event_def Let_def list_ex_iff
      split: if_splits option.splits)
qed

lemma pg_CreateD:
  assumes "pg_Create c e db req = (Inr i, db')"
  shows "create_body c e db req = Inr (i, db')"
  using assms by (auto simp: pg_Create_def split: sum.splits prod.splits pg_commit.splits)

lemma pg_Create_errorD:
  assumes "pg_Create c e db req = (Inl x, db')"
  shows "db' = db \<or> pg_commit e = PgCommitUnseen \<and> (\<exists>i. create_body c e db req = Inr (i, db'))"
  using assms by (auto simp: pg_Create_def split: sum.splits prod.splits pg_commit.splits)

lemma PENDING_in [simp]: "PENDING_name \<in> set status_names"
  by (simp add: PENDING_name_def status_names_def)

lemma PENDING_parse [simp]: "parseIntentStatus PENDING_name = INTENT_STATUS_PENDING"
  by (simp add: PENDING_name_def parseIntentStatus_def)

lemma create_body_contents:
  assumes "pg_inv c db" "pg_fresh c e db" "create_body c e db req = Inr (i, db')"
  shows "pg_inv c db' \<and> Id i = pg_id e \<and> Status i = INTENT_STATUS_PENDING \<and> intent_core i = request_core req \<and>
    (\<exists>j. pg_contents db' = pg_contents db @ [j] \<and> Id j = Id i \<and> Status j = INTENT_STATUS_PENDING \<and>
         (known_type (si_Type req) \<longrightarrow> intent_core j = request_core req))"
  using assms(3)
proof (rule create_bodyD)
  fix u v ev
  assume i: "i = created_intent e req" and u: "uuid_in c (pg_id e) = Some u"
    "\<forall>x \<in> set (intent_rows db). row_id x \<noteq> u"
    and rows: "intent_rows db' = intent_rows db @
       [(new_row e req)\<lparr>row_id := u, row_deadline := map_option (ts_round c) (row_deadline (new_row e req)),
          row_created_at := ts_round c (pg_now e), row_updated_at := ts_round c (pg_now e)\<rparr>]"
      (is "_ = _ @ [?r]")
  have u': "u = pg_id e" using u assms(2) by (simp add: pg_fresh_def)
  then have "pg_inv c db'" using assms(1) u rows by (auto simp: pg_inv_def)
  moreover have "Id i = pg_id e" "Status i = INTENT_STATUS_PENDING" "intent_core i = request_core req"
    by (simp_all add: i created_intent_def intent_core_def request_core_def Let_def split: prod.splits)
  moreover have "pg_contents db' = pg_contents db @ [row_intent ?r]" by (simp add: pg_contents_def rows)
  moreover have "known_type (si_Type req) \<Longrightarrow> intent_core (row_intent ?r) = request_core req"
    by (simp add: intent_core_def request_core_def row_intent_def)
  ultimately show ?thesis using u' by auto
qed

section \<open>Get and List\<close>

lemma find_row:
  assumes "distinct (map row_id rs)"
  shows "List.find (\<lambda>r. row_id r = u) rs = Some r \<longleftrightarrow> r \<in> set rs \<and> row_id r = u"
  using assms by (induction rs) auto

lemma pg_Get_iff:
  assumes "pg_inv c db" "pg_Get c e db iid = Inr i"
  obtains r where "r \<in> set (intent_rows db)" "uuid_in c iid = Some (row_id r)" "i = row_intent r"
  using assms by (auto simp: pg_Get_def pg_inv_def find_row split: if_splits option.splits)

lemma pg_contents_ids: "map Id (pg_contents db) = map row_id (intent_rows db)"
  by (simp add: pg_contents_def comp_def)

lemma mset_page_source [simp]: "mset (planner_order e rs) = mset rs"
  by (simp add: planner_order_def)

lemma page_rows_facts:
  assumes "pg_inv c db"
  shows "set (page_rows c e db sf uf n tok) \<subseteq> set (filter (row_matches sf uf) (intent_rows db))"
    and "distinct (map row_id (page_rows c e db sf uf n tok))"
proof -
  let ?F = "filter (\<lambda>r. row_matches sf uf r \<and> cursor c tok r) (intent_rows db)"
  let ?S = "sort_key (\<lambda>r. - row_created_at r) (planner_order e ?F)"
  have ms: "mset ?S = mset ?F" by simp
  then have "set ?S = set ?F" by (rule mset_eq_setD)
  then show "set (page_rows c e db sf uf n tok) \<subseteq> set (filter (row_matches sf uf) (intent_rows db))"
    unfolding page_rows_def using set_take_subset [of "nat n" ?S] by auto
  have "distinct (map row_id ?F)" using assms by (auto simp: pg_inv_def distinct_map_filter)
  moreover have "mset (map row_id ?S) = mset (map row_id ?F)" by simp
  ultimately have "distinct (map row_id ?S)" using mset_eq_imp_distinct_iff by blast
  then show "distinct (map row_id (page_rows c e db sf uf n tok))"
    unfolding page_rows_def by (simp flip: take_map)
qed

interpretation pg: intent_store "postgres_store c" "pg_inv c" pg_contents "pg_fresh c" "\<lambda>e _. pg_up e"
proof unfold_locales
  fix db e q i db'
  assume a: "pg_inv c db" "pg_fresh c e db" "Create (postgres_store c) e db q = (Inr i, db')"
  then have "create_body c e db q = Inr (i, db')" by (simp add: postgres_store_def pg_CreateD)
  from create_body_contents [OF a(1,2) this]
  show "pg_inv c db' \<and> Id i \<notin> Id ` set (pg_contents db) \<and> Status i = INTENT_STATUS_PENDING \<and>
       intent_core i = request_core q \<and>
       (\<exists>j. pg_contents db' = pg_contents db @ [j] \<and> Id j = Id i \<and> Status j = INTENT_STATUS_PENDING \<and>
            (known_type (si_Type q) \<longrightarrow> intent_core j = request_core q))"
    using a(2) pg_contents_ids [of db] by (auto simp: pg_fresh_def pg_contents_def)
next
  fix db e q x db'
  assume a: "pg_inv c db" "pg_fresh c e db" "Create (postgres_store c) e db q = (Inl x, db')"
  then have "pg_Create c e db q = (Inl x, db')" by (simp add: postgres_store_def)
  from pg_Create_errorD [OF this] show "pg_inv c db' \<and> (pg_contents db' = pg_contents db \<or>
      (\<exists>j. pg_contents db' = pg_contents db @ [j] \<and> Status j = INTENT_STATUS_PENDING \<and>
        (known_type (si_Type q) \<longrightarrow> intent_core j = request_core q)))"
    using create_body_contents [OF a(1,2)] a(1) by blast
next
  fix db assume "pg_inv c db"
  then show "distinct (map Id (pg_contents db))" by (simp add: pg_contents_ids pg_inv_def)
next
  fix db e iid i assume "pg_inv c db" "Get (postgres_store c) e db iid = Inr i"
  then show "i \<in> set (pg_contents db)"
    by (auto simp: postgres_store_def pg_contents_def elim!: pg_Get_iff)
next
  fix db e i assume a: "pg_inv c db" "pg_up e" "i \<in> set (pg_contents db)"
  then obtain r where r: "r \<in> set (intent_rows db)" "i = row_intent r" by (auto simp: pg_contents_def)
  moreover have "List.find (\<lambda>x. row_id x = row_id r) (intent_rows db) = Some r"
    using a(1) r(1) by (subst find_row) (auto simp: pg_inv_def)
  ultimately show "Get (postgres_store c) e db (Id i) = Inr i"
    using a by (auto simp: postgres_store_def pg_Get_def pg_inv_def pg_up_def)
next
  fix db e sf uf n tok xs nxt cnt
  assume a: "pg_inv c db" "List (postgres_store c) e db sf uf n tok = Inr (xs, nxt, cnt)"
  let ?R = "page_rows c e db sf uf (page_limit n) tok"
  have l: "xs = map row_intent ?R" "cnt = int (length (filter (row_matches sf uf) (intent_rows db)))"
    using a(2) by (auto simp: postgres_store_def pg_List_def Let_def split: if_splits)
  have "length ?R \<le> nat (page_limit n)" by (simp add: page_rows_def)
  then have "int (length xs) \<le> page_limit n" using l by (simp add: page_limit_def split: if_splits)
  moreover have "map Id xs = map row_id ?R" by (simp add: l(1) comp_def)
  ultimately show "set xs \<subseteq> set (filter (intent_matches sf uf) (pg_contents db)) \<and> distinct (map Id xs) \<and>
      int (length xs) \<le> page_limit n \<and> cnt = int (length (filter (intent_matches sf uf) (pg_contents db)))"
    using page_rows_facts [OF a(1), of e sf uf "page_limit n" tok] l
    unfolding pg_matches_filter [OF a(1)] by (auto simp: comp_def)
qed

section \<open>The transactional outbox\<close>

text \<open>One new pending row and one new pending event, which carries the encoded intent\<close>

definition wrote_both :: "codecs \<Rightarrow> pg_env \<Rightarrow> SubmitIntentRequest \<Rightarrow> Intent \<Rightarrow> intent_db \<Rightarrow> intent_db \<Rightarrow> bool" where
  "wrote_both c e req i db db' \<longleftrightarrow>
     (\<exists>r ev o'. intent_rows db' = intent_rows db @ [r] \<and> outbox_rows db' = outbox_rows db @ [o'] \<and>
        row_status r = PENDING_name \<and> uuid_in c (Id i) = Some (row_id r) \<and>
        row_id r \<notin> row_id ` set (intent_rows db) \<and> ob_id o' \<notin> ob_id ` set (outbox_rows db) \<and>
        marshal c i = Some ev \<and> ob_payload o' = ev \<and> ob_status o' = ''PENDING'' \<and> ob_retry_count o' = 0 \<and>
        ob_topic o' = ''intents.submitted.'' @ row_type r)"

lemma create_body_both:
  assumes "create_body c e db req = Inr (i, db')"
  shows "wrote_both c e req i db db'"
proof -
  have "Id i = pg_id e" using assms
    by (elim create_bodyD) (simp add: created_intent_def Let_def split: prod.splits)
  with assms show ?thesis
    unfolding wrote_both_def by (elim create_bodyD) auto
qed

text \<open>
  C18. Submission is all or nothing across the two tables: an acknowledged \<open>Create\<close> has written
  the pending intent and one pending outbox event carrying the encoding of the returned intent; a
  failed one has written neither, or, when only the acknowledgement of the commit was lost, both.
\<close>

theorem create_writes_both_or_none:
  "case pg_Create c e db req of
     (Inr i, db') \<Rightarrow> wrote_both c e req i db db'
   | (Inl x, db') \<Rightarrow> db' = db \<or> (pg_commit e = PgCommitUnseen \<and> (\<exists>i. wrote_both c e req i db db'))"
  by (auto split: prod.splits sum.splits dest!: pg_CreateD pg_Create_errorD intro: create_body_both)

section \<open>Keyset pagination\<close>

text \<open>The codec of page tokens reads back the creation times of the rows.\<close>

definition tokens_ok :: "codecs \<Rightarrow> intent_row list \<Rightarrow> bool" where
  "tokens_ok c rs \<longleftrightarrow> (\<forall>r \<in> set rs. fmt_time c (row_created_at r) \<noteq> '''' \<and>
     parse_time c (fmt_time c (row_created_at r)) = Some (row_created_at r) \<and>
     ts_round c (row_created_at r) = row_created_at r \<and> row_created_at r \<noteq> zero_time)"

definition newest_first :: "intent_row list \<Rightarrow> intent_row list" where
  "newest_first rs = sort_key (\<lambda>r. - row_created_at r) rs"

lemma sort_key_filter_unique:
  assumes "distinct (map row_created_at rs)" "mset xs = mset (filter P rs)"
  shows "sort_key (\<lambda>r. - row_created_at r) xs = filter P (newest_first rs)"
proof (rule sort_key_inj_key_eq)
  have "set xs \<subseteq> set rs" using mset_eq_setD [OF assms(2)] by auto
  then show "inj_on (\<lambda>r. - row_created_at r) (set xs)"
    using assms(1) by (auto simp: distinct_map inj_on_def)
  show "mset xs = mset (filter P (newest_first rs))" by (simp add: newest_first_def assms(2))
  show "sorted (map (\<lambda>r. - row_created_at r) (filter P (newest_first rs)))"
    unfolding newest_first_def by (simp add: sorted_filter)
qed

lemma newest_first_decreasing:
  assumes "distinct (map row_created_at rs)" "i < j" "j < length rs"
  shows "row_created_at (newest_first rs ! j) < row_created_at (newest_first rs ! i)"
proof -
  let ?D = "newest_first rs"
  have len: "length ?D = length rs" by (simp add: newest_first_def)
  have "sorted (map (\<lambda>r. - row_created_at r) ?D)" by (simp add: newest_first_def)
  then have "row_created_at (?D ! j) \<le> row_created_at (?D ! i)"
    using assms(2,3) len by (simp add: sorted_iff_nth_mono_less)
  moreover have "mset (map row_created_at ?D) = mset (map row_created_at rs)"
    by (simp add: newest_first_def)
  then have "distinct (map row_created_at ?D)" using assms(1) mset_eq_imp_distinct_iff by blast
  then have "row_created_at (?D ! j) \<noteq> row_created_at (?D ! i)"
    using assms(2,3) len nth_eq_iff_index_eq [of "map row_created_at ?D" i j] by simp
  ultimately show ?thesis by simp
qed

lemma filter_after_cursor:
  assumes "distinct (map row_created_at rs)" "0 < j" "j \<le> length rs"
  shows "filter (\<lambda>r. row_created_at r < row_created_at (newest_first rs ! (j - 1))) (newest_first rs)
         = drop j (newest_first rs)"
proof -
  let ?D = "newest_first rs" and ?t = "row_created_at (newest_first rs ! (j - 1))"
  have len: "length ?D = length rs" by (simp add: newest_first_def)
  have "filter (\<lambda>r. row_created_at r < ?t) (take j ?D) = []"
  proof -
    have "\<not> row_created_at r < ?t" if r: "r \<in> set (take j ?D)" for r
    proof -
      obtain k where "k < length (take j ?D)" "take j ?D ! k = r" using r unfolding in_set_conv_nth by blast
      then have k: "k < j" "r = ?D ! k" by auto
      show ?thesis
      proof (cases "k = j - 1")
        case False
        then have "k < j - 1" "j - 1 < length rs" using k assms(2,3) by linarith+
        from newest_first_decreasing [OF assms(1) this] k show ?thesis by simp
      qed (simp add: k)
    qed
    then show ?thesis by (simp add: filter_empty_conv)
  qed
  moreover have "filter (\<lambda>r. row_created_at r < ?t) (drop j ?D) = drop j ?D"
  proof -
    have "row_created_at r < ?t" if r: "r \<in> set (drop j ?D)" for r
    proof -
      obtain k where "k < length (drop j ?D)" "drop j ?D ! k = r" using r unfolding in_set_conv_nth by blast
      then have k: "j + k < length rs" "r = ?D ! (j + k)" using len assms(3) by auto
      then show ?thesis using newest_first_decreasing [OF assms(1), of "j - 1" "j + k"] assms(2) by simp
    qed
    then show ?thesis by (simp add: filter_id_conv)
  qed
  ultimately show ?thesis by (metis append_take_drop_id filter_append append_Nil)
qed

lemma page_rows_from:
  assumes "distinct (map row_created_at rs)" "rs = filter (row_matches sf uf) (intent_rows db)"
    and "tokens_ok c rs" "j \<le> length rs"
    and "tok = (if j = 0 then '''' else fmt_time c (row_created_at (newest_first rs ! (j - 1))))"
  shows "page_rows c e db sf uf p tok = take (nat p) (drop j (newest_first rs))"
proof -
  let ?D = "newest_first rs"
  have sortd: "sort_key (\<lambda>r. - row_created_at r)
      (planner_order e (filter (\<lambda>r. row_matches sf uf r \<and> cursor c tok r) (intent_rows db)))
      = filter (cursor c tok) ?D"
  proof (rule sort_key_filter_unique [OF assms(1)])
    have "filter (\<lambda>r. row_matches sf uf r \<and> cursor c tok r) (intent_rows db) = filter (cursor c tok) rs"
      unfolding assms(2) by (simp add: conj_commute)
    then show "mset (planner_order e (filter (\<lambda>r. row_matches sf uf r \<and> cursor c tok r) (intent_rows db))) =
        mset (filter (cursor c tok) rs)" by simp
  qed
  show ?thesis
  proof (cases "j = 0")
    case True
    with assms(5) have "filter (cursor c tok) ?D = ?D" by (simp add: cursor_def)
    with sortd True show ?thesis by (simp add: page_rows_def)
  next
    case False
    let ?r = "?D ! (j - 1)"
    have "length ?D = length rs" by (simp add: newest_first_def)
    then have "?r \<in> set ?D" using assms(4) False by simp
    then have "?r \<in> set rs" by (simp add: newest_first_def)
    then have "cursor c tok = (\<lambda>r. row_created_at r < row_created_at ?r)"
      using assms(3,5) False by (simp add: cursor_def tokens_ok_def fun_eq_iff)
    then have "filter (cursor c tok) ?D = drop j ?D"
      using filter_after_cursor [OF assms(1), of j] assms(4) False by simp
    with sortd show ?thesis by (simp add: page_rows_def)
  qed
qed

lemma walk_pg_from:
  assumes "distinct (map row_created_at rs)" "rs = filter (row_matches sf uf) (intent_rows db)"
    and "tokens_ok c rs" "pg_up e" "j \<le> length rs" "length rs - j < fuel"
    and "tok = (if j = 0 then '''' else fmt_time c (row_created_at (newest_first rs ! (j - 1))))"
  shows "walk_pages fuel (postgres_store c) e db sf uf n tok = Some (map row_intent (drop j (newest_first rs)))"
  using assms(5-7)
proof (induction fuel arbitrary: j tok)
  case (Suc fuel)
  let ?D = "newest_first rs" and ?p = "nat (page_limit n)"
  let ?rows = "take ?p (drop j ?D)"
  have p: "0 < ?p" "page_limit n = int ?p" by (simp_all add: page_limit_def)
  have lenD: "length ?D = length rs" by (simp add: newest_first_def)
  have page: "page_rows c e db sf uf (page_limit n) tok = ?rows"
    using page_rows_from [OF assms(1-3) Suc.prems(1) Suc.prems(3)] by simp
  have list: "List (postgres_store c) e db sf uf n tok =
     Inr (map row_intent ?rows,
          let t = (if ?rows = [] then zero_time else row_created_at (last ?rows))
          in if int (length ?rows) = page_limit n \<and> t \<noteq> zero_time then fmt_time c t else '''',
          int (length rs))"
    using assms(4) unfolding postgres_store_def Store.simps pg_List_def pg_up_def page Let_def assms(2) by simp
  show ?case
  proof (cases "length ?rows = ?p")
    case True
    let ?j = "j + ?p"
    have j: "?j \<le> length rs" using True lenD Suc.prems(1) p by (simp add: min_def split: if_splits)
    then have ne: "?rows \<noteq> []" using True p by auto
    have last: "last ?rows = ?D ! (?j - 1)"
      using True ne j p lenD by (simp add: last_conv_nth)
    have "?D ! (?j - 1) \<in> set ?D" using j p lenD by simp
    then have "?D ! (?j - 1) \<in> set rs" by (simp add: newest_first_def)
    then have tok: "fmt_time c (row_created_at (?D ! (?j - 1))) \<noteq> ''''" "row_created_at (?D ! (?j - 1)) \<noteq> zero_time"
      using assms(3) by (auto simp: tokens_ok_def)
    have rec: "walk_pages fuel (postgres_store c) e db sf uf n (fmt_time c (row_created_at (?D ! (?j - 1))))
      = Some (map row_intent (drop ?j ?D))"
      by (rule Suc.IH) (use j p Suc.prems in auto)
    have "drop j ?D = ?rows @ drop ?j ?D" by (metis add.commute append_take_drop_id drop_drop)
    then show ?thesis
      unfolding walk_pages.simps list using True ne last tok rec p
      by (simp add: Let_def flip: map_append)
  next
    case False
    then have "int (length ?rows) \<noteq> page_limit n" using p by simp
    moreover have "?rows = drop j ?D" using False by (simp add: min_def split: if_splits)
    ultimately show ?thesis unfolding walk_pages.simps list by (simp add: Let_def)
  qed
qed simp

text \<open>
  C21. Keyset pagination is complete when no two matching intents share a creation time: the pages a
  client collects by following the tokens are exactly the matching intents, newest first, each
  once, whatever the page size and whatever order the planner delivers rows in.
\<close>

theorem postgres_pages_complete:
  assumes "distinct (map row_created_at (filter (row_matches sf uf) (intent_rows db)))"
    and "tokens_ok c (filter (row_matches sf uf) (intent_rows db))" "pg_up e"
    and "length (filter (row_matches sf uf) (intent_rows db)) < fuel"
  shows "walk_pages fuel (postgres_store c) e db sf uf n '''' =
         Some (map row_intent (newest_first (filter (row_matches sf uf) (intent_rows db))))"
  using walk_pg_from [OF assms(1) refl assms(2,3), of 0 fuel "''''" n] assms(4) by simp

section \<open>Instances\<close>

text \<open>Codecs and a table for the instances: times are printed as decimal numbers\<close>

definition plain_codecs :: "codecs" where
  "plain_codecs = \<lparr>marshal = (\<lambda>i. Some (Id i)), unmarshal = (\<lambda>_. None), uuid_in = (\<lambda>s. Some s),
     ts_round = (\<lambda>t. t), fmt_time = int_dec, parse_time = Sscanf_d\<rparr>"

definition plain_env :: "pg_env" where
  "plain_env = \<lparr>pg_now = 0, pg_id = ''i'', pg_outbox_id = ''o'', pg_fails = (\<lambda>_. False),
     pg_commit = PgCommitted, pg_order = (\<lambda>rs. rs)\<rparr>"

definition plain_row :: "string \<Rightarrow> time \<Rightarrow> intent_row" where
  "plain_row iid t = \<lparr>row_id = iid, row_type = ''INTENT_TYPE_QUERY'', row_status = PENDING_name,
     row_submitter_id = ''alice'', row_payload = '''', row_priority = 5, row_max_retries = 3,
     row_idempotent = False, row_deadline = None, row_signature = '''', row_submitter_public_key = '''',
     row_created_at = t, row_updated_at = t\<rparr>"

definition rows_db :: "intent_row list \<Rightarrow> intent_db" where
  "rows_db rs = \<lparr>intent_rows = rs, outbox_rows = []\<rparr>"

lemma plain_row_simps [simp]:
  "row_created_at (plain_row iid t) = t" "row_id (plain_row iid t) = iid"
  "row_matches INTENT_STATUS_PENDING ''alice'' (plain_row iid t)"
  by (simp_all add: plain_row_def row_matches_def PENDING_name_def)

lemma plain_tokens [simp]: "0 \<le> t \<Longrightarrow> t < 2 ^ 63 \<Longrightarrow> Sscanf_d (int_dec t) = Some t"
  using Sscanf_d_nat_dec [of "nat t"] by (simp add: int_dec_def)

lemma int_dec_nonempty [simp]: "int_dec n \<noteq> []"
  by (simp add: int_dec_def)

lemma postgres_pages_complete_witness:
  "walk_pages 4 (postgres_store plain_codecs) plain_env
     (rows_db [plain_row ''a'' 1, plain_row ''b'' 3, plain_row ''c'' 2]) INTENT_STATUS_PENDING ''alice'' 1 ''''
   = Some (map row_intent [plain_row ''b'' 3, plain_row ''c'' 2, plain_row ''a'' 1])"
proof -
  let ?db = "rows_db [plain_row ''a'' 1, plain_row ''b'' 3, plain_row ''c'' 2]"
  let ?R = "filter (row_matches INTENT_STATUS_PENDING ''alice'') (intent_rows ?db)"
  have R: "?R = [plain_row ''a'' 1, plain_row ''b'' 3, plain_row ''c'' 2]" by (simp add: rows_db_def)
  have "tokens_ok plain_codecs ?R"
    by (simp add: R tokens_ok_def plain_codecs_def zero_time_def second_def)
  moreover have "pg_up plain_env" by (simp add: pg_up_def plain_env_def)
  moreover have "newest_first ?R = [plain_row ''b'' 3, plain_row ''c'' 2, plain_row ''a'' 1]"
    by (simp add: R newest_first_def)
  ultimately show ?thesis
    using postgres_pages_complete [of INTENT_STATUS_PENDING "''alice''" ?db plain_codecs plain_env 4 1]
    by (simp add: R)
qed

text \<open>
  Keyset pagination loses intents that share a creation time: the cursor is the creation time
  alone, so with two intents of one microsecond and a page size of one the second is on no page.
\<close>

theorem keyset_skips_equal_times:
  "walk_pages k (postgres_store plain_codecs) plain_env
     (rows_db [plain_row ''a'' 7, plain_row ''b'' 7]) INTENT_STATUS_PENDING ''alice'' 1 ''''
   \<noteq> Some (map row_intent [plain_row ''a'' 7, plain_row ''b'' 7])
   \<and> walk_pages (Suc (Suc k)) (postgres_store plain_codecs) plain_env
     (rows_db [plain_row ''a'' 7, plain_row ''b'' 7]) INTENT_STATUS_PENDING ''alice'' 1 ''''
   = Some (map row_intent [plain_row ''a'' 7])"
proof -
  let ?db = "rows_db [plain_row ''a'' 7, plain_row ''b'' 7]"
  have p: "page_limit 1 = 1" by (simp add: page_limit_def)
  have tok: "Sscanf_d (int_dec 7) = Some 7" by (rule plain_tokens) simp_all
  have first: "List (postgres_store plain_codecs) plain_env ?db INTENT_STATUS_PENDING ''alice'' 1 '''' =
      Inr ([row_intent (plain_row ''a'' 7)], int_dec 7, 2)"
    by (simp add: postgres_store_def pg_List_def p page_rows_def planner_order_def cursor_def rows_db_def
        plain_env_def plain_codecs_def Let_def zero_time_def second_def)
  have second: "List (postgres_store plain_codecs) plain_env ?db INTENT_STATUS_PENDING ''alice'' 1 (int_dec 7) =
      Inr ([], '''', 2)"
    using tok by (simp add: postgres_store_def pg_List_def p page_rows_def planner_order_def cursor_def rows_db_def
        plain_env_def plain_codecs_def Let_def)
  have all: "walk_pages (Suc (Suc k)) (postgres_store plain_codecs) plain_env ?db
      INTENT_STATUS_PENDING ''alice'' 1 '''' = Some [row_intent (plain_row ''a'' 7)]" for k
    by (simp add: first second)
  consider "k = 0" | "k = Suc 0" | j where "k = Suc (Suc j)" by (metis nat.exhaust)
  then show ?thesis
  proof cases
    case 3
    then show ?thesis by (simp only: all) simp
  qed (simp_all add: first second)
qed

end
