(* ===== verification/IntentHandler.thy ===== *)
theory IntentHandler imports Crypto Grpc PostgresProps begin

text \<open>
  The gRPC handlers of the intent service, \<open>intent-service/handler/handler.go\<close>, over any store of
  the \<open>Store\<close> interface, and the publisher of \<open>handler/publisher.go\<close>.  What the handlers promise
  is proved once in the contract \<open>intent_store\<close> of the store and holds for both providers.
\<close>

section \<open>Handlers\<close>

datatype intent_error = VerifyError crypto_error | StoreError store_error

type_synonym istatus = "intent_error status"

definition SubmitIntent ::
  "ed25519 \<Rightarrow> ('e, 's) Store \<Rightarrow> 'e \<Rightarrow> 's \<Rightarrow> SubmitIntentRequest
   \<Rightarrow> (istatus + SubmitIntentResponse) \<times> 's" where
  "SubmitIntent ed S e s req =
     (if si_Type req = INTENT_TYPE_UNSPECIFIED
      then (Inl (InvalidArgument, Msg ''intent type is required''), s)
      else if si_SubmitterId req = ''''
      then (Inl (InvalidArgument, Msg ''submitter_id is required''), s)
      else if si_SubmitterPublicKey req = ''''
      then (Inl (InvalidArgument, Msg ''submitter_public_key is required''), s)
      else if si_Signature req = ''''
      then (Inl (InvalidArgument, Msg ''signature is required''), s)
      else let signBytes = GetSignBytes (IntentType_String (si_Type req)) (si_SubmitterId req) (si_Payload req)
      in case Verify ed signBytes (si_Signature req) (si_SubmitterPublicKey req) of
           Inl x \<Rightarrow> (Inl (InvalidArgument, FromError (VerifyError x)), s)
         | Inr isValid \<Rightarrow>
             if \<not> isValid then (Inl (Unauthenticated, Msg ''invalid cryptographic signature''), s)
             else case Create S e s req of
                    (Inl x, s') \<Rightarrow> (Inl (Internal, FromError (StoreError x)), s')
                  | (Inr intent, s') \<Rightarrow>
                      (Inr \<lparr>sr_IntentId = Id intent, sr_Status = Status intent, sr_CreatedAt = CreatedAt intent\<rparr>, s'))"

definition GetIntent :: "('e, 's) Store \<Rightarrow> 'e \<Rightarrow> 's \<Rightarrow> GetIntentRequest \<Rightarrow> istatus + GetIntentResponse" where
  "GetIntent S e s req =
     (if gi_IntentId req = '''' then Inl (InvalidArgument, Msg ''intent_id is required'')
      else case Get S e s (gi_IntentId req) of
             Inl _ \<Rightarrow> Inl (NotFound, Msg (''intent not found: '' @ gi_IntentId req))
           | Inr intent \<Rightarrow> Inr \<lparr>gr_Intent = intent\<rparr>)"

definition ListIntents :: "('e, 's) Store \<Rightarrow> 'e \<Rightarrow> 's \<Rightarrow> ListIntentsRequest \<Rightarrow> istatus + ListIntentsResponse" where
  "ListIntents S e s req =
     (case List S e s (li_StatusFilter req) (li_SubmitterIdFilter req) (li_PageSize req) (li_PageToken req) of
        Inl x \<Rightarrow> Inl (Internal, FromError (StoreError x))
      | Inr (results, nextToken, cnt) \<Rightarrow>
          Inr \<lparr>lr_Intents = results, lr_NextPageToken = nextToken, lr_TotalCount = int32 cnt\<rparr>)"

section \<open>Publisher\<close>

text \<open>
  \<open>PublishIntentSubmitted\<close>: the message handed to JetStream, whose acknowledgement is the
  argument \<open>accepts\<close>, and what the caller learns.
\<close>

datatype publish_error = PublishMarshal | PublishRefused

definition NatsPublisher_Publish ::
  "codecs \<Rightarrow> (string \<times> bytes \<Rightarrow> bool) \<Rightarrow> Intent \<Rightarrow> publish_error + string \<times> bytes" where
  "NatsPublisher_Publish c accepts intent =
     (case marshal c intent of
        None \<Rightarrow> Inl PublishMarshal
      | Some data \<Rightarrow>
          let m = (''intents.submitted.'' @ IntentType_String (Type intent), data)
          in if accepts m then Inr m else Inl PublishRefused)"

definition NoOpPublisher_Publish :: "Intent \<Rightarrow> publish_error + unit" where
  "NoOpPublisher_Publish intent = Inr ()"

section \<open>What the handlers promise, for every store\<close>

text \<open>The request passes every check of \<open>SubmitIntent\<close>.\<close>

definition well_signed :: "ed25519 \<Rightarrow> SubmitIntentRequest \<Rightarrow> bool" where
  "well_signed ed req \<longleftrightarrow>
     si_Type req \<noteq> INTENT_TYPE_UNSPECIFIED \<and> si_SubmitterId req \<noteq> '''' \<and>
     si_SubmitterPublicKey req \<noteq> '''' \<and> si_Signature req \<noteq> '''' \<and>
     Verify ed (GetSignBytes (IntentType_String (si_Type req)) (si_SubmitterId req) (si_Payload req))
       (si_Signature req) (si_SubmitterPublicKey req) = Inr True"

lemma SubmitIntent_refused: "\<not> well_signed ed req \<Longrightarrow> \<exists>st. SubmitIntent ed S e s req = (Inl st, s)"
  by (auto simp: SubmitIntent_def well_signed_def Let_def split: sum.splits)

lemma SubmitIntent_signed:
  "well_signed ed req \<Longrightarrow> SubmitIntent ed S e s req =
     (case Create S e s req of
        (Inl x, s') \<Rightarrow> (Inl (Internal, FromError (StoreError x)), s')
      | (Inr intent, s') \<Rightarrow>
          (Inr \<lparr>sr_IntentId = Id intent, sr_Status = Status intent, sr_CreatedAt = CreatedAt intent\<rparr>, s'))"
  by (simp add: SubmitIntent_def well_signed_def Let_def)

lemma SubmitIntent_codes:
  "SubmitIntent ed S e s req = (Inl (code, msg), s') \<Longrightarrow>
   code \<in> {InvalidArgument, Unauthenticated, Internal} \<and> (code \<noteq> Internal \<longrightarrow> s' = s \<and> \<not> well_signed ed req)"
  by (auto simp: SubmitIntent_def well_signed_def Let_def split: if_splits sum.splits prod.splits)

text \<open>A run of submissions, each with its own environment\<close>

fun submit_all :: "ed25519 \<Rightarrow> ('e, 's) Store \<Rightarrow> 's \<Rightarrow> ('e \<times> SubmitIntentRequest) list \<Rightarrow> 's" where
  "submit_all ed S s [] = s"
| "submit_all ed S s ((e, q) # qs) = submit_all ed S (snd (SubmitIntent ed S e s q)) qs"

fun fresh_run :: "ed25519 \<Rightarrow> ('e, 's) Store \<Rightarrow> ('e \<Rightarrow> 's \<Rightarrow> bool) \<Rightarrow> 's \<Rightarrow> ('e \<times> SubmitIntentRequest) list \<Rightarrow> bool" where
  "fresh_run ed S fr s [] = True"
| "fresh_run ed S fr s ((e, q) # qs) = (fr e s \<and> fresh_run ed S fr (snd (SubmitIntent ed S e s q)) qs)"

context intent_store begin

lemma submit_step:
  assumes "inv s" "fresh e s"
  obtains js where "inv (snd (SubmitIntent ed S e s q))"
    "contents (snd (SubmitIntent ed S e s q)) = contents s @ js" "length js \<le> 1"
    "js \<noteq> [] \<Longrightarrow> well_signed ed q"
    "\<forall>j \<in> set js. Status j = INTENT_STATUS_PENDING \<and> (known_type (si_Type q) \<longrightarrow> intent_core j = request_core q)"
proof (cases "well_signed ed q")
  case False
  with assms SubmitIntent_refused [OF False, of S e s] that [of "[]"] show ?thesis by auto
next
  case True
  obtain r s' where c: "Create S e s q = (r, s')" by (cases "Create S e s q")
  then have snd: "snd (SubmitIntent ed S e s q) = s'"
    by (simp add: SubmitIntent_signed [OF True] split: sum.splits)
  have "inv s' \<and> (contents s' = contents s \<or> (\<exists>j. contents s' = contents s @ [j] \<and>
      Status j = INTENT_STATUS_PENDING \<and> (known_type (si_Type q) \<longrightarrow> intent_core j = request_core q)))"
  proof (cases r)
    case (Inl x)
    with create_error [OF assms, of q x s'] c show ?thesis by simp
  next
    case (Inr i)
    with create_ok [OF assms, of q i s'] c show ?thesis by auto
  qed
  then consider "inv s'" "contents s' = contents s"
    | j where "inv s'" "contents s' = contents s @ [j]" "Status j = INTENT_STATUS_PENDING"
      "known_type (si_Type q) \<longrightarrow> intent_core j = request_core q" by blast
  then show ?thesis
  proof cases
    case 1
    then show ?thesis using that [of "[]"] snd by simp
  next
    case 2
    then show ?thesis using that [of "[j]"] snd True by simp
  qed
qed

lemma submit_all_inv: "inv s \<Longrightarrow> fresh_run ed S fresh s qs \<Longrightarrow> inv (submit_all ed S s qs)"
proof (induction qs arbitrary: s)
  case (Cons p qs)
  then show ?case by (cases p) (auto elim: submit_step)
qed simp

lemma submit_all_grows:
  assumes "inv s" "fresh_run ed S fresh s qs"
  shows "\<exists>js. contents (submit_all ed S s qs) = contents s @ js \<and>
    length js \<le> length (filter (\<lambda>(e, q). well_signed ed q) qs) \<and>
    (\<forall>j \<in> set js. Status j = INTENT_STATUS_PENDING \<and>
       (\<exists>(e, q) \<in> set qs. well_signed ed q \<and> (known_type (si_Type q) \<longrightarrow> intent_core j = request_core q)))"
  using assms
proof (induction qs arbitrary: s)
  case (Cons p qs)
  obtain e q where p: "p = (e, q)" by (cases p)
  let ?s = "snd (SubmitIntent ed S e s q)"
  have "fresh e s" using Cons.prems by (simp add: p)
  from submit_step [OF Cons.prems(1) this, of ed q]
  obtain js where js: "inv ?s" "contents ?s = contents s @ js" "length js \<le> 1" "js \<noteq> [] \<longrightarrow> well_signed ed q"
    "\<forall>j \<in> set js. Status j = INTENT_STATUS_PENDING \<and> (known_type (si_Type q) \<longrightarrow> intent_core j = request_core q)"
    by metis
  obtain ks where ks: "contents (submit_all ed S ?s qs) = contents ?s @ ks"
    "length ks \<le> length (filter (\<lambda>(e, q). well_signed ed q) qs)"
    "\<forall>j \<in> set ks. Status j = INTENT_STATUS_PENDING \<and>
       (\<exists>(e, q) \<in> set qs. well_signed ed q \<and> (known_type (si_Type q) \<longrightarrow> intent_core j = request_core q))"
    using Cons.IH [OF js(1)] Cons.prems by (auto simp: p)
  have "length (js @ ks) \<le> length (filter (\<lambda>(e, q). well_signed ed q) (p # qs))"
    using js(3,4) ks(2) by (cases "js = []") (auto simp: p)
  moreover have "contents (submit_all ed S s (p # qs)) = contents s @ js @ ks" using js(2) ks(1) by (simp add: p)
  moreover have "\<forall>j \<in> set (js @ ks). Status j = INTENT_STATUS_PENDING \<and> (\<exists>(e, q) \<in> set (p # qs).
      well_signed ed q \<and> (known_type (si_Type q) \<longrightarrow> intent_core j = request_core q))"
  proof
    fix j assume "j \<in> set (js @ ks)"
    then consider "j \<in> set js" | "j \<in> set ks" by auto
    then show "Status j = INTENT_STATUS_PENDING \<and> (\<exists>(e, q) \<in> set (p # qs).
      well_signed ed q \<and> (known_type (si_Type q) \<longrightarrow> intent_core j = request_core q))"
    proof cases
      case 1
      then have "js \<noteq> []" by auto
      with 1 js(4,5) show ?thesis by (auto simp: p)
    next
      case 2
      with ks(3) show ?thesis by fastforce
    qed
  qed
  ultimately show ?case by blast
qed simp

text \<open>A submitted intent is found under its identifier, as long as the store lives.\<close>

lemma submitted_is_found:
  assumes "inv s" "fresh e s" "SubmitIntent ed S e s q = (Inr resp, s')"
    and "known_type (si_Type q)" "fresh_run ed S fresh s' qs" "up e' (submit_all ed S s' qs)"
    and "sr_IntentId resp \<noteq> ''''"
  shows "\<exists>j. GetIntent S e' (submit_all ed S s' qs) \<lparr>gi_IntentId = sr_IntentId resp\<rparr> = Inr \<lparr>gr_Intent = j\<rparr>
           \<and> Id j = sr_IntentId resp \<and> Status j = INTENT_STATUS_PENDING \<and> intent_core j = request_core q"
proof -
  have signed: "well_signed ed q" using SubmitIntent_refused [of ed q S e s] assms(3) by fastforce
  obtain i where i: "Create S e s q = (Inr i, s')" "sr_IntentId resp = Id i"
    using assms(3) by (auto simp: SubmitIntent_signed [OF signed] split: prod.splits sum.splits)
  obtain j where j: "contents s' = contents s @ [j]" "Id j = Id i" "Status j = INTENT_STATUS_PENDING"
    "intent_core j = request_core q" and inv: "inv s'"
    using create_ok [OF assms(1,2) i(1)] assms(4) by auto
  obtain js where "contents (submit_all ed S s' qs) = contents s' @ js"
    using submit_all_grows [OF inv assms(5)] by auto
  then have "j \<in> set (contents (submit_all ed S s' qs))" using j by simp
  then have "Get S e' (submit_all ed S s' qs) (Id j) = Inr j"
    by (intro get_complete assms(6) submit_all_inv [OF inv assms(5)])
  with i j assms(7) show ?thesis by (auto simp: GetIntent_def)
qed

lemma list_within_page:
  assumes "inv s" "ListIntents S e s q = Inr resp"
  shows "int (length (lr_Intents resp)) \<le> page_limit (li_PageSize q) \<and>
    (\<forall>i \<in> set (lr_Intents resp). i \<in> set (contents s) \<and> intent_matches (li_StatusFilter q) (li_SubmitterIdFilter q) i) \<and>
    distinct (map Id (lr_Intents resp)) \<and>
    lr_TotalCount resp = int32 (int (length (filter (intent_matches (li_StatusFilter q) (li_SubmitterIdFilter q)) (contents s))))"
  using assms(2) list_ok [OF assms(1)] by (fastforce simp: ListIntents_def split: sum.splits prod.splits)

end

end
