(* ===== verification/HandlerProps.thy ===== *)
theory HandlerProps imports IntentHandler begin

text \<open>
  The properties of the intent service, read off the contract of the store for the two providers,
  and two inputs the checks of \<open>SubmitIntent\<close> do not stop: an enum number outside the schema, and
  the same signed request sent twice.
\<close>

section \<open>Only signed intents are stored\<close>


text \<open>
  What was submitted is found: after an acknowledged submission and any further run of
  submissions, \<open>GetIntent\<close> under the returned identifier answers with the pending intent and what
  the client submitted.
\<close>

theorem submitted_intent_is_found:
  assumes "pg_inv c db" "pg_fresh c e db"
    and "SubmitIntent ed (postgres_store c) e db q = (Inr resp, db')"
    and "known_type (si_Type q)" "fresh_run ed (postgres_store c) (pg_fresh c) db' qs"
    and "pg_up e'" "sr_IntentId resp \<noteq> ''''"
  shows "\<exists>j. GetIntent (postgres_store c) e' (submit_all ed (postgres_store c) db' qs)
             \<lparr>gi_IntentId = sr_IntentId resp\<rparr> = Inr \<lparr>gr_Intent = j\<rparr>
         \<and> Id j = sr_IntentId resp \<and> Status j = INTENT_STATUS_PENDING \<and> intent_core j = request_core q"
  by (rule pg.submitted_is_found [OF assms])

text \<open>
  The memory store answers the same way: an acknowledged submission is found under its
  identifier after any further run of submissions.
\<close>

theorem memory_submitted_is_found:
  assumes "mem_inv m" "mem_fresh e m" "SubmitIntent ed memory_store e m q = (Inr resp, m')"
    and "known_type (si_Type q)" "fresh_run ed memory_store mem_fresh m' qs" "sr_IntentId resp \<noteq> ''''"
  shows "\<exists>j. GetIntent memory_store e' (submit_all ed memory_store m' qs) \<lparr>gi_IntentId = sr_IntentId resp\<rparr>
               = Inr \<lparr>gr_Intent = j\<rparr>
         \<and> Id j = sr_IntentId resp \<and> Status j = INTENT_STATUS_PENDING \<and> intent_core j = request_core q"
  by (rule mem.submitted_is_found [OF assms(1-5) TrueI assms(6)])

section \<open>Two inputs that pass\<close>

lemma pg_Create_healthy:
  assumes "pg_fresh c e db" "pg_up e" "pg_commit e = PgCommitted"
    and "marshal c (created_intent e q) = Some ev" "uuid_in c (pg_outbox_id e) = Some v"
    and "v \<notin> ob_id ` set (outbox_rows db)"
  obtains db' where "pg_Create c e db q = (Inr (created_intent e q), db')"
    "create_body c e db q = Inr (created_intent e q, db')"
    "outbox_rows db' = outbox_rows db @ [(new_event e q ev)\<lparr>ob_id := v, ob_created_at := ts_round c (pg_now e),
       ob_updated_at := ts_round c (pg_now e)\<rparr>]"
proof -
  have new: "\<not> list_ex (\<lambda>x. row_id x = pg_id e) (intent_rows db)" "\<not> list_ex (\<lambda>x. ob_id x = v) (outbox_rows db)"
    using assms(1,6) by (auto simp: pg_fresh_def list_ex_iff intro: rev_image_eqI)
  have "\<exists>db'. create_body c e db q = Inr (created_intent e q, db')
      \<and> outbox_rows db' = outbox_rows db @ [(new_event e q ev)\<lparr>ob_id := v, ob_created_at := ts_round c (pg_now e),
       ob_updated_at := ts_round c (pg_now e)\<rparr>]"
    using assms(1,2,4,5)
    by (simp add: create_body_def insert_intent_def insert_outbox_def pg_fresh_def pg_up_def Let_def new new_event_def)
  then obtain db' where "create_body c e db q = Inr (created_intent e q, db')"
    "outbox_rows db' = outbox_rows db @ [(new_event e q ev)\<lparr>ob_id := v, ob_created_at := ts_round c (pg_now e),
       ob_updated_at := ts_round c (pg_now e)\<rparr>]" by blast
  with that assms(3) show ?thesis by (auto simp: pg_Create_def)
qed

lemma created_intent_simps [simp]:
  "Id (created_intent e q) = pg_id e"
  "Type (created_intent e q) = si_Type q"
  "Status (created_intent e q) = INTENT_STATUS_PENDING"
  by (simp_all add: created_intent_def Let_def split: prod.splits)

text \<open>
  An enum number outside the schema is accepted: with a valid signature the intent is stored
  under the number's decimal text, which reading turns into the unspecified type, so the intent the
  service returns later is not of the type the client submitted.
\<close>

theorem unknown_type_is_lost:
  assumes "pg_inv c db" "pg_fresh c e db" "si_Type q = IntentType_Number n"
    and "SubmitIntent ed (postgres_store c) e db q = (Inr resp, db')" "pg_up e'"
  shows "\<exists>j. Get (postgres_store c) e' db' (sr_IntentId resp) = Inr j \<and> Id j = sr_IntentId resp
         \<and> Type j = INTENT_TYPE_UNSPECIFIED"
proof -
  have signed: "well_signed ed q"
    using SubmitIntent_refused [of ed q "postgres_store c" e db] assms(4) by fastforce
  obtain i where i: "pg_Create c e db q = (Inr i, db')" "sr_IntentId resp = Id i"
    using assms(4)
    by (auto simp: SubmitIntent_signed [OF signed] postgres_store_def split: prod.splits sum.splits)
  then have body: "create_body c e db q = Inr (i, db')" by (simp add: pg_CreateD)
  note inv = create_body_contents [OF assms(1,2) body]
  have "\<exists>r \<in> set (intent_rows db'). row_type r = int_dec n \<and> row_id r = Id i"
    using body assms(2,3) by (elim create_bodyD) (simp add: pg_fresh_def)
  then obtain r where r: "r \<in> set (intent_rows db')" "row_type r = int_dec n" "row_id r = Id i" by blast
  then have "row_intent r \<in> set (pg_contents db')" by (simp add: pg_contents_def)
  from pg.get_complete [OF _ assms(5) this, of c]
  have "Get (postgres_store c) e' db' (Id i) = Inr (row_intent r)" using inv r(3) by simp
  moreover have "Type (row_intent r) = INTENT_TYPE_UNSPECIFIED"
    by (simp add: row_intent_def r(2) parseIntentType_def)
  ultimately show ?thesis using i(2) r(3) by auto
qed

text \<open>
  The intent service does not recognise a replay: the same signed request, sent again, is
  acknowledged again under a second identifier, and the two pending intents and the two outbox
  events are independent of each other.
\<close>

theorem replay_creates_two_intents:
  assumes "well_signed ed q" "mem_id e1 \<noteq> mem_id e2"
  shows "\<exists>r1 r2 m1 m2. SubmitIntent ed memory_store e1 m q = (Inr r1, m1)
         \<and> SubmitIntent ed memory_store e2 m1 q = (Inr r2, m2)
         \<and> sr_IntentId r1 \<noteq> sr_IntentId r2 \<and> length (mem_contents m2) = length (mem_contents m) + 2"
  using assms(2)
  by (simp add: SubmitIntent_signed [OF assms(1)] memory_store_def mem_Create_def Let_def mem_contents_def)

section \<open>Instances\<close>

definition sample_key :: "bytes" where
  "sample_key = replicate 32 CHR ''k''"

text \<open>A request of the given type signed with the sample key\<close>

definition signed_request :: "IntentType \<Rightarrow> bytes \<Rightarrow> SubmitIntentRequest" where
  "signed_request t p = \<lparr>si_Type = t, si_Payload = p, si_Constraints = None, si_SubmitterId = ''alice'',
     si_Signature = EncodeToString (ed_sign toy_ed (sample_key @ sample_key)
       (GetSignBytes (IntentType_String t) ''alice'' p)),
     si_SubmitterPublicKey = EncodeToString sample_key\<rparr>"

lemma well_signed_sample: "t \<noteq> INTENT_TYPE_UNSPECIFIED \<Longrightarrow> well_signed toy_ed (signed_request t p)"
proof -
  assume t: "t \<noteq> INTENT_TYPE_UNSPECIFIED"
  have k: "length sample_key = 32" by (simp add: sample_key_def)
  let ?m = "GetSignBytes (IntentType_String t) ''alice'' p"
  let ?s = "ed_sign toy_ed (sample_key @ sample_key) ?m"
  have sig: "?s = take 32 (?m @ replicate 32 CHR ''0'') @ sample_key" using k by (simp add: toy_ed_def)
  have len: "length ?s = 64" unfolding sig using k by (simp add: min_def)
  have ne: "EncodeToString sample_key \<noteq> []" "EncodeToString ?s \<noteq> []"
    using k len length_Encode [of sample_key] length_Encode [of ?s] by fastforce+
  have "Verify toy_ed ?m (EncodeToString ?s) (EncodeToString sample_key) = Inr True"
    unfolding Verify_def by (simp add: k len) (simp add: toy_ed_def k)
  with t ne show ?thesis by (simp add: well_signed_def signed_request_def)
qed

definition env_of :: "string \<Rightarrow> pg_env" where
  "env_of iid = plain_env\<lparr>pg_id := iid, pg_outbox_id := iid\<rparr>"

lemma plain_simps [simp]:
  "uuid_in plain_codecs x = Some x" "marshal plain_codecs i = Some (Id i)" "ts_round plain_codecs t = t"
  "pg_fails (env_of iid) y \<longleftrightarrow> False" "pg_id (env_of iid) = iid" "pg_outbox_id (env_of iid) = iid"
  "pg_commit (env_of iid) = PgCommitted"
  by (simp_all add: plain_codecs_def env_of_def plain_env_def)

definition empty_db :: "intent_db" where
  "empty_db = \<lparr>intent_rows = [], outbox_rows = []\<rparr>"

lemma empty_db_ok [simp]: "pg_inv c empty_db" "pg_contents empty_db = []"
  "pg_fresh plain_codecs (env_of iid) empty_db"
  by (simp_all add: pg_inv_def pg_contents_def pg_fresh_def empty_db_def)

lemma sample_submit:
  assumes "well_signed ed q"
  obtains db' where "SubmitIntent ed (postgres_store plain_codecs) (env_of iid) empty_db q =
      (Inr \<lparr>sr_IntentId = iid, sr_Status = INTENT_STATUS_PENDING, sr_CreatedAt = Some (timestamp_New 0)\<rparr>, db')"
    "map row_id (intent_rows db') = [iid]"
proof -
  have up: "pg_up (env_of iid)" by (simp add: pg_up_def)
  obtain db' where c: "pg_Create plain_codecs (env_of iid) empty_db q = (Inr (created_intent (env_of iid) q), db')"
      "create_body plain_codecs (env_of iid) empty_db q = Inr (created_intent (env_of iid) q, db')"
    using pg_Create_healthy [OF empty_db_ok(3) up _ _ _ _, of q iid iid]
    by (metis empty_iff empty_set image_empty intent_db.select_convs(2) empty_db_def plain_simps
        created_intent_simps(1))
  have "map row_id (intent_rows db') = [iid]"
    using c(2) by (elim create_bodyD) (simp add: empty_db_def)
  moreover have "CreatedAt (created_intent (env_of iid) q) = Some (timestamp_New 0)"
    by (simp add: created_intent_def Let_def env_of_def plain_env_def split: prod.splits)
  ultimately show ?thesis
    using that [of db'] c(1) by (simp add: SubmitIntent_signed [OF assms] postgres_store_def)
qed


lemma submitted_intent_is_found_witness:
  "\<exists>j db'. SubmitIntent toy_ed (postgres_store plain_codecs) (env_of ''a'') empty_db
        (signed_request INTENT_TYPE_QUERY ''p'') =
      (Inr \<lparr>sr_IntentId = ''a'', sr_Status = INTENT_STATUS_PENDING, sr_CreatedAt = Some (timestamp_New 0)\<rparr>, db')
     \<and> GetIntent (postgres_store plain_codecs) plain_env db' \<lparr>gi_IntentId = ''a''\<rparr> = Inr \<lparr>gr_Intent = j\<rparr>
     \<and> intent_core j = request_core (signed_request INTENT_TYPE_QUERY ''p'')"
proof -
  let ?q = "signed_request INTENT_TYPE_QUERY ''p''"
  have sq: "well_signed toy_ed ?q" by (rule well_signed_sample) simp
  have known: "known_type (si_Type ?q)" by (simp add: signed_request_def known_type_def)
  have up: "pg_up plain_env" by (simp add: pg_up_def plain_env_def)
  obtain db' where s: "SubmitIntent toy_ed (postgres_store plain_codecs) (env_of ''a'') empty_db ?q =
      (Inr \<lparr>sr_IntentId = ''a'', sr_Status = INTENT_STATUS_PENDING, sr_CreatedAt = Some (timestamp_New 0)\<rparr>, db')"
    using sample_submit [OF sq] by metis
  from submitted_intent_is_found [OF empty_db_ok(1,3) s known _ up, of "[]"] s show ?thesis by auto
qed

lemma memory_submitted_is_found_witness:
  "\<exists>j m'. SubmitIntent toy_ed memory_store \<lparr>mem_now = 0, mem_id = ''a''\<rparr> NewMemoryStore
        (signed_request INTENT_TYPE_QUERY ''p'') =
      (Inr \<lparr>sr_IntentId = ''a'', sr_Status = INTENT_STATUS_PENDING, sr_CreatedAt = Some (timestamp_New 0)\<rparr>, m')
     \<and> GetIntent memory_store \<lparr>mem_now = 9, mem_id = ''z''\<rparr> m' \<lparr>gi_IntentId = ''a''\<rparr> = Inr \<lparr>gr_Intent = j\<rparr>
     \<and> Id j = ''a''"
proof -
  let ?q = "signed_request INTENT_TYPE_QUERY ''p''" and ?e = "\<lparr>mem_now = 0, mem_id = ''a''\<rparr> :: mem_env"
  have sq: "well_signed toy_ed ?q" by (rule well_signed_sample) simp
  have known: "known_type (si_Type ?q)" by (simp add: signed_request_def known_type_def)
  have fresh: "mem_fresh ?e NewMemoryStore" by (simp add: mem_fresh_def NewMemoryStore_def)
  obtain m' where s: "SubmitIntent toy_ed memory_store ?e NewMemoryStore ?q =
      (Inr \<lparr>sr_IntentId = ''a'', sr_Status = INTENT_STATUS_PENDING, sr_CreatedAt = Some (timestamp_New 0)\<rparr>, m')"
    by (simp add: SubmitIntent_signed [OF sq] memory_store_def mem_Create_def Let_def)
  from memory_submitted_is_found [OF mem_inv_new fresh s known, of "[]"] s show ?thesis by auto
qed

lemma unknown_type_is_lost_witness:
  "\<exists>db' j. SubmitIntent toy_ed (postgres_store plain_codecs) (env_of ''a'') empty_db
        (signed_request (IntentType_Number 7) ''p'') =
      (Inr \<lparr>sr_IntentId = ''a'', sr_Status = INTENT_STATUS_PENDING, sr_CreatedAt = Some (timestamp_New 0)\<rparr>, db')
     \<and> Get (postgres_store plain_codecs) plain_env db' ''a'' = Inr j \<and> Type j = INTENT_TYPE_UNSPECIFIED"
proof -
  let ?q = "signed_request (IntentType_Number 7) ''p''"
  have sq: "well_signed toy_ed ?q" by (rule well_signed_sample) simp
  have t: "si_Type ?q = IntentType_Number 7" by (simp add: signed_request_def)
  have up: "pg_up plain_env" by (simp add: pg_up_def plain_env_def)
  obtain db' where s: "SubmitIntent toy_ed (postgres_store plain_codecs) (env_of ''a'') empty_db ?q =
      (Inr \<lparr>sr_IntentId = ''a'', sr_Status = INTENT_STATUS_PENDING, sr_CreatedAt = Some (timestamp_New 0)\<rparr>, db')"
    using sample_submit [OF sq] by metis
  from unknown_type_is_lost [OF empty_db_ok(1,3) t s up] s show ?thesis by auto
qed

lemma replay_creates_two_intents_witness:
  "\<exists>r1 r2 m1 m2. SubmitIntent toy_ed memory_store \<lparr>mem_now = 0, mem_id = ''a''\<rparr> NewMemoryStore
        (signed_request INTENT_TYPE_TRANSFER ''p'') = (Inr r1, m1)
     \<and> SubmitIntent toy_ed memory_store \<lparr>mem_now = 1, mem_id = ''b''\<rparr> m1
        (signed_request INTENT_TYPE_TRANSFER ''p'') = (Inr r2, m2) \<and> sr_IntentId r1 \<noteq> sr_IntentId r2"
proof -
  have "well_signed toy_ed (signed_request INTENT_TYPE_TRANSFER ''p'')" by (rule well_signed_sample) simp
  from replay_creates_two_intents [OF this, of "\<lparr>mem_now = 0, mem_id = ''a''\<rparr>" "\<lparr>mem_now = 1, mem_id = ''b''\<rparr>"]
  show ?thesis by fastforce
qed

end
