(* ===== verification/Outbox.thy ===== *)
theory Outbox imports IntentPostgres begin

text \<open>
  The transactional outbox worker, \<open>intent-service/outbox/worker.go\<close>, over the table
  \<open>outbox_events\<close> of \<open>IntentPostgres\<close> and a JetStream broker, which is the list of the messages
  it has stored.

  One iteration of the polling loop is \<open>processBatch\<close>: the claim transaction, then one publish and
  one status update or delete per event.  The environment \<open>worker_env\<close> gives the clocks, the rows
  other replicas have locked (\<open>SKIP LOCKED\<close>), the statements that fail, the answer of the broker
  for each event and, when the process dies in the middle, after how many events it did.
\<close>

section \<open>Configuration\<close>

record OutboxWorker =
  pollInterval :: time
  batchSize :: int
  maxRetries :: int

definition NewWorker :: "time \<Rightarrow> int \<Rightarrow> int \<Rightarrow> OutboxWorker" where
  "NewWorker interval batch retries =
     \<lparr>pollInterval = (if interval \<le> 0 then 250000000 else interval),
      batchSize = (if batch \<le> 0 then 50 else batch),
      maxRetries = (if retries \<le> 0 then 5 else retries)\<rparr>"

section \<open>Environment\<close>

type_synonym message_data = "string \<times> bytes"

record OutboxEvent =
  ev_ID :: string
  ev_Topic :: string
  ev_Payload :: bytes
  ev_RetryCount :: int

datatype worker_call = WBegin | WQuery | WScan | WRows | WClaim string | WCommit | WUpdate string | WDelete string

text \<open>The broker stores and acknowledges, refuses, or stores while the acknowledgement is lost.\<close>

datatype puback = Acked | Refused | StoredUnacked

record worker_env =
  wo_now :: time
  wo_claim_time :: time
  wo_update_time :: "string \<Rightarrow> time"
  wo_locked :: "string \<Rightarrow> bool"
  wo_fails :: "worker_call \<Rightarrow> bool"
  wo_commit_lost :: bool
  wo_order :: "outbox_row list \<Rightarrow> outbox_row list"
  wo_publish :: "string \<Rightarrow> puback"
  wo_dies_after :: "nat option"

datatype worker_error = BatchBegin | BatchQuery | BatchScan | BatchRows | BatchClaim | BatchCommit

section \<open>The claim\<close>

definition claimable :: "worker_env \<Rightarrow> outbox_row \<Rightarrow> bool" where
  "claimable w r \<longleftrightarrow>
     (ob_status r = ''PENDING'' \<or> (ob_status r = ''PROCESSING'' \<and> ob_updated_at r < wo_now w - minute))
     \<and> \<not> wo_locked w (ob_id r)"

definition outbox_order :: "worker_env \<Rightarrow> outbox_row list \<Rightarrow> outbox_row list" where
  "outbox_order w rows = (if mset (wo_order w rows) = mset rows then wo_order w rows else rows)"

definition claim_rows :: "OutboxWorker \<Rightarrow> worker_env \<Rightarrow> intent_db \<Rightarrow> outbox_row list" where
  "claim_rows cfg w db =
     take (nat (batchSize cfg))
       (sort_key ob_created_at (outbox_order w (filter (claimable w) (outbox_rows db))))"

definition to_event :: "outbox_row \<Rightarrow> OutboxEvent" where
  "to_event r = \<lparr>ev_ID = ob_id r, ev_Topic = ob_topic r, ev_Payload = ob_payload r, ev_RetryCount = ob_retry_count r\<rparr>"

text \<open>\<open>UPDATE outbox_events ... WHERE id = $n\<close> and \<open>DELETE\<close>\<close>

definition update_outbox :: "string \<Rightarrow> (outbox_row \<Rightarrow> outbox_row) \<Rightarrow> intent_db \<Rightarrow> intent_db" where
  "update_outbox iid f db = db\<lparr>outbox_rows := map (\<lambda>r. if ob_id r = iid then f r else r) (outbox_rows db)\<rparr>"

definition delete_outbox :: "string \<Rightarrow> intent_db \<Rightarrow> intent_db" where
  "delete_outbox iid db = db\<lparr>outbox_rows := filter (\<lambda>r. ob_id r \<noteq> iid) (outbox_rows db)\<rparr>"

text \<open>The loop that marks the claimed events as being processed\<close>

fun mark_processing :: "worker_env \<Rightarrow> intent_db \<Rightarrow> OutboxEvent list \<Rightarrow> intent_db option" where
  "mark_processing w db [] = Some db"
| "mark_processing w db (ev # evs) =
     (if wo_fails w (WClaim (ev_ID ev)) then None
      else mark_processing w
        (update_outbox (ev_ID ev) (\<lambda>r. r\<lparr>ob_status := ''PROCESSING'', ob_updated_at := wo_claim_time w\<rparr>) db) evs)"

definition claim :: "OutboxWorker \<Rightarrow> worker_env \<Rightarrow> intent_db \<Rightarrow> (worker_error + OutboxEvent list) \<times> intent_db" where
  "claim cfg w db =
     (if wo_fails w WBegin then (Inl BatchBegin, db)
      else if wo_fails w WQuery then (Inl BatchQuery, db)
      else let events = map to_event (claim_rows cfg w db)
      in if events \<noteq> [] \<and> wo_fails w WScan then (Inl BatchScan, db)
      else if wo_fails w WRows then (Inl BatchRows, db)
      else if events = [] then (Inr [], db)
      else case mark_processing w db events of
             None \<Rightarrow> (Inl BatchClaim, db)
           | Some db' \<Rightarrow>
               if wo_fails w WCommit then (Inl BatchCommit, if wo_commit_lost w then db' else db)
               else (Inr events, db'))"

section \<open>Publishing\<close>

text \<open>One event: publish, then set the status back or delete the row; failures are only logged.\<close>

definition process_event ::
  "OutboxWorker \<Rightarrow> worker_env \<Rightarrow> OutboxEvent \<Rightarrow> intent_db \<times> message_data list \<Rightarrow> intent_db \<times> message_data list" where
  "process_event cfg w ev st =
     (case st of (db, stored) \<Rightarrow>
        let ack = wo_publish w (ev_ID ev);
            stored' = (if ack = Refused then stored else stored @ [(ev_Topic ev, ev_Payload ev)])
        in if ack \<noteq> Acked
        then let newStatus = (if ev_RetryCount ev \<ge> maxRetries cfg then ''FAILED'' else ''PENDING'')
          in if wo_fails w (WUpdate (ev_ID ev)) then (db, stored')
          else (update_outbox (ev_ID ev)
                 (\<lambda>r. r\<lparr>ob_status := newStatus, ob_retry_count := ev_RetryCount ev + 1,
                       ob_updated_at := wo_update_time w (ev_ID ev)\<rparr>) db, stored')
        else if wo_fails w (WDelete (ev_ID ev)) then (db, stored')
        else (delete_outbox (ev_ID ev) db, stored'))"

definition process_events ::
  "OutboxWorker \<Rightarrow> worker_env \<Rightarrow> OutboxEvent list \<Rightarrow> intent_db \<times> message_data list \<Rightarrow> intent_db \<times> message_data list" where
  "process_events cfg w evs st = fold (process_event cfg w) evs st"

definition processBatch ::
  "OutboxWorker \<Rightarrow> worker_env \<Rightarrow> intent_db \<times> message_data list
   \<Rightarrow> worker_error option \<times> intent_db \<times> message_data list" where
  "processBatch cfg w st =
     (case st of (db, stored) \<Rightarrow>
        case claim cfg w db of
          (Inl e, db') \<Rightarrow> (Some e, db', stored)
        | (Inr evs, db') \<Rightarrow>
            let alive = (case wo_dies_after w of None \<Rightarrow> evs | Some k \<Rightarrow> take k evs)
            in (None, process_events cfg w alive (db', stored)))"

text \<open>The polling loop: one batch after another, whatever each returned\<close>

fun poll :: "OutboxWorker \<Rightarrow> worker_env list \<Rightarrow> intent_db \<times> message_data list \<Rightarrow> intent_db \<times> message_data list" where
  "poll cfg [] st = st"
| "poll cfg (w # ws) st = poll cfg ws (snd (processBatch cfg w st))"

end
