(* ===== verification/OutboxProps.thy ===== *)
theory OutboxProps imports Outbox begin

text \<open>
  What the outbox guarantees: an event leaves the table only after the broker has stored its
  message (at least once, over any failures and crashes), a healthy worker drains the table, and
  where the guarantee ends: an event refused too often is never sent again.
\<close>

section \<open>At least once\<close>

definition outbox_keys :: "intent_db \<Rightarrow> (string \<times> message_data) list" where
  "outbox_keys db = map (\<lambda>r. (ob_id r, ob_topic r, ob_payload r)) (outbox_rows db)"

definition ev_key :: "OutboxEvent \<Rightarrow> string \<times> message_data" where
  "ev_key ev = (ev_ID ev, ev_Topic ev, ev_Payload ev)"

lemma keys_update:
  "(\<And>r. ob_id (f r) = ob_id r \<and> ob_topic (f r) = ob_topic r \<and> ob_payload (f r) = ob_payload r) \<Longrightarrow>
   outbox_keys (update_outbox iid f db) = outbox_keys db"
  by (simp add: outbox_keys_def update_outbox_def)

lemma keys_delete: "outbox_keys (delete_outbox iid db) = filter (\<lambda>k. fst k \<noteq> iid) (outbox_keys db)"
  by (simp add: outbox_keys_def delete_outbox_def filter_map comp_def)

lemma mark_processing_keys: "mark_processing w db evs = Some db' \<Longrightarrow> outbox_keys db' = outbox_keys db"
proof (induction evs arbitrary: db)
  case (Cons ev evs)
  then show ?case by (auto split: if_splits simp: keys_update)
qed simp

lemma claim_keys: "claim cfg w db = (r, db') \<Longrightarrow> outbox_keys db' = outbox_keys db"
  by (auto simp: claim_def Let_def mark_processing_keys split: if_splits option.splits)

lemma set_outbox_order [simp]: "set (outbox_order w rows) = set rows"
  by (metis outbox_order_def set_mset_mset)

lemma set_claim_rows: "set (claim_rows cfg w db) \<subseteq> set (filter (claimable w) (outbox_rows db))"
  using set_take_subset by (fastforce simp: claim_rows_def)

lemma claim_events:
  assumes "claim cfg w db = (Inr evs, db')" "ev \<in> set evs"
  shows "ev_key ev \<in> set (outbox_keys db)"
proof -
  have "evs = map to_event (claim_rows cfg w db)"
    using assms by (auto simp: claim_def Let_def split: if_splits option.splits)
  with assms(2) set_claim_rows [of cfg w db] show ?thesis
    by (auto simp: outbox_keys_def ev_key_def to_event_def)
qed

text \<open>Every event of the snapshot is still in the table or its message is in the broker.\<close>

definition accounted :: "(string \<times> message_data) list \<Rightarrow> intent_db \<times> message_data list \<Rightarrow> bool" where
  "accounted K st \<longleftrightarrow> distinct (map fst K) \<and> set (outbox_keys (fst st)) \<subseteq> set K \<and>
     (\<forall>k \<in> set K. k \<in> set (outbox_keys (fst st)) \<or> snd k \<in> set (snd st))"

lemma process_event_accounted:
  assumes "accounted K st" "ev_key ev \<in> set K"
  shows "accounted K (process_event cfg w ev st)"
proof -
  obtain db stored where st: "st = (db, stored)" by (cases st)
  have only: "k = ev_key ev" if "k \<in> set K" "fst k = ev_ID ev" for k
  proof -
    have "distinct (map fst K)" using assms(1) by (simp add: accounted_def)
    then have "inj_on fst (set K)" by (simp add: distinct_map)
    then show ?thesis using that assms(2) by (auto simp: inj_on_def ev_key_def)
  qed
  consider "wo_publish w (ev_ID ev) \<noteq> Acked" | "wo_publish w (ev_ID ev) = Acked" "wo_fails w (WDelete (ev_ID ev))"
    | "wo_publish w (ev_ID ev) = Acked" "\<not> wo_fails w (WDelete (ev_ID ev))" by blast
  then show ?thesis
  proof cases
    case 1
    then show ?thesis using assms(1)
      by (auto simp: process_event_def st Let_def accounted_def keys_update)
  next
    case 2
    then show ?thesis using assms(1) by (auto simp: process_event_def st Let_def accounted_def)
  next
    case 3
    have "snd (process_event cfg w ev st) = stored @ [snd (ev_key ev)]"
      "outbox_keys (fst (process_event cfg w ev st)) = filter (\<lambda>k. fst k \<noteq> ev_ID ev) (outbox_keys db)"
      using 3 by (simp_all add: process_event_def st Let_def keys_delete ev_key_def)
    with assms(1) only show ?thesis by (auto simp: accounted_def st)
  qed
qed

lemma process_events_accounted:
  assumes "accounted K st" "\<forall>ev \<in> set evs. ev_key ev \<in> set K"
  shows "accounted K (process_events cfg w evs st)"
  using assms
proof (induction evs arbitrary: st)
  case (Cons ev evs)
  then have "accounted K (process_event cfg w ev st)" by (intro process_event_accounted) auto
  with Cons show ?case by (simp add: process_events_def)
qed (simp add: process_events_def)

lemma processBatch_accounted:
  assumes "accounted K st"
  shows "accounted K (snd (processBatch cfg w st))"
proof -
  obtain db stored where st: "st = (db, stored)" by (cases st)
  obtain r db' where c: "claim cfg w db = (r, db')" by (cases "claim cfg w db")
  have acc: "accounted K (db', stored)" using assms claim_keys [OF c] by (simp add: accounted_def st)
  show ?thesis
  proof (cases r)
    case (Inl e)
    then show ?thesis using acc c by (simp add: processBatch_def st)
  next
    case (Inr evs)
    have "\<forall>ev \<in> set evs. ev_key ev \<in> set K"
      using claim_events [of cfg w db evs db'] c Inr assms by (auto simp: accounted_def st)
    then have "\<forall>ev \<in> set (case wo_dies_after w of None \<Rightarrow> evs | Some k \<Rightarrow> take k evs). ev_key ev \<in> set K"
      by (auto split: option.splits dest: in_set_takeD)
    then show ?thesis using process_events_accounted [OF acc] c Inr by (simp add: processBatch_def st Let_def)
  qed
qed

lemma poll_accounted: "accounted K st \<Longrightarrow> accounted K (poll cfg ws st)"
proof (induction ws arbitrary: st)
  case (Cons w ws)
  from Cons.IH [OF processBatch_accounted [OF Cons.prems]] show ?case by simp
qed simp


section \<open>A healthy worker drains the table\<close>

definition wo_healthy :: "worker_env \<Rightarrow> bool" where
  "wo_healthy w \<longleftrightarrow> (\<forall>c. \<not> wo_fails w c) \<and> (\<forall>i. \<not> wo_locked w i) \<and> (\<forall>i. wo_publish w i = Acked) \<and>
     wo_dies_after w = None"

definition row_message :: "outbox_row \<Rightarrow> message_data" where
  "row_message r = (ob_topic r, ob_payload r)"

text \<open>Marking and deleting the claimed rows leaves the others alone.\<close>

lemma filter_update_outbox:
  assumes "iid \<in> ids" "\<And>r. ob_id (f r) = ob_id r"
  shows "filter (\<lambda>r. ob_id r \<notin> ids) (outbox_rows (update_outbox iid f db)) =
         filter (\<lambda>r. ob_id r \<notin> ids) (outbox_rows db)"
proof -
  have "filter (\<lambda>r. ob_id r \<notin> ids) (map (\<lambda>r. if ob_id r = iid then f r else r) rs) =
      filter (\<lambda>r. ob_id r \<notin> ids) rs" for rs
    using assms by (induction rs) auto
  then show ?thesis by (simp add: update_outbox_def)
qed

lemma mark_processing_healthy:
  assumes "\<forall>c. \<not> wo_fails w c"
  obtains db' where "mark_processing w db evs = Some db'"
    "intent_rows db' = intent_rows db"
    "\<And>ids. set (map ev_ID evs) \<subseteq> ids \<Longrightarrow>
       filter (\<lambda>r. ob_id r \<notin> ids) (outbox_rows db') = filter (\<lambda>r. ob_id r \<notin> ids) (outbox_rows db)"
proof -
  have "\<exists>db'. mark_processing w db evs = Some db' \<and> intent_rows db' = intent_rows db \<and>
    (\<forall>ids. set (map ev_ID evs) \<subseteq> ids \<longrightarrow>
       filter (\<lambda>r. ob_id r \<notin> ids) (outbox_rows db') = filter (\<lambda>r. ob_id r \<notin> ids) (outbox_rows db))"
  proof (induction evs arbitrary: db)
    case (Cons ev evs)
    let ?db = "update_outbox (ev_ID ev) (\<lambda>r. r\<lparr>ob_status := ''PROCESSING'', ob_updated_at := wo_claim_time w\<rparr>) db"
    have same: "filter (\<lambda>r. ob_id r \<notin> ids) (outbox_rows ?db) = filter (\<lambda>r. ob_id r \<notin> ids) (outbox_rows db)"
      if "ev_ID ev \<in> ids" for ids using that by (rule filter_update_outbox) simp
    obtain db' where "mark_processing w ?db evs = Some db'" "intent_rows db' = intent_rows ?db"
      "\<forall>ids. set (map ev_ID evs) \<subseteq> ids \<longrightarrow>
         filter (\<lambda>r. ob_id r \<notin> ids) (outbox_rows db') = filter (\<lambda>r. ob_id r \<notin> ids) (outbox_rows ?db)"
      using Cons.IH by metis
    with same assms show ?case by (simp add: update_outbox_def)
  qed simp
  with that show ?thesis by metis
qed

lemma process_events_healthy:
  assumes "\<forall>c. \<not> wo_fails w c" "\<forall>i. wo_publish w i = Acked"
  shows "process_events cfg w evs (db, stored) =
    (db\<lparr>outbox_rows := filter (\<lambda>r. ob_id r \<notin> set (map ev_ID evs)) (outbox_rows db)\<rparr>,
     stored @ map (\<lambda>ev. (ev_Topic ev, ev_Payload ev)) evs)"
proof (induction evs arbitrary: db stored)
  case (Cons ev evs)
  have "process_event cfg w ev (db, stored) = (delete_outbox (ev_ID ev) db, stored @ [(ev_Topic ev, ev_Payload ev)])"
    using assms by (simp add: process_event_def Let_def)
  with Cons show ?case
    by (simp add: process_events_def delete_outbox_def conj_commute)
qed (simp add: process_events_def)

lemma processBatch_healthy:
  assumes "wo_healthy w"
  shows "processBatch cfg w (db, stored) =
    (None, db\<lparr>outbox_rows := filter (\<lambda>r. ob_id r \<notin> ob_id ` set (claim_rows cfg w db)) (outbox_rows db)\<rparr>,
     stored @ map row_message (claim_rows cfg w db))"
proof -
  let ?evs = "map to_event (claim_rows cfg w db)"
  have ok: "\<forall>c. \<not> wo_fails w c" "\<forall>i. wo_publish w i = Acked" "wo_dies_after w = None"
    using assms by (simp_all add: wo_healthy_def)
  obtain db' where db': "mark_processing w db ?evs = Some db'" "intent_rows db' = intent_rows db"
    "\<And>ids. set (map ev_ID ?evs) \<subseteq> ids \<Longrightarrow>
       filter (\<lambda>r. ob_id r \<notin> ids) (outbox_rows db') = filter (\<lambda>r. ob_id r \<notin> ids) (outbox_rows db)"
    using mark_processing_healthy [OF ok(1)] by metis
  have ids: "set (map ev_ID ?evs) = ob_id ` set (claim_rows cfg w db)" by (auto simp: to_event_def)
  have msgs: "map (\<lambda>ev. (ev_Topic ev, ev_Payload ev)) ?evs = map row_message (claim_rows cfg w db)"
    by (simp add: to_event_def row_message_def)
  show ?thesis
  proof (cases "claim_rows cfg w db = []")
    case True
    then have "claim cfg w db = (Inr [], db)" using ok(1) by (simp add: claim_def)
    then show ?thesis using True ok(3) by (simp add: processBatch_def process_events_def)
  next
    case False
    then have "claim cfg w db = (Inr ?evs, db')" using ok(1) db'(1) by (simp add: claim_def Let_def)
    then have "processBatch cfg w (db, stored) = (None, process_events cfg w ?evs (db', stored))"
      using ok(3) by (simp add: processBatch_def)
    also have "process_events cfg w ?evs (db', stored) =
        (db'\<lparr>outbox_rows := filter (\<lambda>r. ob_id r \<notin> set (map ev_ID ?evs)) (outbox_rows db')\<rparr>,
         stored @ map row_message (claim_rows cfg w db))"
      unfolding msgs [symmetric] by (rule process_events_healthy [OF ok(1,2)])
    also have "filter (\<lambda>r. ob_id r \<notin> set (map ev_ID ?evs)) (outbox_rows db') =
        filter (\<lambda>r. ob_id r \<notin> set (map ev_ID ?evs)) (outbox_rows db)" by (rule db'(3)) simp
    finally show ?thesis unfolding ids using db'(2) by simp
  qed
qed

lemma mset_outbox_order [simp]: "mset (outbox_order w rows) = mset rows"
  by (simp add: outbox_order_def)

lemma drain_step:
  assumes "wo_healthy w" "distinct (map ob_id (outbox_rows db))" "\<forall>r \<in> set (outbox_rows db). ob_status r = ''PENDING''"
  obtains C R where "processBatch cfg w (db, stored) =
      (None, db\<lparr>outbox_rows := R\<rparr>, stored @ map row_message C)"
    "mset (outbox_rows db) = mset C + mset R" "length C = min (length (outbox_rows db)) (nat (batchSize cfg))"
    "distinct (map ob_id R)" "\<forall>r \<in> set R. ob_status r = ''PENDING''"
proof -
  let ?rows = "outbox_rows db"
  let ?S = "sort_key ob_created_at (outbox_order w ?rows)"
  let ?C = "take (nat (batchSize cfg)) ?S" and ?D = "drop (nat (batchSize cfg)) ?S"
  let ?R = "filter (\<lambda>r. ob_id r \<notin> ob_id ` set ?C) ?rows"
  have "filter (claimable w) ?rows = ?rows"
    using assms(1,3) by (simp add: wo_healthy_def claimable_def filter_id_conv)
  then have C: "claim_rows cfg w db = ?C" by (simp add: claim_rows_def)
  have ms: "mset ?S = mset ?rows" by simp
  then have "distinct (map ob_id ?S)" using assms(2) mset_eq_imp_distinct_iff mset_map by metis
  then have dist: "distinct (map ob_id ?C @ map ob_id ?D)" by (simp flip: map_append)
  have "filter (\<lambda>r. ob_id r \<notin> ob_id ` set ?C) (?C @ ?D) = ?D"
  proof -
    have "filter (\<lambda>r. ob_id r \<notin> ob_id ` set ?C) ?C = []" by (simp add: filter_empty_conv)
    moreover have "filter (\<lambda>r. ob_id r \<notin> ob_id ` set ?C) ?D = ?D"
      using dist unfolding filter_id_conv by fastforce
    ultimately show ?thesis by (simp only: filter_append append_Nil)
  qed
  then have "mset (filter (\<lambda>r. ob_id r \<notin> ob_id ` set ?C) ?S) = mset ?D" by simp
  then have R: "mset ?R = mset ?D" using ms by (metis mset_filter)
  have "mset ?rows = mset ?C + mset ?R" unfolding R using ms by (metis append_take_drop_id mset_append)
  moreover have "length ?C = min (length ?rows) (nat (batchSize cfg))"
    using mset_eq_length [OF ms] by simp
  moreover have "distinct (map ob_id ?R)" using assms(2) by (rule distinct_map_filter)
  ultimately show ?thesis
    using that [of ?R ?C] processBatch_healthy [OF assms(1), of cfg db stored] assms(3) by (simp add: C)
qed

text \<open>
  A healthy worker drains the table: with a positive batch size and enough iterations for the
  number of pending events, every event is published exactly once and the table is empty.
\<close>

theorem outbox_drains:
  assumes "distinct (map ob_id (outbox_rows db))" "\<forall>r \<in> set (outbox_rows db). ob_status r = ''PENDING''"
    and "\<forall>w \<in> set ws. wo_healthy w" "length (outbox_rows db) \<le> length ws * nat (batchSize cfg)"
  shows "\<exists>msgs. poll cfg ws (db, stored) = (db\<lparr>outbox_rows := []\<rparr>, stored @ msgs)
       \<and> mset msgs = mset (map row_message (outbox_rows db))"
  using assms
proof (induction ws arbitrary: db stored)
  case Nil
  then show ?case by simp
next
  case (Cons w ws)
  have "wo_healthy w" using Cons.prems(3) by simp
  from drain_step [OF this Cons.prems(1,2), of cfg stored]
  obtain C R where step: "processBatch cfg w (db, stored) = (None, db\<lparr>outbox_rows := R\<rparr>, stored @ map row_message C)"
    and ms: "mset (outbox_rows db) = mset C + mset R"
    and len: "length C = min (length (outbox_rows db)) (nat (batchSize cfg))"
    and R: "distinct (map ob_id R)" "\<forall>r \<in> set R. ob_status r = ''PENDING''" by metis
  have "length (outbox_rows db) = length C + length R" using ms by (metis size_mset size_union)
  then have "length R \<le> length ws * nat (batchSize cfg)" using len Cons.prems(4) by auto
  then obtain msgs where "poll cfg ws (db\<lparr>outbox_rows := R\<rparr>, stored @ map row_message C) =
      (db\<lparr>outbox_rows := []\<rparr>, (stored @ map row_message C) @ msgs)" "mset msgs = mset (map row_message R)"
    using Cons.IH [of "db\<lparr>outbox_rows := R\<rparr>" "stored @ map row_message C"] R Cons.prems(3) by auto
  then show ?case using step ms by (auto intro!: exI [of _ "map row_message C @ msgs"])
qed

section \<open>Refused for good\<close>

definition wo_refusing :: "worker_env \<Rightarrow> bool" where
  "wo_refusing w \<longleftrightarrow> (\<forall>c. \<not> wo_fails w c) \<and> (\<forall>i. \<not> wo_locked w i) \<and> (\<forall>i. wo_publish w i = Refused) \<and>
     wo_dies_after w = None"

lemma refused_step:
  assumes "wo_refusing w" "outbox_rows db = [r]" "ob_status r = ''PENDING''" "0 < batchSize cfg"
  obtains r' where "processBatch cfg w (db, stored) = (None, db\<lparr>outbox_rows := [r']\<rparr>, stored)"
    "ob_id r' = ob_id r" "ob_retry_count r' = ob_retry_count r + 1"
    "ob_status r' = (if ob_retry_count r \<ge> maxRetries cfg then ''FAILED'' else ''PENDING'')"
proof -
  obtain n where n: "nat (batchSize cfg) = Suc n" using assms(4) by (metis gr0_implies_Suc zero_less_nat_eq)
  have one: "mset xs = {#x#} \<Longrightarrow> xs = [x]" for xs and x :: outbox_row by (cases xs) auto
  have "outbox_order w [r] = [r]" by (rule one) simp
  then have "claim_rows cfg w db = [r]"
    using assms(1-3) n by (simp add: claim_rows_def claimable_def wo_refusing_def)
  then show ?thesis
    using assms(1,2)
    by (intro that [of "r\<lparr>ob_status := (if ob_retry_count r \<ge> maxRetries cfg then ''FAILED'' else ''PENDING''),
          ob_retry_count := ob_retry_count r + 1, ob_updated_at := wo_update_time w (ob_id r)\<rparr>"])
       (simp_all add: processBatch_def claim_def to_event_def Let_def wo_refusing_def process_events_def
          process_event_def update_outbox_def)
qed

lemma failed_row_ignored:
  assumes "outbox_rows db = [r]" "ob_status r = ''FAILED''"
  shows "snd (processBatch cfg w (db, stored)) = (db, stored)"
proof -
  have "claim_rows cfg w db = []" using set_claim_rows [of cfg w db] assms by (auto simp: claimable_def)
  then show ?thesis by (auto simp: processBatch_def claim_def process_events_def split: option.splits)
qed

lemma failed_row_poll:
  assumes "outbox_rows db = [r]" "ob_status r = ''FAILED''"
  shows "poll cfg ws (db, stored) = (db, stored)"
  using assms by (induction ws) (simp_all add: failed_row_ignored)

lemma poll_append: "poll cfg (ws @ vs) st = poll cfg vs (poll cfg ws st)"
  by (induction ws arbitrary: st) auto

lemma refused_run:
  assumes "\<forall>w \<in> set ws. wo_refusing w" "outbox_rows db = [r]" "ob_status r = ''PENDING''" "0 < batchSize cfg"
    and "ob_retry_count r + int (length ws) = maxRetries cfg + 1" "ws \<noteq> []"
  shows "\<exists>r'. poll cfg ws (db, stored) = (db\<lparr>outbox_rows := [r']\<rparr>, stored) \<and> ob_id r' = ob_id r \<and>
    ob_status r' = ''FAILED'' \<and> ob_retry_count r' = maxRetries cfg + 1"
  using assms
proof (induction ws arbitrary: db r)
  case (Cons w ws)
  have "wo_refusing w" using Cons.prems(1) by simp
  from refused_step [OF this Cons.prems(2,3,4), of stored]
  obtain r' where r': "processBatch cfg w (db, stored) = (None, db\<lparr>outbox_rows := [r']\<rparr>, stored)"
    "ob_id r' = ob_id r" "ob_retry_count r' = ob_retry_count r + 1"
    "ob_status r' = (if ob_retry_count r \<ge> maxRetries cfg then ''FAILED'' else ''PENDING'')" by metis
  show ?case
  proof (cases "ws = []")
    case True
    then show ?thesis using Cons.prems(5) r' by auto
  next
    case False
    then have "\<not> ob_retry_count r \<ge> maxRetries cfg" using Cons.prems(5) by (cases ws) auto
    then have "ob_status r' = ''PENDING''" using r'(4) by simp
    with Cons.IH [of "db\<lparr>outbox_rows := [r']\<rparr>" r'] Cons.prems False r' show ?thesis by auto
  qed
qed simp

text \<open>
  An event the broker refuses one time more than the retry limit is abandoned: its row is marked
  \<open>FAILED\<close>, and no later iteration, however healthy, touches it or stores its message, so its
  intent stays pending.
\<close>

theorem refused_event_is_abandoned:
  assumes "\<forall>w \<in> set ws. wo_refusing w" "outbox_rows db = [r]" "ob_status r = ''PENDING''"
    and "ob_retry_count r = 0" "0 < batchSize cfg" "0 \<le> maxRetries cfg" "int (length ws) = maxRetries cfg + 1"
  shows "\<exists>r'. poll cfg (ws @ later) (db, stored) = (db\<lparr>outbox_rows := [r']\<rparr>, stored)
           \<and> ob_id r' = ob_id r \<and> ob_status r' = ''FAILED''"
proof -
  have "ws \<noteq> []" using assms(6,7) by auto
  then obtain r' where "poll cfg ws (db, stored) = (db\<lparr>outbox_rows := [r']\<rparr>, stored)" "ob_id r' = ob_id r"
    "ob_status r' = ''FAILED''"
    using refused_run [OF assms(1,2,3,5), of stored] assms(4,7) by auto
  then show ?thesis using failed_row_poll [of "db\<lparr>outbox_rows := [r']\<rparr>" r'] by (auto simp: poll_append)
qed

section \<open>Instances\<close>

definition steady_worker :: "puback \<Rightarrow> worker_env" where
  "steady_worker a = \<lparr>wo_now = 0, wo_claim_time = 0, wo_update_time = (\<lambda>_. 0), wo_locked = (\<lambda>_. False),
     wo_fails = (\<lambda>_. False), wo_commit_lost = False, wo_order = (\<lambda>rs. rs), wo_publish = (\<lambda>_. a), wo_dies_after = None\<rparr>"

definition plain_event :: "string \<Rightarrow> outbox_row" where
  "plain_event i = \<lparr>ob_id = i, ob_topic = ''t'', ob_payload = i, ob_status = ''PENDING'', ob_retry_count = 0,
     ob_created_at = 0, ob_updated_at = 0\<rparr>"

definition events_db :: "string list \<Rightarrow> intent_db" where
  "events_db ids = \<lparr>intent_rows = [], outbox_rows = map plain_event ids\<rparr>"

lemma events_db_simps [simp]:
  "outbox_rows (events_db ids) = map plain_event ids" "ob_id (plain_event i) = i"
  "ob_status (plain_event i) = ''PENDING''" "ob_retry_count (plain_event i) = 0"
  "ob_topic (plain_event i) = ''t''" "ob_payload (plain_event i) = i"
  by (simp_all add: events_db_def plain_event_def)


lemma outbox_drains_witness:
  "\<exists>msgs. poll (NewWorker 0 1 0) [steady_worker Acked, steady_worker Acked] (events_db [''a'', ''b''], []) =
     (events_db [], msgs) \<and> mset msgs = {#(''t'', ''a''), (''t'', ''b'')#}"
proof -
  have "\<forall>w \<in> set [steady_worker Acked, steady_worker Acked]. wo_healthy w"
    by (simp add: wo_healthy_def steady_worker_def)
  from outbox_drains [OF _ _ this, of "events_db [''a'', ''b'']" "NewWorker 0 1 0" "[]"]
  show ?thesis by (simp add: NewWorker_def events_db_def row_message_def)
qed

lemma refused_event_is_abandoned_witness:
  "\<exists>r'. poll (NewWorker 0 0 1) ([steady_worker Refused, steady_worker Refused] @ [steady_worker Acked])
      (events_db [''a''], []) = ((events_db [''a''])\<lparr>outbox_rows := [r']\<rparr>, []) \<and> ob_id r' = ''a'' \<and> ob_status r' = ''FAILED''"
proof -
  have "\<forall>w \<in> set [steady_worker Refused, steady_worker Refused]. wo_refusing w"
    by (simp add: wo_refusing_def steady_worker_def)
  from refused_event_is_abandoned [OF this, of "events_db [''a'']" "plain_event ''a''" "NewWorker 0 0 1"
      "[steady_worker Acked]" "[]"]
  show ?thesis by (simp add: NewWorker_def)
qed

end
