(* ===== verification/Scheduler.thy ===== *)
theory Scheduler imports Outbox begin

text \<open>
  The scheduler, \<open>scheduler/main.go\<close>: the handler of one \<open>intents.submitted\<close> event over the intents
  table and the broker.  Between the handler's read of the row and its writes other services
  commit; \<open>sc_other\<close> is what they do to the database in that time.  The handler returns \<open>None\<close>
  or its error, on which the subscription acknowledges the event or asks for its redelivery.
\<close>

section \<open>Statements on the intents table\<close>

text \<open>A statement succeeds, fails, or takes effect while the client sees an error.\<close>

datatype stmt = StmtOk | StmtFailed | StmtUnseen

definition stmt_result :: "stmt \<Rightarrow> 'd \<Rightarrow> 'd \<Rightarrow> bool \<times> 'd" where
  "stmt_result o' db db' = (case o' of StmtOk \<Rightarrow> (True, db') | StmtFailed \<Rightarrow> (False, db) | StmtUnseen \<Rightarrow> (False, db'))"

definition find_intent :: "intent_db \<Rightarrow> string \<Rightarrow> intent_row option" where
  "find_intent db u = List.find (\<lambda>r. row_id r = u) (intent_rows db)"

text \<open>\<open>UPDATE intents SET status = $1, updated_at = NOW() WHERE id = $2\<close>, with or without a
  condition on the old status\<close>

definition set_status :: "string \<Rightarrow> (string \<Rightarrow> bool) \<Rightarrow> string \<Rightarrow> time \<Rightarrow> intent_db \<Rightarrow> intent_db" where
  "set_status u cond new now db =
     db\<lparr>intent_rows := map (\<lambda>r. if row_id r = u \<and> cond (row_status r)
        then r\<lparr>row_status := new, row_updated_at := now\<rparr> else r) (intent_rows db)\<rparr>"

definition rows_matching :: "string \<Rightarrow> (string \<Rightarrow> bool) \<Rightarrow> intent_db \<Rightarrow> nat" where
  "rows_matching u cond db = length (filter (\<lambda>r. row_id r = u \<and> cond (row_status r)) (intent_rows db))"

text \<open>The broker after a publication\<close>

definition publish :: "puback \<Rightarrow> message_data \<Rightarrow> message_data list \<Rightarrow> message_data list" where
  "publish a m stored = (if a = Refused then stored else stored @ [m])"

section \<open>The handler\<close>

record sched_env =
  sc_now :: time
  sc_db_now :: time
  sc_query_fails :: bool
  sc_begin_fails :: bool
  sc_expire :: stmt
  sc_update_fails :: bool
  sc_commit :: stmt
  sc_publish :: puback
  sc_other :: "intent_db \<Rightarrow> intent_db"

datatype sched_error =
    SchedUnmarshal | SchedQuery | SchedExpire | SchedBegin | SchedUpdate | SchedCommit | SchedMarshal | SchedPublish

definition task_subject :: "Intent \<Rightarrow> string" where
  "task_subject i = ''tasks.scheduled.'' @ IntentType_String (Type i)"

definition handleSubmittedIntent ::
  "codecs \<Rightarrow> sched_env \<Rightarrow> bytes \<Rightarrow> intent_db \<times> message_data list
   \<Rightarrow> sched_error option \<times> intent_db \<times> message_data list" where
  "handleSubmittedIntent c e msg st =
     (case st of (db, stored) \<Rightarrow>
      case unmarshal c msg of
        None \<Rightarrow> (Some SchedUnmarshal, db, stored)
      | Some intent \<Rightarrow>
      if sc_query_fails e then (Some SchedQuery, sc_other e db, stored)
      else case uuid_in c (Id intent) of
             None \<Rightarrow> (Some SchedQuery, sc_other e db, stored)
           | Some u \<Rightarrow>
      case find_intent db u of
        None \<Rightarrow> (None, sc_other e db, stored)
      | Some r \<Rightarrow>
      let db1 = sc_other e db; intent' = intent\<lparr>Status := INTENT_STATUS_SCHEDULED\<rparr>
      in if row_status r \<noteq> ''INTENT_STATUS_PENDING''
      then (None, db1,
            if row_status r = ''INTENT_STATUS_SCHEDULED''
            then (case marshal c intent' of
                    None \<Rightarrow> stored
                  | Some taskData \<Rightarrow> publish (sc_publish e) (task_subject intent', taskData) stored)
            else stored)
      else if (case row_deadline r of None \<Rightarrow> False | Some d \<Rightarrow> sc_now e > d)
      then (case stmt_result (sc_expire e) db1
                   (set_status u (\<lambda>_. True) ''INTENT_STATUS_FAILED'' (sc_db_now e) db1) of
              (ok, db2) \<Rightarrow> (if ok then None else Some SchedExpire, db2, stored))
      else if sc_begin_fails e then (Some SchedBegin, db1, stored)
      else if sc_update_fails e then (Some SchedUpdate, db1, stored)
      else case stmt_result (sc_commit e) db1
                  (set_status u (\<lambda>_. True) ''INTENT_STATUS_SCHEDULED'' (sc_db_now e) db1) of
             (ok, db2) \<Rightarrow>
               if \<not> ok then (Some SchedCommit, db2, stored)
               else case marshal c intent' of
                      None \<Rightarrow> (Some SchedMarshal, db2, stored)
                    | Some taskData \<Rightarrow>
                        (if sc_publish e = Acked then None else Some SchedPublish, db2,
                         publish (sc_publish e) (task_subject intent', taskData) stored))"

text \<open>
  The subscription: a list of attempts at one event.  An attempt that returns an error is negatively
  acknowledged, so the event is delivered again; the first success acknowledges it.
\<close>

fun deliver_submitted ::
  "codecs \<Rightarrow> bytes \<Rightarrow> sched_env list \<Rightarrow> intent_db \<times> message_data list \<Rightarrow> bool \<times> intent_db \<times> message_data list" where
  "deliver_submitted c msg [] st = (False, st)"
| "deliver_submitted c msg (e # es) st =
     (case handleSubmittedIntent c e msg st of
        (None, st') \<Rightarrow> (True, st')
      | (Some _, st') \<Rightarrow> deliver_submitted c msg es st')"

section \<open>What the statements do\<close>

lemma find_intent_set_status:
  "find_intent (set_status u cond new now db) v =
     map_option (\<lambda>r. if row_id r = u \<and> cond (row_status r) then r\<lparr>row_status := new, row_updated_at := now\<rparr> else r)
       (find_intent db v)"
proof -
  have "List.find (\<lambda>r. row_id r = v) (map (\<lambda>r. if row_id r = u \<and> cond (row_status r)
        then r\<lparr>row_status := new, row_updated_at := now\<rparr> else r) rs) =
     map_option (\<lambda>r. if row_id r = u \<and> cond (row_status r) then r\<lparr>row_status := new, row_updated_at := now\<rparr> else r)
       (List.find (\<lambda>r. row_id r = v) rs)" for rs
    by (induction rs) auto
  then show ?thesis by (simp add: find_intent_def set_status_def)
qed

lemma outbox_set_status [simp]: "outbox_rows (set_status u cond new now db) = outbox_rows db"
  by (simp add: set_status_def)

lemma ids_set_status [simp]: "map row_id (intent_rows (set_status u cond new now db)) = map row_id (intent_rows db)"
  by (simp add: set_status_def)

lemma find_intent_id: "find_intent db u = Some r \<Longrightarrow> row_id r = u"
  unfolding find_intent_def by (drule find_Some_set) simp

text \<open>The status of an intent, if there is one\<close>

definition status_of :: "intent_db \<Rightarrow> string \<Rightarrow> string option" where
  "status_of db u = map_option row_status (find_intent db u)"

lemma status_of_set_status:
  "status_of (set_status u cond new now db) v =
     (case status_of db v of None \<Rightarrow> None | Some s \<Rightarrow> Some (if v = u \<and> cond s then new else s))"
  by (auto simp: status_of_def find_intent_set_status dest: find_intent_id split: option.splits)

end
