(* ===== verification/SchedulerProps.thy ===== *)
theory SchedulerProps imports Scheduler HandlerProps begin

text \<open>
  What the scheduler guarantees for one intent: an acknowledged event is accounted for, an expired
  intent is never handed on, and a task reaches the broker as long as the broker does not refuse it;
  and two runs in which it does not: a task lost to an ignored refusal, and a status written over a
  newer one.
\<close>

section \<open>One event\<close>

definition expired :: "sched_env \<Rightarrow> intent_row \<Rightarrow> bool" where
  "expired e r \<longleftrightarrow> (case row_deadline r of None \<Rightarrow> False | Some d \<Rightarrow> sc_now e > d)"

text \<open>The task message of an intent is in the broker.\<close>

definition task_stored :: "codecs \<Rightarrow> Intent \<Rightarrow> message_data list \<Rightarrow> bool" where
  "task_stored c i stored \<longleftrightarrow>
     (\<exists>d. marshal c (i\<lparr>Status := INTENT_STATUS_SCHEDULED\<rparr>) = Some d \<and>
          (''tasks.scheduled.'' @ IntentType_String (Type i), d) \<in> set stored)"

lemma task_subject_status [simp]: "task_subject (i\<lparr>Status := s\<rparr>) = ''tasks.scheduled.'' @ IntentType_String (Type i)"
  by (simp add: task_subject_def)

lemma publish_Acked [simp]: "publish Acked m stored = stored @ [m]"
  by (simp add: publish_def)

text \<open>
  C22. An acknowledged event is accounted for.  When the handler returns no error and nothing else
  touched the database meanwhile, then the intent does not exist, or it had left the pending and
  scheduled states and is untouched, or it was pending and expired and is now failed with nothing
  published, or it was pending and is now scheduled and its task is in the broker, or it was
  already scheduled; only in that last case the task may be missing, when the broker refused the
  second publication or the encoder failed.
\<close>

theorem acknowledged_event_accounted:
  assumes "handleSubmittedIntent c e msg (db, stored) = (None, db', stored')" "sc_other e db = db"
    and "unmarshal c msg = Some i" "uuid_in c (Id i) = Some u"
  shows "find_intent db u = None \<and> db' = db \<and> stored' = stored
    \<or> (\<exists>r. find_intent db u = Some r \<and>
        (row_status r \<notin> {''INTENT_STATUS_PENDING'', ''INTENT_STATUS_SCHEDULED''} \<and> db' = db \<and> stored' = stored
         \<or> row_status r = ''INTENT_STATUS_PENDING'' \<and> expired e r \<and>
             status_of db' u = Some ''INTENT_STATUS_FAILED'' \<and> stored' = stored
         \<or> row_status r = ''INTENT_STATUS_PENDING'' \<and> \<not> expired e r \<and>
             status_of db' u = Some ''INTENT_STATUS_SCHEDULED'' \<and> task_stored c i stored'
         \<or> row_status r = ''INTENT_STATUS_SCHEDULED'' \<and> db' = db \<and>
             (task_stored c i stored' \<or> sc_publish e = Refused \<or>
              marshal c (i\<lparr>Status := INTENT_STATUS_SCHEDULED\<rparr>) = None)))"
proof (cases "find_intent db u")
  case None
  then show ?thesis using assms
    by (auto simp: handleSubmittedIntent_def split: if_splits)
next
  case (Some r)
  have st: "status_of db u = Some (row_status r)" using Some by (simp add: status_of_def)
  consider "row_status r \<notin> {''INTENT_STATUS_PENDING'', ''INTENT_STATUS_SCHEDULED''}"
    | "row_status r = ''INTENT_STATUS_SCHEDULED''"
    | "row_status r = ''INTENT_STATUS_PENDING''" "expired e r"
    | "row_status r = ''INTENT_STATUS_PENDING''" "\<not> expired e r" by blast
  then show ?thesis
  proof cases
    case 1
    then show ?thesis using assms Some
      by (auto simp: handleSubmittedIntent_def Let_def split: if_splits)
  next
    case 2
    then show ?thesis using assms Some
      by (auto simp: handleSubmittedIntent_def Let_def task_stored_def publish_def split: if_splits option.splits)
  next
    case 3
    then show ?thesis using assms Some st
      by (auto simp: handleSubmittedIntent_def Let_def expired_def stmt_result_def status_of_set_status
          split: if_splits option.splits stmt.splits)
  next
    case 4
    then show ?thesis using assms Some st
      by (auto simp: handleSubmittedIntent_def Let_def expired_def stmt_result_def status_of_set_status task_stored_def
          publish_def split: if_splits option.splits stmt.splits)
  qed
qed

section \<open>Delivery until acknowledged\<close>

text \<open>The broker takes every publication, though an acknowledgement may be lost; no other writer.\<close>

definition quiet :: "sched_env \<Rightarrow> bool" where
  "quiet e \<longleftrightarrow> (\<forall>db. sc_other e db = db) \<and> sc_publish e \<noteq> Refused"

lemma handle_step:
  assumes "quiet e" "unmarshal c msg = Some i" "uuid_in c (Id i) = Some u"
    and "marshal c (i\<lparr>Status := INTENT_STATUS_SCHEDULED\<rparr>) = Some d"
    and "find_intent db u = Some r" "row_status r \<in> {''INTENT_STATUS_PENDING'', ''INTENT_STATUS_SCHEDULED''}"
    and "\<not> expired e r"
    and "handleSubmittedIntent c e msg (db, stored) = (err, db', stored')"
  shows "(\<exists>r'. find_intent db' u = Some r' \<and> row_deadline r' = row_deadline r \<and>
            row_status r' \<in> {''INTENT_STATUS_PENDING'', ''INTENT_STATUS_SCHEDULED''})
       \<and> (err = None \<longrightarrow> status_of db' u = Some ''INTENT_STATUS_SCHEDULED'' \<and> task_stored c i stored')"
proof -
  have id: "sc_other e x = x" for x using assms(1) by (simp add: quiet_def)
  have ru: "row_id r = u" using find_intent_id [OF assms(5)] .
  show ?thesis
  proof (cases "row_status r = ''INTENT_STATUS_SCHEDULED''")
    case True
    then show ?thesis using assms id
      by (auto simp: handleSubmittedIntent_def Let_def task_stored_def publish_def status_of_def quiet_def
          split: if_splits)
  next
    case False
    then have p: "row_status r = ''INTENT_STATUS_PENDING''" using assms(6) by simp
    then show ?thesis using assms(1-5,7,8) id ru
      by (auto simp: handleSubmittedIntent_def Let_def task_stored_def publish_def status_of_def quiet_def
          expired_def stmt_result_def find_intent_set_status split: if_splits stmt.splits option.splits)
  qed
qed


text \<open>
  An intent that is past its deadline when the scheduler reads it is never handed on: whatever
  fails, nothing is published, and the only status it can be given is failed.
\<close>

theorem expired_intent_is_not_scheduled:
  assumes "handleSubmittedIntent c e msg (db, stored) = (err, db', stored')"
    and "unmarshal c msg = Some i" "uuid_in c (Id i) = Some u"
    and "find_intent db u = Some r" "row_status r = ''INTENT_STATUS_PENDING''" "expired e r" "sc_other e db = db"
  shows "stored' = stored \<and> (db' = db \<or> status_of db' u = Some ''INTENT_STATUS_FAILED'')"
  using assms
  by (auto simp: handleSubmittedIntent_def Let_def expired_def stmt_result_def status_of_set_status status_of_def
      find_intent_set_status dest: find_intent_id split: if_splits stmt.splits option.splits)

section \<open>Two runs that go wrong\<close>

text \<open>One transfer intent, pending, and codecs that carry the identifier\<close>

definition toy_intent :: "string \<Rightarrow> Intent" where
  "toy_intent iid = \<lparr>Id = iid, Type = INTENT_TYPE_TRANSFER, Status = INTENT_STATUS_PENDING, SubmitterId = ''alice'',
     Payload = '''', Constraints = None, Signature = '''', SubmitterPublicKey = '''', CreatedAt = None, UpdatedAt = None\<rparr>"

definition toy_codecs :: "codecs" where
  "toy_codecs = plain_codecs\<lparr>unmarshal := (\<lambda>d. Some (toy_intent d))\<rparr>"

definition row_with :: "string \<Rightarrow> intent_row" where
  "row_with s = (plain_row ''i'' 1)\<lparr>row_type := ''INTENT_TYPE_TRANSFER'', row_status := s\<rparr>"

definition sched_ok :: "puback \<Rightarrow> sched_env" where
  "sched_ok a = \<lparr>sc_now = 5, sc_db_now = 5, sc_query_fails = False, sc_begin_fails = False, sc_expire = StmtOk,
     sc_update_fails = False, sc_commit = StmtOk, sc_publish = a, sc_other = (\<lambda>db. db)\<rparr>"

lemma toy_simps [simp]:
  "unmarshal toy_codecs d = Some (toy_intent d)" "uuid_in toy_codecs x = Some x" "marshal toy_codecs i = Some (Id i)"
  "Id (toy_intent d) = d" "Type (toy_intent d) = INTENT_TYPE_TRANSFER" "row_id (row_with s) = ''i''" "row_status (row_with s) = s"
  "row_deadline (row_with s) = None"
  by (simp_all add: toy_codecs_def toy_intent_def row_with_def plain_codecs_def plain_row_def)

lemma find_rows_db [simp]: "find_intent (rows_db [r]) u = (if row_id r = u then Some r else None)"
  by (simp add: find_intent_def rows_db_def)

lemma status_of_rows_db [simp]: "status_of (rows_db [r]) u = (if row_id r = u then Some (row_status r) else None)"
  by (simp add: status_of_def)

lemma status_rows_db [simp]:
  "status_of (set_status u (\<lambda>_. True) s t (rows_db [r])) u = (if row_id r = u then Some s else None)"
  by (simp add: status_of_set_status)

text \<open>
  A task can be lost.  The first attempt commits the scheduled status and the broker refuses the
  task; the event is delivered again, the handler sees the scheduled status, publishes the task
  again, ignores that it is refused again and acknowledges the event: the intent is scheduled, no
  task exists and no event is left.
\<close>

theorem scheduled_task_is_lost:
  "\<exists>db'. deliver_submitted toy_codecs ''i'' [sched_ok Refused, sched_ok Refused]
       (rows_db [row_with ''INTENT_STATUS_PENDING''], []) = (True, db', [])
     \<and> status_of db' ''i'' = Some ''INTENT_STATUS_SCHEDULED''"
proof -
  let ?db = "rows_db [row_with ''INTENT_STATUS_PENDING'']"
  let ?db1 = "set_status ''i'' (\<lambda>_. True) ''INTENT_STATUS_SCHEDULED'' 5 ?db"
  have 1: "handleSubmittedIntent toy_codecs (sched_ok Refused) ''i'' (?db, []) = (Some SchedPublish, ?db1, [])"
    by (simp add: handleSubmittedIntent_def sched_ok_def stmt_result_def publish_def Let_def)
  have "status_of ?db1 ''i'' = Some ''INTENT_STATUS_SCHEDULED''" by simp
  then obtain r where r: "find_intent ?db1 ''i'' = Some r" "row_status r = ''INTENT_STATUS_SCHEDULED''"
    by (auto simp: status_of_def)
  then have 2: "handleSubmittedIntent toy_codecs (sched_ok Refused) ''i'' (?db1, []) = (None, ?db1, [])"
    by (simp add: handleSubmittedIntent_def sched_ok_def publish_def Let_def)
  show ?thesis by (simp add: 1 2)
qed

text \<open>
  The scheduled status is written without looking at the row again.  If between the read and the
  write another replica schedules the intent and it is executed to completion, the completed status
  is overwritten with the scheduled one and a second task is published.
\<close>

theorem completed_status_is_overwritten:
  "\<exists>db' m. handleSubmittedIntent toy_codecs
        ((sched_ok Acked)\<lparr>sc_other := set_status ''i'' (\<lambda>_. True) ''INTENT_STATUS_COMPLETED'' 4\<rparr>) ''i''
        (rows_db [row_with ''INTENT_STATUS_PENDING''], []) = (None, db', [m])
     \<and> status_of (set_status ''i'' (\<lambda>_. True) ''INTENT_STATUS_COMPLETED'' 4 (rows_db [row_with ''INTENT_STATUS_PENDING''])) ''i''
        = Some ''INTENT_STATUS_COMPLETED''
     \<and> status_of db' ''i'' = Some ''INTENT_STATUS_SCHEDULED''"
  by (simp add: handleSubmittedIntent_def sched_ok_def stmt_result_def Let_def status_of_set_status)

section \<open>Instances\<close>

lemma quiet_ok [simp]: "quiet (sched_ok Acked)" "\<not> expired (sched_ok a) (row_with s)"
  by (simp_all add: quiet_def sched_ok_def expired_def)

lemma acknowledged_event_accounted_witness:
  "\<exists>db' stored'. handleSubmittedIntent toy_codecs (sched_ok Acked) ''i''
       (rows_db [row_with ''INTENT_STATUS_PENDING''], []) = (None, db', stored')
     \<and> status_of db' ''i'' = Some ''INTENT_STATUS_SCHEDULED'' \<and> task_stored toy_codecs (toy_intent ''i'') stored'"
proof -
  let ?db = "rows_db [row_with ''INTENT_STATUS_PENDING'']"
  obtain db' stored' where h: "handleSubmittedIntent toy_codecs (sched_ok Acked) ''i'' (?db, []) = (None, db', stored')"
    by (simp add: handleSubmittedIntent_def sched_ok_def stmt_result_def Let_def)
  have "sc_other (sched_ok Acked) ?db = ?db" by (simp add: sched_ok_def)
  from acknowledged_event_accounted [OF h this, of "toy_intent ''i''" "''i''"] h show ?thesis by auto
qed


lemma expired_intent_is_not_scheduled_witness:
  "snd (snd (handleSubmittedIntent toy_codecs (sched_ok Acked) ''i''
     (rows_db [(row_with ''INTENT_STATUS_PENDING'')\<lparr>row_deadline := Some 4\<rparr>], []))) = []"
proof -
  let ?r = "(row_with ''INTENT_STATUS_PENDING'')\<lparr>row_deadline := Some 4\<rparr>"
  obtain err db' stored' where h: "handleSubmittedIntent toy_codecs (sched_ok Acked) ''i'' (rows_db [?r], []) = (err, db', stored')"
    by (cases "handleSubmittedIntent toy_codecs (sched_ok Acked) ''i'' (rows_db [?r], [])")
  have "expired (sched_ok Acked) ?r" "sc_other (sched_ok Acked) (rows_db [?r]) = rows_db [?r]"
    by (simp_all add: expired_def sched_ok_def)
  from expired_intent_is_not_scheduled [OF h, of "toy_intent ''i''" "''i''" ?r] this h show ?thesis by simp
qed

end
