(* ===== verification/Utf8.thy ===== *)
theory Utf8 imports Prelude begin

text \<open>
  UTF-8 as package \<open>unicode/utf8\<close> reads it: \<open>rune_len\<close> is the size \<open>DecodeRune\<close> reports for
  the rune at the head of a byte string, \<open>None\<close> where it reports an error (and size one), and
  \<open>rune_value\<close> and \<open>EncodeRune\<close> the code point and its encoding.
\<close>

abbreviation byte :: "char \<Rightarrow> nat" where
  "byte c \<equiv> of_char c"

definition cont :: "char \<Rightarrow> bool" where
  "cont c \<longleftrightarrow> 128 \<le> byte c \<and> byte c \<le> 191"

definition in_range :: "nat \<Rightarrow> nat \<Rightarrow> char \<Rightarrow> bool" where
  "in_range lo hi c \<longleftrightarrow> lo \<le> byte c \<and> byte c \<le> hi"

text \<open>The range of the second byte, which excludes overlong forms, surrogates and values past U+10FFFF\<close>

definition second_ok :: "nat \<Rightarrow> char \<Rightarrow> bool" where
  "second_ok b0 c =
     (if b0 = 224 then in_range 160 191 c else if b0 = 237 then in_range 128 159 c
      else if b0 = 240 then in_range 144 191 c else if b0 = 244 then in_range 128 143 c
      else cont c)"

fun rune_len :: "bytes \<Rightarrow> nat option" where
  "rune_len [] = None"
| "rune_len (a # s) =
     (let n = byte a
      in if n < 128 then Some 1
      else if 194 \<le> n \<and> n \<le> 223
      then (case s of b # _ \<Rightarrow> if cont b then Some 2 else None | _ \<Rightarrow> None)
      else if 224 \<le> n \<and> n \<le> 239
      then (case s of b # c # _ \<Rightarrow> if second_ok n b \<and> cont c then Some 3 else None | _ \<Rightarrow> None)
      else if 240 \<le> n \<and> n \<le> 244
      then (case s of b # c # d # _ \<Rightarrow> if second_ok n b \<and> cont c \<and> cont d then Some 4 else None | _ \<Rightarrow> None)
      else None)"

lemma rune_len_bounds: "rune_len s = Some n \<Longrightarrow> 0 < n \<and> n \<le> length s"
  by (cases s) (auto simp: Let_def split: if_splits list.splits)

text \<open>A byte string that is entirely valid\<close>

function valid_utf8 :: "bytes \<Rightarrow> bool" where
  "valid_utf8 s =
     (if s = [] then True
      else case rune_len s of None \<Rightarrow> False | Some n \<Rightarrow> valid_utf8 (drop n s))"
  by pat_completeness auto
termination
  by (relation "measure length") (auto dest: rune_len_bounds)

declare valid_utf8.simps [simp del]

text \<open>The encoding of a code point; what is not a Unicode scalar value becomes U+FFFD.\<close>

definition EncodeRune :: "nat \<Rightarrow> bytes" where
  "EncodeRune r =
     (if r < 128 then [char_of r]
      else if r < 2048 then [char_of (192 + r div 64), char_of (128 + r mod 64)]
      else if (55296 \<le> r \<and> r < 57344) \<or> 1114111 < r
      then [char_of (239 :: nat), char_of (191 :: nat), char_of (189 :: nat)]
      else if r < 65536
      then [char_of (224 + r div 4096), char_of (128 + r div 64 mod 64), char_of (128 + r mod 64)]
      else [char_of (240 + r div 262144), char_of (128 + r div 4096 mod 64),
            char_of (128 + r div 64 mod 64), char_of (128 + r mod 64)])"

text \<open>U+FFFD, which replaces what does not decode\<close>

definition replacement :: "bytes" where
  "replacement = EncodeRune 65533"

definition ascii :: "bytes \<Rightarrow> bool" where
  "ascii s \<longleftrightarrow> (\<forall>c \<in> set s. byte c < 128)"

lemma ascii_simps [simp]:
  "ascii []"
  "ascii (c # s) \<longleftrightarrow> byte c < 128 \<and> ascii s"
  "ascii (s @ t) \<longleftrightarrow> ascii s \<and> ascii t"
  by (auto simp: ascii_def)

lemma rune_len_ascii: "byte c < 128 \<Longrightarrow> rune_len (c # s) = Some 1"
  by simp

lemma rune_len_append: "rune_len s = Some n \<Longrightarrow> rune_len (s @ t) = Some n"
  by (cases s) (auto simp: Let_def split: if_splits list.splits)

lemma valid_utf8_Nil [simp]: "valid_utf8 []"
  by (simp add: valid_utf8.simps)

lemma valid_utf8_step: "rune_len s = Some n \<Longrightarrow> valid_utf8 s \<longleftrightarrow> valid_utf8 (drop n s)"
  by (subst valid_utf8.simps) (auto dest: rune_len_bounds)

lemma valid_utf8_ascii_Cons [simp]: "byte c < 128 \<Longrightarrow> valid_utf8 (c # s) \<longleftrightarrow> valid_utf8 s"
  using valid_utf8_step [of "c # s" 1] by simp

lemma ascii_valid: "ascii s \<Longrightarrow> valid_utf8 s"
  by (induction s) simp_all

lemma valid_utf8_rune: "valid_utf8 s \<Longrightarrow> s \<noteq> [] \<Longrightarrow> \<exists>n. rune_len s = Some n"
  by (subst (asm) valid_utf8.simps) (auto split: option.splits)

text \<open>Induction over the runes of a valid string\<close>

lemma valid_utf8_induct [consumes 1, case_names Nil Rune]:
  assumes "valid_utf8 s" "P []"
    and "\<And>s n. s \<noteq> [] \<Longrightarrow> rune_len s = Some n \<Longrightarrow> valid_utf8 (drop n s) \<Longrightarrow> P (drop n s) \<Longrightarrow> P s"
  shows "P s"
  using assms(1)
proof (induction s rule: length_induct)
  case (1 s)
  show ?case
  proof (cases "s = []")
    case False
    then obtain n where n: "rune_len s = Some n" using 1(2) valid_utf8_rune by blast
    then have "valid_utf8 (drop n s)" "length (drop n s) < length s"
      using 1(2) valid_utf8_step rune_len_bounds [OF n] False by auto
    with 1(1) n False show ?thesis by (intro assms(3) [of s n]) auto
  qed (simp add: assms(2))
qed

end
