(* ===== verification/Json.thy ===== *)
theory Json imports Utf8 begin

text \<open>
  \<open>encoding/json\<close> as the services use it: the scanner and the unquoting of \<open>Unmarshal\<close>, the
  decoding into structs of strings, integers, floats, booleans and pointers to structs, and the
  encoding of \<open>Marshal\<close> and \<open>Encoder\<close>, which escape HTML characters.  Text goes to \<open>json\<close>,
  where a number keeps its literal and a string its decoded bytes; an error anywhere is \<open>None\<close>,
  since no caller looks at which error it was.
\<close>

datatype json =
    JNull | JBool bool | JNumber bytes | JString bytes | JArray "json list" | JObject "(bytes \<times> json) list"

section \<open>Strings\<close>

definition is_space :: "char \<Rightarrow> bool" where
  "is_space c \<longleftrightarrow> byte c = 32 \<or> byte c = 9 \<or> byte c = 13 \<or> byte c = 10"

fun skip_ws :: "bytes \<Rightarrow> bytes" where
  "skip_ws [] = []"
| "skip_ws (c # s) = (if is_space c then skip_ws s else c # s)"

definition hex_nibble :: "char \<Rightarrow> nat option" where
  "hex_nibble c =
     (let n = byte c
      in if 48 \<le> n \<and> n \<le> 57 then Some (n - 48)
         else if 97 \<le> n \<and> n \<le> 102 then Some (n - 87)
         else if 65 \<le> n \<and> n \<le> 70 then Some (n - 55)
         else None)"

text \<open>The four hexadecimal digits of a \<open>\u\<close> escape\<close>

definition hex4 :: "bytes \<Rightarrow> nat option" where
  "hex4 s =
     (case map hex_nibble (take 4 s) of
        [Some a, Some b, Some c, Some d] \<Rightarrow> Some (4096 * a + 256 * b + 16 * c + d)
      | _ \<Rightarrow> None)"

text \<open>The characters a backslash may precede, other than \<open>u\<close>\<close>

definition simple_escape :: "char \<Rightarrow> char option" where
  "simple_escape c =
     (let n = byte c
      in if n = 34 \<or> n = 92 \<or> n = 47 then Some c
         else if n = 98 then Some (char_of (8 :: nat)) else if n = 102 then Some (char_of (12 :: nat))
         else if n = 110 then Some (char_of (10 :: nat)) else if n = 114 then Some (char_of (13 :: nat))
         else if n = 116 then Some (char_of (9 :: nat)) else None)"

definition is_surrogate :: "nat \<Rightarrow> bool" where
  "is_surrogate r \<longleftrightarrow> 55296 \<le> r \<and> r < 57344"

text \<open>
  The second half of a surrogate pair, which must be written as an escape too: its value with the
  first half \<open>r\<close>, when the pair is one.
\<close>

definition low_surrogate :: "nat \<Rightarrow> bytes \<Rightarrow> nat option" where
  "low_surrogate r s =
     (if take 2 s = [char_of (92 :: nat), CHR ''u'']
      then case hex4 (drop 2 s) of
             None \<Rightarrow> None
           | Some r1 \<Rightarrow>
               if 55296 \<le> r \<and> r < 56320 \<and> 56320 \<le> r1 \<and> r1 < 57344
               then Some (65536 + (r - 55296) * 1024 + (r1 - 56320)) else None
      else None)"

text \<open>
  The contents of a string after its opening quote: the decoded bytes and what follows the closing
  quote.  The first argument bounds the number of steps; the length of the text is enough.
\<close>

fun unquote :: "nat \<Rightarrow> bytes \<Rightarrow> (bytes \<times> bytes) option" where
  "unquote 0 s = None"
| "unquote (Suc n) [] = None"
| "unquote (Suc n) (c # s) =
     (if byte c = 34 then Some ([], s)
      else if byte c < 32 then None
      else if byte c = 92
      then (case s of
              [] \<Rightarrow> None
            | e # t \<Rightarrow>
                if e = CHR ''u''
                then (case hex4 t of
                        None \<Rightarrow> None
                      | Some r \<Rightarrow>
                          let t' = drop 4 t
                          in if is_surrogate r
                             then (case low_surrogate r t' of
                                     Some v \<Rightarrow> map_option (map_prod ((@) (EncodeRune v)) id) (unquote n (drop 6 t'))
                                   | None \<Rightarrow> map_option (map_prod ((@) replacement) id) (unquote n t'))
                             else map_option (map_prod ((@) (EncodeRune r)) id) (unquote n t'))
                else (case simple_escape e of
                        None \<Rightarrow> None
                      | Some b \<Rightarrow> map_option (map_prod ((#) b) id) (unquote n t)))
      else case rune_len (c # s) of
             Some k \<Rightarrow> map_option (map_prod ((@) (take k (c # s))) id) (unquote n (drop k (c # s)))
           | None \<Rightarrow> map_option (map_prod ((@) replacement) id) (unquote n s))"

section \<open>Values\<close>

text \<open>
  A number literal: the literal and the rest.  After a leading zero no further digit belongs to it.
\<close>

definition span_digits :: "bytes \<Rightarrow> bytes \<times> bytes" where
  "span_digits s = (takeWhile is_digit s, dropWhile is_digit s)"

definition number_lit :: "bytes \<Rightarrow> (bytes \<times> bytes) option" where
  "number_lit s0 =
     (let (sign, s1) = (case s0 of c # r \<Rightarrow> if c = CHR ''-'' then ([c], r) else ([], s0) | [] \<Rightarrow> ([], s0));
          (ds, s2) = span_digits s1
      in if ds = [] then None
      else let (int, s2) = (if hd ds = CHR ''0'' then ([CHR ''0''], tl ds @ s2) else (ds, s2))
      in case (case s2 of
                 c # r \<Rightarrow> if c = CHR ''.''
                          then (case span_digits r of (fs, s3) \<Rightarrow> if fs = [] then None else Some (c # fs, s3))
                          else Some ([], s2)
               | [] \<Rightarrow> Some ([], s2)) of
           None \<Rightarrow> None
         | Some (frac, s3) \<Rightarrow>
             (case s3 of
                c # r \<Rightarrow>
                  if c = CHR ''e'' \<or> c = CHR ''E''
                  then let (sg, r') = (case r of d # r2 \<Rightarrow> if d = CHR ''+'' \<or> d = CHR ''-'' then ([d], r2) else ([], r)
                                       | [] \<Rightarrow> ([], r));
                           (es, s4) = span_digits r'
                       in if es = [] then None else Some (sign @ int @ frac @ c # sg @ es, s4)
                  else Some (sign @ int @ frac, s3)
              | [] \<Rightarrow> Some (sign @ int @ frac, s3)))"

definition max_depth :: "nat" where
  "max_depth = 10000"

text \<open>
  The recursive descent over a text.  The first argument bounds the number of calls, the second
  counts the arrays and objects that are open.
\<close>

fun parse_value :: "nat \<Rightarrow> nat \<Rightarrow> bytes \<Rightarrow> (json \<times> bytes) option"
  and parse_elems :: "nat \<Rightarrow> nat \<Rightarrow> bytes \<Rightarrow> (json list \<times> bytes) option"
  and parse_members :: "nat \<Rightarrow> nat \<Rightarrow> bytes \<Rightarrow> ((bytes \<times> json) list \<times> bytes) option" where
  "parse_value 0 d s = None"
| "parse_value (Suc n) d s =
     (case skip_ws s of
        [] \<Rightarrow> None
      | c # r \<Rightarrow>
          if c = CHR ''{''
          then if d \<ge> max_depth then None
               else (case skip_ws r of
                       [] \<Rightarrow> None
                     | c' # r' \<Rightarrow> if c' = CHR ''}'' then Some (JObject [], r')
                                  else map_option (map_prod JObject id) (parse_members n (Suc d) r))
          else if c = CHR ''[''
          then if d \<ge> max_depth then None
               else (case skip_ws r of
                       [] \<Rightarrow> None
                     | c' # r' \<Rightarrow> if c' = CHR '']'' then Some (JArray [], r')
                                  else map_option (map_prod JArray id) (parse_elems n (Suc d) r))
          else if byte c = 34 then map_option (map_prod JString id) (unquote (length r) r)
          else if take 4 (c # r) = ''true'' then Some (JBool True, drop 4 (c # r))
          else if take 5 (c # r) = ''false'' then Some (JBool False, drop 5 (c # r))
          else if take 4 (c # r) = ''null'' then Some (JNull, drop 4 (c # r))
          else map_option (map_prod JNumber id) (number_lit (c # r)))"
| "parse_elems 0 d s = None"
| "parse_elems (Suc n) d s =
     (case parse_value n d s of
        None \<Rightarrow> None
      | Some (v, r) \<Rightarrow>
          (case skip_ws r of
             [] \<Rightarrow> None
           | c # r' \<Rightarrow>
               if c = CHR '','' then map_option (map_prod ((#) v) id) (parse_elems n d r')
               else if c = CHR '']'' then Some ([v], r') else None))"
| "parse_members 0 d s = None"
| "parse_members (Suc n) d s =
     (case skip_ws s of
        [] \<Rightarrow> None
      | q # s1 \<Rightarrow>
          if byte q \<noteq> 34 then None
          else case unquote (length s1) s1 of
                 None \<Rightarrow> None
               | Some (key, s2) \<Rightarrow>
                   (case skip_ws s2 of
                      [] \<Rightarrow> None
                    | col # s3 \<Rightarrow>
                        if col \<noteq> CHR '':'' then None
                        else case parse_value n d s3 of
                               None \<Rightarrow> None
                             | Some (v, r) \<Rightarrow>
                                 (case skip_ws r of
                                    [] \<Rightarrow> None
                                  | c # r' \<Rightarrow>
                                      if c = CHR '','' then map_option (map_prod ((#) (key, v)) id) (parse_members n d r')
                                      else if c = CHR ''}'' then Some ([(key, v)], r') else None)))"

text \<open>A whole text: one value and white space around it (\<open>Unmarshal\<close>), or a value with anything
  after it (\<open>Decoder.Decode\<close>)\<close>

definition json_prefix :: "bytes \<Rightarrow> (json \<times> bytes) option" where
  "json_prefix s = parse_value (2 * length s + 2) 0 s"

definition json_parse :: "bytes \<Rightarrow> json option" where
  "json_parse s =
     (case json_prefix s of
        None \<Rightarrow> None
      | Some (v, r) \<Rightarrow> if skip_ws r = [] then Some v else None)"

end
