(* ===== verification/JsonCodec.thy ===== *)
theory JsonCodec imports Json Float64 begin

text \<open>
  The encoder of \<open>encoding/json\<close>, the decoding of values into Go's types and into structs, and the
  round trip of flat objects, on which the ledger, the session tokens and the HTTP interface rest.
\<close>

section \<open>Encoding\<close>

definition hex_low :: "nat \<Rightarrow> char" where
  "hex_low n = (if n < 10 then char_of (48 + n) else char_of (87 + n))"

definition backslash :: "char" where
  "backslash = char_of (92 :: nat)"

definition dquote :: "char" where
  "dquote = char_of (34 :: nat)"

text \<open>An ASCII character inside a string, with the HTML characters escaped\<close>

definition escape_ascii :: "char \<Rightarrow> bytes" where
  "escape_ascii c =
     (let n = byte c
      in if n = 34 \<or> n = 92 then [backslash, c]
         else if n = 8 then [backslash, CHR ''b''] else if n = 12 then [backslash, CHR ''f'']
         else if n = 10 then [backslash, CHR ''n''] else if n = 13 then [backslash, CHR ''r'']
         else if n = 9 then [backslash, CHR ''t'']
         else if n < 32 \<or> n = 60 \<or> n = 62 \<or> n = 38
         then backslash # ''u00'' @ [hex_low (n div 16), hex_low (n mod 16)]
         else [c])"

function quote_body :: "bytes \<Rightarrow> bytes" where
  "quote_body [] = []"
| "quote_body (c # t) =
     (if byte c < 128 then escape_ascii c @ quote_body t
      else case rune_len (c # t) of
             None \<Rightarrow> backslash # ''ufffd'' @ quote_body t
           | Some n \<Rightarrow>
               let r = take n (c # t)
               in (if r = EncodeRune 8232 then backslash # ''u2028''
                   else if r = EncodeRune 8233 then backslash # ''u2029'' else r)
                  @ quote_body (drop n (c # t)))"
  by pat_completeness auto
termination
  by (relation "measure length") (auto simp del: rune_len.simps dest: rune_len_bounds)

definition quote :: "bytes \<Rightarrow> bytes" where
  "quote s = dquote # quote_body s @ [dquote]"

fun separated :: "bytes list \<Rightarrow> bytes" where
  "separated [] = []"
| "separated [x] = x"
| "separated (x # y # xs) = x @ '','' @ separated (y # xs)"

fun jenc :: "json \<Rightarrow> bytes" where
  "jenc JNull = ''null''"
| "jenc (JBool b) = (if b then ''true'' else ''false'')"
| "jenc (JNumber lit) = lit"
| "jenc (JString s) = quote s"
| "jenc (JArray vs) = ''['' @ separated (map jenc vs) @ '']''"
| "jenc (JObject kvs) = ''{'' @ separated (map (\<lambda>(k, v). quote k @ '':'' @ jenc v) kvs) @ ''}''"

text \<open>\<open>json.NewEncoder(w).Encode\<close> ends the value with a newline.\<close>

definition jencode_line :: "json \<Rightarrow> bytes" where
  "jencode_line v = jenc v @ [char_of (10 :: nat)]"

lemma dquote_neq: "byte c \<noteq> 34 \<Longrightarrow> dquote \<noteq> c"
  by (auto simp: dquote_def)

lemma dquote_simps [simp]:
  "byte dquote = 34" "\<not> is_space dquote" "dquote \<noteq> CHR ''{''" "dquote \<noteq> CHR ''[''"
  "dquote \<noteq> CHR ''}''" "dquote \<noteq> CHR '']''" "dquote \<noteq> CHR '',''"
  by (simp_all add: dquote_neq) (simp_all add: dquote_def is_space_def)

section \<open>Strings read back\<close>

lemma hex_nibble_low [simp]: "n < 16 \<Longrightarrow> hex_nibble (hex_low n) = Some n"
  by (auto simp: hex_nibble_def hex_low_def Let_def)

lemma unquote_u00:
  assumes "a < 8" "b < 16" "unquote n t = Some (s, r)"
  shows "unquote (Suc n) (backslash # ''u00'' @ [hex_low a, hex_low b] @ t) = Some (char_of (16 * a + b) # s, r)"
proof -
  have "hex4 (''00'' @ [hex_low a, hex_low b] @ t) = Some (16 * a + b)"
    using assms by (simp add: hex4_def numeral_eq_Suc hex_nibble_def [of "CHR ''0''"])
  moreover have "\<not> is_surrogate (16 * a + b)" "EncodeRune (16 * a + b) = [char_of (16 * a + b)]"
    using assms(1,2) by (simp_all add: is_surrogate_def EncodeRune_def)
  ultimately show ?thesis using assms(3) by (simp add: backslash_def Let_def)
qed

lemma unquote_escape_ascii:
  assumes "byte c < 128" "unquote n t = Some (s, r)"
  shows "unquote (Suc n) (escape_ascii c @ t) = Some (c # s, r)"
proof -
  have c: "char_of (byte c) = c" by simp
  consider "byte c \<in> {34, 92}" | "byte c = 8" | "byte c = 12" | "byte c = 10" | "byte c = 13" | "byte c = 9"
    | "byte c \<notin> {34, 92, 8, 12, 10, 13, 9}" "byte c < 32 \<or> byte c = 60 \<or> byte c = 62 \<or> byte c = 38"
    | "byte c \<notin> {34, 92, 8, 12, 10, 13, 9}" "32 \<le> byte c" "byte c \<notin> {60, 62, 38}" by force
  then show ?thesis
  proof cases
    case 7
    have "escape_ascii c @ t = backslash # ''u00'' @ [hex_low (byte c div 16), hex_low (byte c mod 16)] @ t"
      using 7 by (simp add: escape_ascii_def Let_def)
    moreover have "byte c div 16 < 8" "byte c mod 16 < 16" using assms(1) by auto
    ultimately show ?thesis using unquote_u00 [of "byte c div 16" "byte c mod 16" n t s r] assms(2) c by simp
  next
    case 8
    then show ?thesis using assms by (auto simp: escape_ascii_def Let_def)
  qed (use assms c in \<open>auto simp: escape_ascii_def Let_def backslash_def simple_escape_def\<close>)
qed

lemma rune_len_take:
  assumes "rune_len s = Some k"
  shows "rune_len (take k s @ x) = Some k"
proof -
  have "take k s = take k (take k s)" "k \<le> length s" using rune_len_bounds [OF assms] by simp_all
  moreover have "rune_len s = Some k \<Longrightarrow> rune_len (take k s) = Some k"
  proof (induction s rule: rune_len.induct)
    case (2 a s)
    consider "byte a < 128" | "128 \<le> byte a" "byte a \<le> 223" | "224 \<le> byte a" "byte a \<le> 239"
      | "240 \<le> byte a" "byte a \<le> 244" | "244 < byte a" by linarith
    then show ?case
    proof cases
      case 2
      with \<open>rune_len (a # s) = Some k\<close> show ?thesis by (cases s) (auto simp: Let_def split: if_splits)
    next
      case 3
      with \<open>rune_len (a # s) = Some k\<close> show ?thesis
        by (cases s; cases "tl s") (auto simp: Let_def split: if_splits)
    next
      case 4
      with \<open>rune_len (a # s) = Some k\<close> show ?thesis
        by (cases s; cases "tl s"; cases "tl (tl s)") (auto simp: Let_def split: if_splits)
    qed (use \<open>rune_len (a # s) = Some k\<close> in auto)
  qed simp
  ultimately show ?thesis using assms rune_len_append [of "take k s" k x] by simp
qed

lemma quote_body_rune:
  assumes "rune_len s = Some k" "s \<noteq> []" "128 \<le> byte (hd s)"
  shows "quote_body s =
    (if take k s = EncodeRune 8232 then backslash # ''u2028''
     else if take k s = EncodeRune 8233 then backslash # ''u2029'' else take k s) @ quote_body (drop k s)"
  using assms by (cases s) (simp_all add: Let_def del: rune_len.simps)

lemma rune_not_ascii:
  assumes "rune_len s = Some k" "s \<noteq> []" "byte (hd s) < 128"
  shows "k = 1"
  using assms by (cases s) simp_all

lemma unquote_u2028:
  assumes t: "unquote n t = Some (s, r)"
  shows "unquote (Suc n) ((backslash # ''u2028'') @ t) = Some (EncodeRune 8232 @ s, r)"
    and "unquote (Suc n) ((backslash # ''u2029'') @ t) = Some (EncodeRune 8233 @ s, r)"
proof -
  have h: "hex4 (CHR ''2'' # CHR ''0'' # CHR ''2'' # CHR ''8'' # t) = Some 8232"
    "hex4 (CHR ''2'' # CHR ''0'' # CHR ''2'' # CHR ''9'' # t) = Some 8233"
    by (simp_all add: hex4_def hex_nibble_def Let_def)
  show "unquote (Suc n) ((backslash # ''u2028'') @ t) = Some (EncodeRune 8232 @ s, r)"
    "unquote (Suc n) ((backslash # ''u2029'') @ t) = Some (EncodeRune 8233 @ s, r)"
    using t by (simp_all add: backslash_def h is_surrogate_def)
qed

lemma unquote_raw_rune:
  assumes "rune_len x = Some k" "128 \<le> byte (hd x)" "unquote n t = Some (s, r)"
  shows "unquote (Suc n) (take k x @ t) = Some (take k x @ s, r)"
proof -
  have k: "0 < k" "k \<le> length x" using rune_len_bounds [OF assms(1)] by simp_all
  then obtain c u where cu: "take k x = c # u" "x \<noteq> []" by (cases x; cases k) auto
  then have "byte c = byte (hd x)" by (cases x; cases k) auto
  then have c: "128 \<le> byte c" using assms(2) by simp
  have len: "rune_len (c # u @ t) = Some k" using rune_len_take [OF assms(1), of t] cu(1) by simp
  have lk: "length (c # u) = k" using cu(1) k by (metis length_take min.absorb2)
  then have "take k (c # u @ t) = c # u" "drop k (c # u @ t) = t" by auto
  then have "unquote (Suc n) (c # u @ t) = Some ((c # u) @ s, r)"
    using c len assms(3) by (simp del: rune_len.simps)
  then show ?thesis using cu(1) by simp
qed

lemma escape_ascii_nonempty [simp]: "0 < length (escape_ascii c)"
  by (simp add: escape_ascii_def Let_def)

lemma unquote_quote_body:
  "valid_utf8 s \<Longrightarrow> length (quote_body s) < n \<Longrightarrow> unquote n (quote_body s @ dquote # r) = Some (s, r)"
proof (induction s arbitrary: n rule: valid_utf8_induct)
  case Nil
  then show ?case by (cases n) (simp_all add: dquote_def)
next
  case (Rune s k)
  obtain m where m: "n = Suc m" using Rune.prems by (cases n) auto
  obtain c t where s: "s = c # t" using Rune.hyps(1) by (cases s) auto
  show ?case
  proof (cases "byte c < 128")
    case True
    then have k: "k = 1" using rune_not_ascii [OF Rune.hyps(2)] s by simp
    have "length (quote_body s) = length (escape_ascii c) + length (quote_body t)" using True s by simp
    then have "length (quote_body t) < m" using Rune.prems m escape_ascii_nonempty [of c] by linarith
    then have "unquote m (quote_body t @ dquote # r) = Some (t, r)" using Rune.IH k s by simp
    from unquote_escape_ascii [OF True this] show ?thesis using True by (simp add: s m)
  next
    case False
    then have hd: "128 \<le> byte (hd s)" using s by simp
    let ?d = "drop k s" and ?h = "take k s"
    have q: "quote_body s = (if ?h = EncodeRune 8232 then backslash # ''u2028''
       else if ?h = EncodeRune 8233 then backslash # ''u2029'' else ?h) @ quote_body ?d"
      by (rule quote_body_rune [OF Rune.hyps(2) Rune.hyps(1) hd])
    have "length (quote_body ?d) < m"
      using Rune.prems rune_len_bounds [OF Rune.hyps(2)] unfolding q m by (auto split: if_splits)
    then have rec: "unquote m (quote_body ?d @ dquote # r) = Some (?d, r)" by (rule Rune.IH)
    have app: "?h @ ?d = s" by simp
    show ?thesis
      using unquote_u2028 [OF rec] unquote_raw_rune [OF Rune.hyps(2) hd rec] app
      unfolding q m by (auto simp del: unquote.simps append_take_drop_id)
  qed
qed

section \<open>Flat values read back\<close>

text \<open>A value whose encoding is one token\<close>

fun flat :: "json \<Rightarrow> bool" where
  "flat JNull = True"
| "flat (JBool b) = True"
| "flat (JNumber lit) = (\<exists>i. lit = int_dec i)"
| "flat (JString s) = valid_utf8 s"
| "flat (JArray vs) = False"
| "flat (JObject kvs) = False"

text \<open>A character that ends a token\<close>

definition delimiter :: "char \<Rightarrow> bool" where
  "delimiter c \<longleftrightarrow> c = CHR '','' \<or> c = CHR ''}''"

lemma delimiter_not_number: "delimiter c \<Longrightarrow> \<not> is_digit c \<and> c \<noteq> CHR ''.'' \<and> c \<noteq> CHR ''e'' \<and> c \<noteq> CHR ''E''"
  by (auto simp: delimiter_def is_digit_def)

lemma span_nat_dec:
  "\<not> is_digit c \<Longrightarrow> span_digits (nat_dec n @ c # r) = (nat_dec n, c # r)"
  unfolding span_digits_def using nat_dec_digits [of _ n] by simp

lemma nat_dec_no_leading_zero: "hd (nat_dec n) = CHR ''0'' \<Longrightarrow> n = 0"
proof (induction n rule: nat_dec.induct)
  case (1 n)
  show ?case
  proof (cases "n < 10")
    case True
    then have "digit_char n = CHR ''0''" using 1(2) by (simp add: nat_dec.simps [of n])
    then have "digit_val (digit_char n) = 0" by (simp add: digit_val_def)
    with True show ?thesis by simp
  next
    case False
    then have "hd (nat_dec (n div 10)) = CHR ''0''" using 1(2) by (simp add: nat_dec.simps [of n])
    then have "n div 10 = 0" using 1(1) False by simp
    with False show ?thesis by simp
  qed
qed

lemma nat_dec_0: "nat_dec 0 = ''0''"
  by code_simp

lemma number_lit_int_dec:
  assumes "delimiter c"
  shows "number_lit (int_dec i @ c # r) = Some (int_dec i, c # r)"
proof -
  have c: "\<not> is_digit c" "c \<noteq> CHR ''.''" "c \<noteq> CHR ''e''" "c \<noteq> CHR ''E''"
    using delimiter_not_number [OF assms] by simp_all
  have sign: "hd (nat_dec n) \<noteq> CHR ''-''" for n
    using nat_dec_digits [of "hd (nat_dec n)" n] by (auto simp: is_digit_def)
  have pos: "number_lit (nat_dec n @ c # r) = Some (nat_dec n, c # r)" for n
    using sign [of n] c span_nat_dec [OF c(1), of n r] nat_dec_no_leading_zero [of n] nat_dec_0
    by (cases "nat_dec n") (auto simp: number_lit_def Let_def)
  have neg: "number_lit (CHR ''-'' # nat_dec n @ c # r) = Some (CHR ''-'' # nat_dec n, c # r)" for n
    using c span_nat_dec [OF c(1), of n r] nat_dec_no_leading_zero [of n] nat_dec_0
    by (cases "nat_dec n") (auto simp: number_lit_def Let_def)
  show ?thesis using pos neg by (simp add: int_dec_def)
qed

lemma int_dec_head_token:
  obtains c t where "int_dec i = c # t" "c = CHR ''-'' \<or> is_digit c"
proof -
  obtain c t where "nat_dec (nat i) = c # t" by (cases "nat_dec (nat i)") simp_all
  moreover have "is_digit c" if "nat_dec (nat i) = c # t" for c t
    using nat_dec_digits [of c "nat i"] that by simp
  ultimately show ?thesis using that by (cases "i < 0") (auto simp: int_dec_def)
qed

lemma digit_not_token:
  assumes "is_digit c"
  shows "\<not> is_space c" "byte c \<noteq> 34" "c \<noteq> CHR ''{''" "c \<noteq> CHR ''[''" "c \<noteq> CHR ''t''" "c \<noteq> CHR ''f''" "c \<noteq> CHR ''n''"
  using assms by (auto simp: is_digit_def is_space_def)

lemma parse_flat:
  assumes "flat v" "delimiter c"
  shows "parse_value (Suc n) d (jenc v @ c # r) = Some (v, c # r)"
proof (cases v)
  case (JNumber lit)
  then obtain i where i: "lit = int_dec i" using assms(1) by auto
  obtain h t where h: "int_dec i = h # t" "h = CHR ''-'' \<or> is_digit h" by (rule int_dec_head_token)
  have "number_lit (int_dec i @ c # r) = Some (int_dec i, c # r)" using assms(2) by (rule number_lit_int_dec)
  moreover have "\<not> is_space h" "h \<noteq> CHR ''{''" "h \<noteq> CHR ''[''" "byte h \<noteq> 34" "h \<noteq> CHR ''t''"
    "h \<noteq> CHR ''f''" "h \<noteq> CHR ''n''"
    using h(2) digit_not_token [of h] by (auto simp: is_space_def)
  ultimately show ?thesis unfolding JNumber i h(1) by simp
next
  case (JString s)
  have "unquote (length (quote_body s @ dquote # c # r)) (quote_body s @ dquote # c # r) = Some (s, c # r)"
    using assms(1) JString by (intro unquote_quote_body) simp_all
  then show ?thesis unfolding JString by (simp add: quote_def)
next
  case (JBool b)
  then show ?thesis by (cases b) (simp_all add: is_space_def)
next
  case JNull
  then show ?thesis by (simp add: is_space_def)
qed (use assms in simp_all)

definition member :: "bytes \<times> json \<Rightarrow> bytes" where
  "member kv = quote (fst kv) @ '':'' @ jenc (snd kv)"

lemma jenc_object: "jenc (JObject kvs) = ''{'' @ separated (map member kvs) @ ''}''"
proof -
  have "(\<lambda>(k, v). quote k @ '':'' @ jenc v) = member" by (auto simp: member_def fun_eq_iff)
  then show ?thesis by simp
qed

lemma parse_member:
  assumes "valid_utf8 k" "flat v" "delimiter c"
  shows "parse_members (Suc (Suc n)) d (member (k, v) @ c # r) =
    (if c = CHR '','' then map_option (map_prod ((#) (k, v)) id) (parse_members (Suc n) d r) else Some ([(k, v)], r))"
proof -
  let ?t = "quote_body k @ dquote # '':'' @ jenc v @ c # r"
  have q: "unquote (length ?t) ?t = Some (k, '':'' @ jenc v @ c # r)"
    using assms(1) by (intro unquote_quote_body) simp_all
  have v: "parse_value (Suc n) d (jenc v @ c # r) = Some (v, c # r)" using assms(2,3) by (rule parse_flat)
  have m: "member (k, v) @ c # r = dquote # ?t" by (simp add: member_def quote_def)
  have sp: "\<not> is_space c" using assms(3) by (auto simp: is_space_def delimiter_def)
  show ?thesis
    unfolding m using q v sp assms(3)
    by (auto simp: is_space_def delimiter_def simp del: parse_value.simps unquote.simps)
qed

lemma parse_separated:
  assumes "kvs \<noteq> []" "\<forall>(k, v) \<in> set kvs. valid_utf8 k \<and> flat v" "length kvs < n"
  shows "parse_members n d (separated (map member kvs) @ CHR ''}'' # r) = Some (kvs, r)"
  using assms
proof (induction kvs arbitrary: n)
  case (Cons kv kvs)
  obtain k v where kv: "kv = (k, v)" "valid_utf8 k" "flat v" using Cons.prems by (cases kv) auto
  obtain m where m: "n = Suc (Suc m)" using Cons.prems(3) by (cases n; cases "n - 1") auto
  show ?case
  proof (cases "kvs = []")
    case True
    then show ?thesis
      using parse_member [OF kv(2,3), of "CHR ''}''" m d r] by (simp add: m kv(1) delimiter_def del: parse_members.simps)
  next
    case False
    then have rec: "parse_members (Suc m) d (separated (map member kvs) @ CHR ''}'' # r) = Some (kvs, r)"
      using Cons.IH [of "Suc m"] Cons.prems m by simp
    have "separated (map member (kv # kvs)) @ CHR ''}'' # r
        = member (k, v) @ CHR '','' # separated (map member kvs) @ CHR ''}'' # r"
      using False by (cases kvs) (simp_all add: kv(1))
    then show ?thesis
      using parse_member [OF kv(2,3), of "CHR '',''" m d "separated (map member kvs) @ CHR ''}'' # r"] rec
      by (simp add: m kv(1) delimiter_def del: parse_members.simps)
  qed
qed simp

lemma length_separated: "length kvs \<le> length (separated (map member kvs))"
proof (induction kvs rule: induct_list012)
  case (2 kv)
  then show ?case by (simp add: member_def)
next
  case (3 a b kvs)
  then show ?case by (simp add: member_def)
qed simp

text \<open>The round trip of a flat object, with anything after it\<close>

lemma parse_value_object:
  assumes "kvs \<noteq> []" "\<forall>(k, v) \<in> set kvs. valid_utf8 k \<and> flat v" "length kvs < n" "d < max_depth"
  shows "parse_value (Suc n) d (jenc (JObject kvs) @ r) = Some (JObject kvs, r)"
proof -
  let ?b = "separated (map member kvs)"
  have m: "parse_members n (Suc d) (?b @ CHR ''}'' # r) = Some (kvs, r)" by (rule parse_separated [OF assms(1-3)])
  obtain k kvs' where "kvs = k # kvs'" using assms(1) by (cases kvs) auto
  then obtain t where q: "?b @ CHR ''}'' # r = dquote # t" by (cases kvs') (auto simp: member_def quote_def)
  have s: "jenc (JObject kvs) @ r = CHR ''{'' # ?b @ CHR ''}'' # r" unfolding jenc_object by simp
  show ?thesis unfolding s using m assms(4) unfolding q by (simp add: is_space_def)
qed

lemma json_prefix_object:
  assumes "kvs \<noteq> []" "\<forall>(k, v) \<in> set kvs. valid_utf8 k \<and> flat v"
  shows "json_prefix (jenc (JObject kvs) @ r) = Some (JObject kvs, r)"
proof -
  let ?s = "jenc (JObject kvs) @ r"
  have "length kvs < 2 * length ?s + 1" using length_separated [of kvs] unfolding jenc_object by simp
  then have "parse_value (Suc (2 * length ?s + 1)) 0 ?s = Some (JObject kvs, r)"
    by (rule parse_value_object [OF assms]) (simp add: max_depth_def)
  then show ?thesis unfolding json_prefix_def by (simp del: jenc.simps parse_value.simps)
qed

lemma json_parse_object:
  assumes "kvs \<noteq> []" "\<forall>(k, v) \<in> set kvs. valid_utf8 k \<and> flat v"
  shows "json_parse (jenc (JObject kvs)) = Some (JObject kvs)"
  using json_prefix_object [OF assms, of "[]"] by (simp add: json_parse_def)

section \<open>Decoding into Go's types\<close>

text \<open>
  Each decoder takes the value the field has, which a JSON \<open>null\<close> leaves alone.  Integers are
  what \<open>strconv.ParseUint\<close> and \<open>ParseInt\<close> accept, so a literal with a fraction or an exponent
  is refused; a float that overflows is refused.
\<close>

definition ParseUint64 :: "bytes \<Rightarrow> nat option" where
  "ParseUint64 lit =
     (if lit \<noteq> [] \<and> list_all is_digit lit \<and> dec_val lit < 2 ^ 64 then Some (dec_val lit) else None)"

definition ParseInt_lit :: "int \<Rightarrow> bytes \<Rightarrow> int option" where
  "ParseInt_lit bound lit =
     (let neg = (lit \<noteq> [] \<and> hd lit = CHR ''-''); ds = (if neg then tl lit else lit)
      in if ds = [] \<or> \<not> list_all is_digit ds then None
      else let n = (if neg then - int (dec_val ds) else int (dec_val ds))
      in if - bound \<le> n \<and> n < bound then Some n else None)"

text \<open>The value of a number literal: sign, digits, fraction, exponent\<close>

definition literal_rat :: "bytes \<Rightarrow> rat" where
  "literal_rat lit =
     (let neg = (lit \<noteq> [] \<and> hd lit = CHR ''-''); s = (if neg then tl lit else lit);
          ds = takeWhile is_digit s; r = dropWhile is_digit s;
          fs = (if r \<noteq> [] \<and> hd r = CHR ''.'' then takeWhile is_digit (tl r) else []);
          r2 = (if r \<noteq> [] \<and> hd r = CHR ''.'' then dropWhile is_digit (tl r) else r);
          e = (if r2 \<noteq> [] \<and> (hd r2 = CHR ''e'' \<or> hd r2 = CHR ''E'')
               then (let x = tl r2; eneg = (x \<noteq> [] \<and> hd x = CHR ''-'');
                         es = (if x \<noteq> [] \<and> (hd x = CHR ''-'' \<or> hd x = CHR ''+'') then tl x else x)
                     in if eneg then - int (dec_val es) else int (dec_val es))
               else 0);
          q = of_nat (dec_val (ds @ fs)) * 10 powi (e - int (length fs))
      in if neg then - q else q)"

definition ParseFloat_lit :: "bytes \<Rightarrow> float64 option" where
  "ParseFloat_lit lit = (case f64_of_rat (literal_rat lit) of Fin q \<Rightarrow> Some (Fin q) | _ \<Rightarrow> None)"

fun into_string :: "json \<Rightarrow> bytes \<Rightarrow> bytes option" where
  "into_string JNull old = Some old"
| "into_string (JString s) old = Some s"
| "into_string _ old = None"

fun into_bool :: "json \<Rightarrow> bool \<Rightarrow> bool option" where
  "into_bool JNull old = Some old"
| "into_bool (JBool b) old = Some b"
| "into_bool _ old = None"

fun into_uint64 :: "json \<Rightarrow> nat \<Rightarrow> nat option" where
  "into_uint64 JNull old = Some old"
| "into_uint64 (JNumber lit) old = ParseUint64 lit"
| "into_uint64 _ old = None"

fun into_int :: "int \<Rightarrow> json \<Rightarrow> int \<Rightarrow> int option" where
  "into_int bound JNull old = Some old"
| "into_int bound (JNumber lit) old = ParseInt_lit bound lit"
| "into_int bound _ old = None"

fun into_float64 :: "json \<Rightarrow> float64 \<Rightarrow> float64 option" where
  "into_float64 JNull old = Some old"
| "into_float64 (JNumber lit) old = ParseFloat_lit lit"
| "into_float64 _ old = None"

text \<open>
  The field a member names: the exact name, else the first that is equal up to case, where the long s
  and the Kelvin sign count as the letters they fold to.
\<close>

fun fold_name :: "bytes \<Rightarrow> bytes" where
  "fold_name [] = []"
| "fold_name (c # s) =
     (if 97 \<le> byte c \<and> byte c \<le> 122 then char_of (byte c - 32) # fold_name s
      else if byte c = 197 \<and> s \<noteq> [] \<and> byte (hd s) = 191 then CHR ''S'' # fold_name (tl s)
      else if byte c = 226 \<and> length s \<ge> 2 \<and> byte (hd s) = 132 \<and> byte (hd (tl s)) = 170
      then CHR ''K'' # fold_name (tl (tl s))
      else c # fold_name s)"

definition field_of :: "bytes list \<Rightarrow> bytes \<Rightarrow> bytes option" where
  "field_of names key =
     (if key \<in> set names then Some key else List.find (\<lambda>n. fold_name n = fold_name key) names)"

text \<open>Members are decoded in order, so a later one overwrites an earlier one of the same field.\<close>

fun decode_members ::
  "bytes list \<Rightarrow> (bytes \<Rightarrow> json \<Rightarrow> 's \<Rightarrow> 's option) \<Rightarrow> (bytes \<times> json) list \<Rightarrow> 's \<Rightarrow> 's option" where
  "decode_members names put [] x = Some x"
| "decode_members names put ((k, v) # ms) x =
     (case field_of names k of
        None \<Rightarrow> decode_members names put ms x
      | Some f \<Rightarrow> (case put f v x of None \<Rightarrow> None | Some y \<Rightarrow> decode_members names put ms y))"

definition decode_struct ::
  "bytes list \<Rightarrow> (bytes \<Rightarrow> json \<Rightarrow> 's \<Rightarrow> 's option) \<Rightarrow> json \<Rightarrow> 's \<Rightarrow> 's option" where
  "decode_struct names put v x =
     (case v of JNull \<Rightarrow> Some x | JObject ms \<Rightarrow> decode_members names put ms x | _ \<Rightarrow> None)"

lemma ParseUint64_nat_dec [simp]: "n < 2 ^ 64 \<Longrightarrow> ParseUint64 (nat_dec n) = Some n"
  by (simp add: ParseUint64_def)

lemma ParseInt_int_dec [simp]:
  assumes "- b \<le> i" "i < b"
  shows "ParseInt_lit b (int_dec i) = Some i"
proof -
  have "hd (nat_dec n) \<noteq> CHR ''-''" for n
    using nat_dec_digits [of "hd (nat_dec n)" n] by (auto simp: is_digit_def)
  then show ?thesis using assms by (auto simp: ParseInt_lit_def int_dec_def Let_def)
qed

lemma field_exact [simp]: "k \<in> set names \<Longrightarrow> field_of names k = Some k"
  by (simp add: field_of_def)

end
