(* ===== verification/Execution.thy ===== *)
theory Execution imports Scheduler WalletHandler JsonCodec begin

text \<open>
  The execution engine, \<open>execution-engine/main.go\<close>: the claim of a task, the execution of a
  transfer through the wallet service, the final status and the event for the validator.  The state
  is the intents database, the wallet's database and the messages the broker has stored.
\<close>

section \<open>The transfer payload\<close>

record transfer_payload =
  tp_from :: string
  tp_to :: string
  tp_amount :: float64

definition put_transfer :: "bytes \<Rightarrow> json \<Rightarrow> transfer_payload \<Rightarrow> transfer_payload option" where
  "put_transfer f v x =
     (if f = ''from'' then map_option (\<lambda>s. x\<lparr>tp_from := s\<rparr>) (into_string v (tp_from x))
      else if f = ''to'' then map_option (\<lambda>s. x\<lparr>tp_to := s\<rparr>) (into_string v (tp_to x))
      else map_option (\<lambda>q. x\<lparr>tp_amount := q\<rparr>) (into_float64 v (tp_amount x)))"

definition parse_transfer :: "bytes \<Rightarrow> transfer_payload option" where
  "parse_transfer payload =
     (case json_parse payload of
        None \<Rightarrow> None
      | Some v \<Rightarrow> decode_struct [''from'', ''to'', ''amount''] put_transfer v
                    \<lparr>tp_from = '''', tp_to = '''', tp_amount = Fin 0\<rparr>)"

section \<open>Calling the wallet\<close>

text \<open>The call is answered, never arrives, or is carried out while the answer is lost.\<close>

datatype rpc = RpcAnswered | RpcLost | RpcUnanswered

record exec_env =
  ex_claim :: stmt
  ex_rows_error :: bool
  ex_rpc :: rpc
  ex_wallet :: wenv
  ex_cancelled :: bool
  ex_final :: stmt
  ex_publish :: puback
  ex_db_now :: time
  ex_other :: "intent_db \<Rightarrow> intent_db"

datatype exec_error = ExecUnmarshal | ExecClaim | ExecFinal

datatype run_error = PayloadNotJson | WalletTransferFailed | ContextDone

definition wallet_transfer :: "rpc \<Rightarrow> wenv \<Rightarrow> wallet_db \<Rightarrow> TransferRequest \<Rightarrow> bool \<times> wallet_db" where
  "wallet_transfer call env w req =
     (case call of
        RpcLost \<Rightarrow> (False, w)
      | RpcUnanswered \<Rightarrow> (False, snd (handler_Transfer env w req))
      | RpcAnswered \<Rightarrow> map_prod is_ok id (handler_Transfer env w req))"

definition transfer_request :: "Intent \<Rightarrow> transfer_payload \<Rightarrow> TransferRequest" where
  "transfer_request i t = \<lparr>tr_from_account_id = tp_from t, tr_to_account_id = tp_to t,
     tr_amount = tp_amount t, tr_reference_id = Id i\<rparr>"

definition runExecutionSimulation :: "exec_env \<Rightarrow> Intent \<Rightarrow> wallet_db \<Rightarrow> run_error option \<times> wallet_db" where
  "runExecutionSimulation e intent w =
     (case Type intent of
        INTENT_TYPE_TRANSFER \<Rightarrow>
          (case parse_transfer (Payload intent) of
             None \<Rightarrow> (Some PayloadNotJson, w)
           | Some t \<Rightarrow>
               (case wallet_transfer (ex_rpc e) (ex_wallet e) w (transfer_request intent t) of
                  (ok, w') \<Rightarrow> (if ok then None else Some WalletTransferFailed, w')))
      | INTENT_TYPE_COMPUTE \<Rightarrow> (if ex_cancelled e then Some ContextDone else None, w)
      | _ \<Rightarrow> (None, w))"

section \<open>The worker\<close>

type_synonym exec_state = "intent_db \<times> wallet_db \<times> message_data list"

definition executed_subject :: "Intent \<Rightarrow> string" where
  "executed_subject i = ''intents.executed.'' @ IntentType_String (Type i)"

text \<open>
  The end of \<open>executeTask\<close>, after the run: the final status, which is written whatever the row has
  become, and the event for the validator, whose failure is only logged.
\<close>

definition finish_task ::
  "codecs \<Rightarrow> exec_env \<Rightarrow> Intent \<Rightarrow> string \<Rightarrow> run_error option \<Rightarrow> intent_db \<Rightarrow> message_data list
   \<Rightarrow> exec_error option \<times> intent_db \<times> message_data list" where
  "finish_task c e intent u executionErr db stored =
     (let final = (if executionErr = None then INTENT_STATUS_COMPLETED else INTENT_STATUS_FAILED)
      in case stmt_result (ex_final e) db
                (set_status u (\<lambda>_. True) (IntentStatus_String final) (ex_db_now e) db) of
           (ok, db') \<Rightarrow>
             if \<not> ok then (Some ExecFinal, db', stored)
             else (None, db',
                   case marshal c (intent\<lparr>Status := final\<rparr>) of
                     None \<Rightarrow> stored
                   | Some executedData \<Rightarrow> publish (ex_publish e) (executed_subject intent, executedData) stored))"

definition executeTask ::
  "codecs \<Rightarrow> exec_env \<Rightarrow> bytes \<Rightarrow> exec_state \<Rightarrow> exec_error option \<times> exec_state" where
  "executeTask c e msg st =
     (case st of (db, w, stored) \<Rightarrow>
      case unmarshal c msg of
        None \<Rightarrow> (Some ExecUnmarshal, db, w, stored)
      | Some intent \<Rightarrow>
      case uuid_in c (Id intent) of
        None \<Rightarrow> (Some ExecClaim, db, w, stored)
      | Some u \<Rightarrow>
      let isScheduled = (\<lambda>s. s = ''INTENT_STATUS_SCHEDULED'');
          rows = rows_matching u isScheduled db
      in case stmt_result (ex_claim e) db
                (set_status u isScheduled ''INTENT_STATUS_EXECUTING'' (ex_db_now e) db) of
           (ok, db1) \<Rightarrow>
             if \<not> ok then (Some ExecClaim, db1, w, stored)
             else if ex_rows_error e \<or> rows = 0 then (None, db1, w, stored)
             else case runExecutionSimulation e intent w of
                    (executionErr, w') \<Rightarrow>
                      (case finish_task c e intent u executionErr (ex_other e db1) stored of
                         (err, db2, stored') \<Rightarrow> (err, db2, w', stored')))"

text \<open>\<open>startWorker\<close>: attempts at one task, delivered again until one returns no error\<close>

fun deliver_task :: "codecs \<Rightarrow> bytes \<Rightarrow> exec_env list \<Rightarrow> exec_state \<Rightarrow> bool \<times> exec_state" where
  "deliver_task c msg [] st = (False, st)"
| "deliver_task c msg (e # es) st =
     (case executeTask c e msg st of
        (None, st') \<Rightarrow> (True, st')
      | (Some _, st') \<Rightarrow> deliver_task c msg es st')"

end
