(* ===== verification/ExecutionProps.thy ===== *)
theory ExecutionProps imports Execution SchedulerProps WalletProps begin

text \<open>
  What the execution engine guarantees for one task: the status it writes tells what happened to the
  money, a task is carried out at most once however often it is delivered; and two runs where the
  status is wrong for good: a final status that could not be written, and an answer of the wallet
  that was lost.
\<close>

section \<open>One attempt\<close>

definition is_scheduled :: "string \<Rightarrow> bool" where
  "is_scheduled s \<longleftrightarrow> s = ''INTENT_STATUS_SCHEDULED''"

lemma is_scheduled_fun [simp]: "(\<lambda>s. s = ''INTENT_STATUS_SCHEDULED'') = is_scheduled"
  by (simp add: fun_eq_iff is_scheduled_def)

lemma set_status_none:
  assumes "distinct (map row_id (intent_rows db))" "\<forall>s. status_of db u = Some s \<longrightarrow> \<not> cond s"
  shows "set_status u cond new t db = db" "rows_matching u cond db = 0"
proof -
  have none: "\<not> (row_id r = u \<and> cond (row_status r))" if "r \<in> set (intent_rows db)" for r
  proof
    assume r: "row_id r = u \<and> cond (row_status r)"
    then have "find_intent db u = Some r"
      using find_row [OF assms(1), of u r] that by (simp add: find_intent_def)
    then show False using assms(2) r by (simp add: status_of_def)
  qed
  have "map (\<lambda>r. if row_id r = u \<and> cond (row_status r) then r\<lparr>row_status := new, row_updated_at := t\<rparr> else r)
      (intent_rows db) = map (\<lambda>r. r) (intent_rows db)"
    by (rule map_cong [OF refl]) (use none in auto)
  then show "set_status u cond new t db = db" by (simp add: set_status_def)
  show "rows_matching u cond db = 0" using none by (auto simp: rows_matching_def filter_empty_conv)
qed

lemma rows_matching_pos: "status_of db u = Some s \<Longrightarrow> cond s \<Longrightarrow> rows_matching u cond db \<noteq> 0"
  unfolding status_of_def rows_matching_def find_intent_def
  by (auto dest!: find_Some_set simp: filter_empty_conv)

text \<open>A task whose intent is not scheduled has no effect, whatever goes wrong.\<close>

lemma executeTask_skips:
  assumes "distinct (map row_id (intent_rows db))" "status_of db u \<noteq> Some ''INTENT_STATUS_SCHEDULED''"
    and "unmarshal c msg = Some i" "uuid_in c (Id i) = Some u"
  shows "snd (executeTask c e msg (db, w, stored)) = (db, w, stored)"
proof -
  have "\<forall>s. status_of db u = Some s \<longrightarrow> \<not> is_scheduled s" using assms(2) by (auto simp: is_scheduled_def)
  note none = set_status_none [OF assms(1) this]
  show ?thesis
    using assms(3,4) none by (auto simp: executeTask_def Let_def stmt_result_def split: stmt.splits)
qed

lemma deliver_task_skips:
  assumes "distinct (map row_id (intent_rows db))" "status_of db u \<noteq> Some ''INTENT_STATUS_SCHEDULED''"
    and "unmarshal c msg = Some i" "uuid_in c (Id i) = Some u"
  shows "snd (deliver_task c msg es (db, w, stored)) = (db, w, stored)"
proof (induction es)
  case (Cons e es)
  have "snd (executeTask c e msg (db, w, stored)) = (db, w, stored)" by (rule executeTask_skips [OF assms])
  then obtain err where "executeTask c e msg (db, w, stored) = (err, db, w, stored)"
    by (cases "executeTask c e msg (db, w, stored)") auto
  with Cons show ?case by (cases err) auto
qed simp

lemma handler_Transfer_moved:
  assumes "handler_Transfer env w req = (Inr resp, w')"
  shows "\<exists>x y. moved env w (tr_from_account_id req) (tr_to_account_id req) (tr_amount req) (tr_reference_id req) x y w'"
  using assms
  by (auto simp: handler_Transfer_def Transfer_def split: if_splits prod.splits sum.splits
      dest!: commit_tx_InrD transfer_body_moved)

lemma handler_Transfer_error:
  assumes "handler_Transfer env w req = (Inl st, w')"
  shows "w' = w \<or> wcommit env = CommitUnseen"
  using assms
  by (auto simp: handler_Transfer_def Transfer_def split: if_splits prod.splits sum.splits dest!: commit_tx_InlD)

lemma wallet_transfer_ok:
  "wallet_transfer call env w req = (True, w') \<Longrightarrow> \<exists>resp. handler_Transfer env w req = (Inr resp, w')"
  by (cases "handler_Transfer env w req"; cases call) (auto simp: wallet_transfer_def is_ok_iff)

lemma wallet_transfer_state:
  "snd (wallet_transfer call env w req) = w \<or> snd (wallet_transfer call env w req) = snd (handler_Transfer env w req)"
  by (cases call) (simp_all add: wallet_transfer_def)

lemma executeTask_claimed:
  assumes "status_of db u = Some ''INTENT_STATUS_SCHEDULED''" "ex_claim e = StmtOk" "\<not> ex_rows_error e"
    and "unmarshal c msg = Some i" "uuid_in c (Id i) = Some u"
  shows "executeTask c e msg (db, w, stored) =
    (case runExecutionSimulation e i w of
       (x, w') \<Rightarrow> (case finish_task c e i u x
                       (ex_other e (set_status u is_scheduled ''INTENT_STATUS_EXECUTING'' (ex_db_now e) db)) stored of
                    (err, db2, stored') \<Rightarrow> (err, db2, w', stored')))"
proof -
  have "rows_matching u is_scheduled db \<noteq> 0" using assms(1) by (rule rows_matching_pos) (simp add: is_scheduled_def)
  then show ?thesis using assms by (simp add: executeTask_def Let_def stmt_result_def)
qed

lemma finish_task_status:
  assumes "finish_task c e i u x db stored = (None, db', stored')" "status_of db u \<noteq> None"
  shows "status_of db' u = Some (if x = None then ''INTENT_STATUS_COMPLETED'' else ''INTENT_STATUS_FAILED'')"
  using assms
  by (auto simp: finish_task_def Let_def stmt_result_def status_of_set_status split: stmt.splits if_splits)

text \<open>
  C10. The status tells what happened to the money.  When an attempt at a scheduled transfer ends
  without an error and nothing else writes to the row, then either the status is completed and the
  wallet has carried out exactly this transfer with the intent as its reference, or it is failed and
  the wallet is unchanged, unless the answer of the call or the acknowledgement of the wallet's
  commit was lost.
\<close>

theorem status_tells_the_transfer:
  assumes "executeTask c e msg (db, w, stored) = (None, db', w', stored')"
    and "unmarshal c msg = Some i" "uuid_in c (Id i) = Some u" "Type i = INTENT_TYPE_TRANSFER"
    and "status_of db u = Some ''INTENT_STATUS_SCHEDULED''" "\<not> ex_rows_error e" "\<forall>d. ex_other e d = d"
  shows "status_of db' u = Some ''INTENT_STATUS_COMPLETED'' \<and>
           (\<exists>t x y. parse_transfer (Payload i) = Some t \<and>
              moved (ex_wallet e) w (tp_from t) (tp_to t) (tp_amount t) (Id i) x y w')
       \<or> status_of db' u = Some ''INTENT_STATUS_FAILED'' \<and>
           (w' = w \<or> ex_rpc e = RpcUnanswered \<or> wcommit (ex_wallet e) = CommitUnseen)"
proof -
  have "ex_claim e = StmtOk"
    using assms(1-3) by (auto simp: executeTask_def Let_def stmt_result_def split: stmt.splits)
  note claimed = executeTask_claimed [OF assms(5) this assms(6,2,3), of w stored]
  obtain x w1 where run: "runExecutionSimulation e i w = (x, w1)" by (cases "runExecutionSimulation e i w")
  let ?db1 = "set_status u is_scheduled ''INTENT_STATUS_EXECUTING'' (ex_db_now e) db"
  have fin: "finish_task c e i u x ?db1 stored = (None, db', stored')" "w' = w1"
    using assms(1,7) unfolding claimed run by (auto split: prod.splits)
  have "status_of ?db1 u \<noteq> None" using assms(5) by (simp add: status_of_set_status)
  note status = finish_task_status [OF fin(1) this]
  show ?thesis
  proof (cases x)
    case None
    then obtain t where t: "parse_transfer (Payload i) = Some t"
      "wallet_transfer (ex_rpc e) (ex_wallet e) w (transfer_request i t) = (True, w1)"
      using run assms(4) by (auto simp: runExecutionSimulation_def split: option.splits prod.splits if_splits)
    then obtain resp where "handler_Transfer (ex_wallet e) w (transfer_request i t) = (Inr resp, w1)"
      using wallet_transfer_ok by blast
    from handler_Transfer_moved [OF this] t(1) None status fin(2) show ?thesis
      by (auto simp: transfer_request_def)
  next
    case (Some err)
    have "w1 = w \<or> ex_rpc e = RpcUnanswered \<or> wcommit (ex_wallet e) = CommitUnseen"
    proof (cases "parse_transfer (Payload i)")
      case None
      then show ?thesis using run assms(4) by (simp add: runExecutionSimulation_def)
    next
      case (Some t)
      then have "wallet_transfer (ex_rpc e) (ex_wallet e) w (transfer_request i t) = (False, w1)"
        using run assms(4) \<open>x = Some err\<close> by (auto simp: runExecutionSimulation_def split: prod.splits if_splits)
      then show ?thesis
        by (cases "handler_Transfer (ex_wallet e) w (transfer_request i t)"; cases "ex_rpc e")
           (auto simp: wallet_transfer_def is_ok_def dest: handler_Transfer_error split: sum.splits)
    qed
    with Some status fin(2) show ?thesis by simp
  qed
qed

section \<open>Many deliveries\<close>

fun attempts :: "codecs \<Rightarrow> bytes \<Rightarrow> exec_env list \<Rightarrow> exec_state \<Rightarrow> exec_state" where
  "attempts c msg [] st = st"
| "attempts c msg (e # es) st = attempts c msg es (snd (executeTask c e msg st))"

lemma attempts_skip:
  assumes "distinct (map row_id (intent_rows db))" "status_of db u \<noteq> Some ''INTENT_STATUS_SCHEDULED''"
    and "unmarshal c msg = Some i" "uuid_in c (Id i) = Some u"
  shows "attempts c msg es (db, w, stored) = (db, w, stored)"
proof (induction es)
  case (Cons e es)
  then show ?case using executeTask_skips [OF assms, of e w stored] by simp
qed simp

text \<open>An attempt that touches the wallet or the row leaves the scheduled state.\<close>

lemma executeTask_leaves:
  assumes "distinct (map row_id (intent_rows db))" "unmarshal c msg = Some i" "uuid_in c (Id i) = Some u"
    and "\<forall>d. ex_other e d = d" "status_of db u = Some ''INTENT_STATUS_SCHEDULED''"
    and "executeTask c e msg (db, w, stored) = (err, db', w', stored')"
  shows "db' = db \<and> w' = w \<and> stored' = stored \<or>
    distinct (map row_id (intent_rows db')) \<and> status_of db' u \<noteq> Some ''INTENT_STATUS_SCHEDULED'' \<and>
    (w' = w \<or> (\<exists>t. w' = snd (handler_Transfer (ex_wallet e) w (transfer_request i t))))"
proof -
  let ?db1 = "set_status u is_scheduled ''INTENT_STATUS_EXECUTING'' (ex_db_now e) db"
  have d1: "distinct (map row_id (intent_rows ?db1))" using assms(1) by simp
  have s1: "status_of ?db1 u = Some ''INTENT_STATUS_EXECUTING''"
    using assms(5) by (simp add: status_of_set_status is_scheduled_def)
  have wal: "snd (runExecutionSimulation e i w) = w \<or>
      (\<exists>t. snd (runExecutionSimulation e i w) = snd (handler_Transfer (ex_wallet e) w (transfer_request i t)))"
    using wallet_transfer_state [of "ex_rpc e" "ex_wallet e" w]
    by (auto simp: runExecutionSimulation_def split: IntentType.splits option.splits prod.splits) (metis snd_conv)+
  have fin: "distinct (map row_id (intent_rows d2)) \<and> status_of d2 u \<noteq> Some ''INTENT_STATUS_SCHEDULED''"
    if "finish_task c e i u x ?db1 stored = (er, d2, s2)" for x er d2 s2
    using that d1 s1
    by (auto simp: finish_task_def Let_def stmt_result_def status_of_set_status split: stmt.splits if_splits)
  show ?thesis
    using assms(2,3,4,6) d1 s1 wal fin
    by (auto simp: executeTask_def Let_def stmt_result_def split: stmt.splits if_splits prod.splits)
qed


section \<open>A concrete transfer\<close>

definition pay_payload :: "bytes" where
  "pay_payload = jenc (JObject [(''from'', JString ''alice''), (''to'', JString ''bob''), (''amount'', JNumber ''1'')])"

definition pay_intent :: "string \<Rightarrow> Intent" where
  "pay_intent iid = (toy_intent iid)\<lparr>Payload := pay_payload\<rparr>"

definition pay_codecs :: "codecs" where
  "pay_codecs = toy_codecs\<lparr>unmarshal := (\<lambda>d. Some (pay_intent d))\<rparr>"

lemma f64_one: "f64_of_rat 1 = Fin 1"
  using f64_of_rat_eqI [of 0 1 "2 ^ 52"] by (simp add: power_int_minus_divide)

lemma parse_pay: "parse_transfer pay_payload = Some \<lparr>tp_from = ''alice'', tp_to = ''bob'', tp_amount = Fin 1\<rparr>"
proof -
  have one: "''1'' = int_dec 1" by code_simp
  have lit: "literal_rat ''1'' = 1" by code_simp
  have "json_parse pay_payload = Some (JObject [(''from'', JString ''alice''), (''to'', JString ''bob''), (''amount'', JNumber ''1'')])"
    unfolding pay_payload_def by (rule json_parse_object) (use one in \<open>auto simp: ascii_valid\<close>)
  then show ?thesis
    by (simp add: parse_transfer_def decode_struct_def put_transfer_def ParseFloat_lit_def lit f64_one)
qed

lemma pay_simps [simp]:
  "unmarshal pay_codecs d = Some (pay_intent d)" "uuid_in pay_codecs x = Some x" "marshal pay_codecs i = Some (Id i)"
  "Id (pay_intent d) = d" "Type (pay_intent d) = INTENT_TYPE_TRANSFER" "Payload (pay_intent d) = pay_payload"
  by (simp_all add: pay_codecs_def pay_intent_def)

text \<open>An account with five units pays one to an empty one.\<close>

definition purse :: "wallet_db" where
  "purse = two_accounts 500000000 0"

lemma pay_transfer:
  obtains x y w' where "Transfer healthy_env purse ''alice'' ''bob'' (Fin 1) ref = (Inr (x, y), w')"
    "wbal (wallet_abs w') ''bob'' = Some 100000000"
proof -
  have small: "small_wallet purse"
    by (auto simp: small_wallet_def purse_def two_accounts_def exact_limit_def split: if_splits)
  have one: "f64_of_rat (units 100000000) = Fin 1" by (simp add: units_def numeric_scale_def f64_one)
  have "healthy healthy_env purse" by (simp add: purse_def)
  have spec: "spec_transfer (wallet_abs purse) ''alice'' ''bob'' 100000000 ref =
      Some \<lparr>wbal = (wbal (wallet_abs purse))(''alice'' \<mapsto> 400000000, ''bob'' \<mapsto> 100000000), wrefs = {ref}\<rparr>"
    by (simp add: spec_transfer_def wallet_abs_def purse_def two_accounts_def)
  have k: "(0::int) < 100000000" "(100000000::int) < exact_limit"
    "(case wbal (wallet_abs purse) ''bob'' of None \<Rightarrow> 0 | Some j \<Rightarrow> j) + 100000000 < exact_limit"
    by (simp_all add: exact_limit_def wallet_abs_def purse_def two_accounts_def)
  from transfer_exact [OF \<open>healthy healthy_env purse\<close> small k, of "''alice''" ref]
  show ?thesis unfolding one spec by (auto intro!: that)
qed

lemma pay_handler:
  assumes "iid \<noteq> ''''"
  obtains resp w' where "handler_Transfer healthy_env purse
      (transfer_request (pay_intent iid) \<lparr>tp_from = ''alice'', tp_to = ''bob'', tp_amount = Fin 1\<rparr>) = (Inr resp, w')"
    "wbal (wallet_abs w') ''bob'' = Some 100000000"
proof -
  obtain x y w' where "Transfer healthy_env purse ''alice'' ''bob'' (Fin 1) iid = (Inr (x, y), w')"
    "wbal (wallet_abs w') ''bob'' = Some 100000000" by (rule pay_transfer)
  then show ?thesis using assms that by (simp add: handler_Transfer_def transfer_request_def)
qed

definition exec_ok :: "exec_env" where
  "exec_ok = \<lparr>ex_claim = StmtOk, ex_rows_error = False, ex_rpc = RpcAnswered, ex_wallet = healthy_env,
     ex_cancelled = False, ex_final = StmtOk, ex_publish = Acked, ex_db_now = 6, ex_other = (\<lambda>d. d)\<rparr>"

definition scheduled_db :: "intent_db" where
  "scheduled_db = rows_db [row_with ''INTENT_STATUS_SCHEDULED'']"

lemma scheduled_db_simps [simp]:
  "distinct (map row_id (intent_rows scheduled_db))"
  "status_of scheduled_db ''i'' = Some ''INTENT_STATUS_SCHEDULED''"
  by (simp_all add: scheduled_db_def rows_db_def status_of_def find_intent_def)

section \<open>Two runs that go wrong\<close>

text \<open>
  An intent can be stuck.  If the worker dies or its last update fails after the wallet has
  carried out the transfer, the intent is executing; every later delivery of the task finds it not
  scheduled, acknowledges the task and changes nothing: the money has moved, the status never becomes
  final and the validator never hears of it.
\<close>

theorem executed_transfer_stays_executing:
  "\<exists>db' w'. attempts pay_codecs ''i'' (exec_ok\<lparr>ex_final := StmtFailed\<rparr> # es) (scheduled_db, purse, []) = (db', w', [])
     \<and> status_of db' ''i'' = Some ''INTENT_STATUS_EXECUTING''
     \<and> wbal (wallet_abs w') ''bob'' = Some 100000000"
proof -
  let ?e = "exec_ok\<lparr>ex_final := StmtFailed\<rparr>"
  let ?db = "set_status ''i'' is_scheduled ''INTENT_STATUS_EXECUTING'' 6 scheduled_db"
  obtain resp w' where t: "handler_Transfer healthy_env purse
      (transfer_request (pay_intent ''i'') \<lparr>tp_from = ''alice'', tp_to = ''bob'', tp_amount = Fin 1\<rparr>) = (Inr resp, w')"
    "wbal (wallet_abs w') ''bob'' = Some 100000000" by (rule pay_handler [of "''i''"]) simp_all
  have run: "runExecutionSimulation ?e (pay_intent ''i'') purse = (None, w')"
    by (simp add: runExecutionSimulation_def parse_pay wallet_transfer_def exec_ok_def t)
  have "executeTask pay_codecs ?e ''i'' (scheduled_db, purse, []) = (Some ExecFinal, ?db, w', [])"
    by (subst executeTask_claimed [where u = "''i''" and i = "pay_intent ''i''"])
       (simp_all add: run, simp_all add: exec_ok_def finish_task_def stmt_result_def Let_def)
  moreover have st: "status_of ?db ''i'' = Some ''INTENT_STATUS_EXECUTING''"
    by (simp add: status_of_set_status is_scheduled_def)
  moreover have "attempts pay_codecs ''i'' es (?db, w', []) = (?db, w', [])"
    by (rule attempts_skip [where u = "''i''" and i = "pay_intent ''i''"]) (simp_all add: st)
  ultimately show ?thesis using t(2) by simp
qed

text \<open>
  An intent can be failed although it was paid.  If the answer of the wallet is lost after the
  transfer was committed, the engine writes the failed status, and no later delivery corrects it.
\<close>

theorem failed_intent_was_paid:
  "\<exists>db' w' stored'. attempts pay_codecs ''i'' (exec_ok\<lparr>ex_rpc := RpcUnanswered\<rparr> # es) (scheduled_db, purse, []) = (db', w', stored')
     \<and> status_of db' ''i'' = Some ''INTENT_STATUS_FAILED''
     \<and> wbal (wallet_abs w') ''bob'' = Some 100000000"
proof -
  let ?e = "exec_ok\<lparr>ex_rpc := RpcUnanswered\<rparr>"
  let ?db = "set_status ''i'' (\<lambda>_. True) ''INTENT_STATUS_FAILED'' 6
      (set_status ''i'' is_scheduled ''INTENT_STATUS_EXECUTING'' 6 scheduled_db)"
  obtain resp w' where t: "handler_Transfer healthy_env purse
      (transfer_request (pay_intent ''i'') \<lparr>tp_from = ''alice'', tp_to = ''bob'', tp_amount = Fin 1\<rparr>) = (Inr resp, w')"
    "wbal (wallet_abs w') ''bob'' = Some 100000000" by (rule pay_handler [of "''i''"]) simp_all
  have run: "runExecutionSimulation ?e (pay_intent ''i'') purse = (Some WalletTransferFailed, w')"
    by (simp add: runExecutionSimulation_def parse_pay wallet_transfer_def exec_ok_def t)
  have "\<exists>stored'. executeTask pay_codecs ?e ''i'' (scheduled_db, purse, []) = (None, ?db, w', stored')"
    by (subst executeTask_claimed [where u = "''i''" and i = "pay_intent ''i''"])
       (simp_all add: run, simp_all add: exec_ok_def finish_task_def stmt_result_def Let_def)
  then obtain stored' where "executeTask pay_codecs ?e ''i'' (scheduled_db, purse, []) = (None, ?db, w', stored')" by blast
  moreover have st: "status_of ?db ''i'' = Some ''INTENT_STATUS_FAILED''"
    by (simp add: status_of_set_status is_scheduled_def)
  moreover have "attempts pay_codecs ''i'' es (?db, w', stored') = (?db, w', stored')" for stored'
    by (rule attempts_skip [where u = "''i''" and i = "pay_intent ''i''"]) (simp_all add: st)
  ultimately show ?thesis using t(2) by auto
qed

section \<open>Instances\<close>

lemma pay_runs:
  obtains db' w' stored' where "executeTask pay_codecs exec_ok ''i'' (scheduled_db, purse, []) = (None, db', w', stored')"
    "status_of db' ''i'' = Some ''INTENT_STATUS_COMPLETED''"
proof -
  obtain resp w' where t: "handler_Transfer healthy_env purse
      (transfer_request (pay_intent ''i'') \<lparr>tp_from = ''alice'', tp_to = ''bob'', tp_amount = Fin 1\<rparr>) = (Inr resp, w')"
    "wbal (wallet_abs w') ''bob'' = Some 100000000" by (rule pay_handler [of "''i''"]) simp_all
  have run: "runExecutionSimulation exec_ok (pay_intent ''i'') purse = (None, w')"
    by (simp add: runExecutionSimulation_def parse_pay wallet_transfer_def exec_ok_def t)
  let ?db = "set_status ''i'' (\<lambda>_. True) ''INTENT_STATUS_COMPLETED'' 6
      (set_status ''i'' is_scheduled ''INTENT_STATUS_EXECUTING'' 6 scheduled_db)"
  have "\<exists>stored'. executeTask pay_codecs exec_ok ''i'' (scheduled_db, purse, []) = (None, ?db, w', stored')"
    by (subst executeTask_claimed [where u = "''i''" and i = "pay_intent ''i''"])
       (simp_all add: run, simp_all add: exec_ok_def finish_task_def stmt_result_def Let_def)
  then obtain stored' where "executeTask pay_codecs exec_ok ''i'' (scheduled_db, purse, []) = (None, ?db, w', stored')" by blast
  moreover have "status_of ?db ''i'' = Some ''INTENT_STATUS_COMPLETED''"
    by (simp add: status_of_set_status is_scheduled_def)
  ultimately show ?thesis using that by blast
qed

lemma status_tells_the_transfer_witness:
  "\<exists>db' w' stored' x y. executeTask pay_codecs exec_ok ''i'' (scheduled_db, purse, []) = (None, db', w', stored')
     \<and> status_of db' ''i'' = Some ''INTENT_STATUS_COMPLETED''
     \<and> moved healthy_env purse ''alice'' ''bob'' (Fin 1) ''i'' x y w'"
proof -
  obtain db' w' stored' where r: "executeTask pay_codecs exec_ok ''i'' (scheduled_db, purse, []) = (None, db', w', stored')"
    "status_of db' ''i'' = Some ''INTENT_STATUS_COMPLETED''" by (rule pay_runs)
  have "\<not> ex_rows_error exec_ok" "\<forall>d. ex_other exec_ok d = d" "ex_wallet exec_ok = healthy_env" by (simp_all add: exec_ok_def)
  with status_tells_the_transfer [OF r(1), of "pay_intent ''i''" "''i''"] r show ?thesis by (auto simp: parse_pay)
qed


end
