(* ===== verification/Sha256.thy ===== *)
theory Sha256 imports Utf8 "HOL-Library.Word" begin

text \<open>
  SHA-256 as \<open>crypto/sha256\<close> computes it, and the keyed hash of \<open>crypto/hmac\<close> over it.  Words are
  32 bits wide and wrap; the message is padded to blocks of 64 bytes with its length in bits.  What
  the other theories use is the size of the digest; the function itself is concrete, so nothing is
  assumed of it.
\<close>

unbundle bit_operations_syntax

type_synonym w32 = "32 word"

section \<open>The compression function\<close>

definition rotr :: "nat \<Rightarrow> w32 \<Rightarrow> w32" where
  "rotr n x = drop_bit n x OR push_bit (32 - n) x"

definition big_sigma0 :: "w32 \<Rightarrow> w32" where
  "big_sigma0 x = rotr 2 x XOR rotr 13 x XOR rotr 22 x"

definition big_sigma1 :: "w32 \<Rightarrow> w32" where
  "big_sigma1 x = rotr 6 x XOR rotr 11 x XOR rotr 25 x"

definition small_sigma0 :: "w32 \<Rightarrow> w32" where
  "small_sigma0 x = rotr 7 x XOR rotr 18 x XOR drop_bit 3 x"

definition small_sigma1 :: "w32 \<Rightarrow> w32" where
  "small_sigma1 x = rotr 17 x XOR rotr 19 x XOR drop_bit 10 x"

definition round_constants :: "w32 list" where
  "round_constants =
    [1116352408, 1899447441, 3049323471, 3921009573, 961987163, 1508970993, 2453635748, 2870763221,
     3624381080, 310598401, 607225278, 1426881987, 1925078388, 2162078206, 2614888103, 3248222580,
     3835390401, 4022224774, 264347078, 604807628, 770255983, 1249150122, 1555081692, 1996064986,
     2554220882, 2821834349, 2952996808, 3210313671, 3336571891, 3584528711, 113926993, 338241895,
     666307205, 773529912, 1294757372, 1396182291, 1695183700, 1986661051, 2177026350, 2456956037,
     2730485921, 2820302411, 3259730800, 3345764771, 3516065817, 3600352804, 4094571909, 275423344,
     430227734, 506948616, 659060556, 883997877, 958139571, 1322822218, 1537002063, 1747873779,
     1955562222, 2024104815, 2227730452, 2361852424, 2428436474, 2756734187, 3204031479, 3329325298]"

record sha_state =
  h_a :: w32
  h_b :: w32
  h_c :: w32
  h_d :: w32
  h_e :: w32
  h_f :: w32
  h_g :: w32
  h_h :: w32

definition sha_init :: "sha_state" where
  "sha_init = \<lparr>h_a = 1779033703, h_b = 3144134277, h_c = 1013904242, h_d = 2773480762,
     h_e = 1359893119, h_f = 2600822924, h_g = 528734635, h_h = 1541459225\<rparr>"

definition sha_round :: "w32 \<times> w32 \<Rightarrow> sha_state \<Rightarrow> sha_state" where
  "sha_round kw s =
     (let ch = (h_e s AND h_f s) XOR (NOT (h_e s) AND h_g s);
          t1 = h_h s + big_sigma1 (h_e s) + ch + fst kw + snd kw;
          maj = (h_a s AND h_b s) XOR (h_a s AND h_c s) XOR (h_b s AND h_c s);
          t2 = big_sigma0 (h_a s) + maj
      in \<lparr>h_a = t1 + t2, h_b = h_a s, h_c = h_b s, h_d = h_c s, h_e = h_d s + t1, h_f = h_e s, h_g = h_f s, h_h = h_g s\<rparr>)"

text \<open>The message schedule: sixteen words, each further word from four earlier ones\<close>

fun schedule :: "nat \<Rightarrow> w32 list \<Rightarrow> w32 list" where
  "schedule 0 w = w"
| "schedule (Suc n) w =
     (let t = length w
      in schedule n (w @ [small_sigma1 (w ! (t - 2)) + w ! (t - 7) + small_sigma0 (w ! (t - 15)) + w ! (t - 16)]))"

definition word_of_bytes :: "bytes \<Rightarrow> w32" where
  "word_of_bytes bs = of_nat (foldl (\<lambda>a c. 256 * a + byte c) 0 bs)"

fun words_of :: "bytes \<Rightarrow> w32 list" where
  "words_of (a # b # c # d # s) = word_of_bytes [a, b, c, d] # words_of s"
| "words_of _ = []"

definition compress :: "sha_state \<Rightarrow> bytes \<Rightarrow> sha_state" where
  "compress s block =
     (let r = fold sha_round (zip round_constants (schedule 48 (words_of block))) s
      in \<lparr>h_a = h_a s + h_a r, h_b = h_b s + h_b r, h_c = h_c s + h_c r, h_d = h_d s + h_d r,
          h_e = h_e s + h_e r, h_f = h_f s + h_f r, h_g = h_g s + h_g r, h_h = h_h s + h_h r\<rparr>)"

section \<open>Padding and the digest\<close>

text \<open>\<open>n\<close> bytes of a number, most significant first\<close>

fun big_endian :: "nat \<Rightarrow> nat \<Rightarrow> bytes" where
  "big_endian 0 x = []"
| "big_endian (Suc n) x = big_endian n (x div 256) @ [char_of (x mod 256)]"

definition sha_pad :: "bytes \<Rightarrow> bytes" where
  "sha_pad m = m @ [char_of (128 :: nat)] @ replicate ((119 - length m mod 64) mod 64) (char_of (0 :: nat))
     @ big_endian 8 (8 * length m)"

function sha_blocks :: "sha_state \<Rightarrow> bytes \<Rightarrow> sha_state" where
  "sha_blocks s m = (if m = [] then s else sha_blocks (compress s (take 64 m)) (drop 64 m))"
  by pat_completeness auto
termination
  by (relation "measure (length \<circ> snd)") auto

declare sha_blocks.simps [simp del]

definition bytes_of_word :: "w32 \<Rightarrow> bytes" where
  "bytes_of_word w = big_endian 4 (unat w)"

definition sha256 :: "bytes \<Rightarrow> bytes" where
  "sha256 m =
     (let s = sha_blocks sha_init (sha_pad m)
      in concat (map bytes_of_word [h_a s, h_b s, h_c s, h_d s, h_e s, h_f s, h_g s, h_h s]))"

lemma length_big_endian [simp]: "length (big_endian n x) = n"
  by (induction n arbitrary: x) simp_all

lemma length_bytes_of_word [simp]: "length (bytes_of_word w) = 4"
  by (simp add: bytes_of_word_def)

lemma length_sha256 [simp]: "length (sha256 m) = 32"
  by (simp add: sha256_def Let_def)

text \<open>Padding fills whole blocks, so no block is short.\<close>

lemma length_sha_pad: "64 dvd length (sha_pad m)"
proof -
  define r where "r = length m mod 64"
  define q where "q = length m div 64"
  have m: "length m = 64 * q + r" "r < 64" by (simp_all add: q_def r_def)
  have "(119 - r) mod 64 = (if r \<le> 55 then 55 - r else 119 - r)"
    using m(2) by (auto simp: mod_if)
  then have "length (sha_pad m) = (if r \<le> 55 then 64 * (q + 1) else 64 * (q + 2))"
    using m by (simp add: sha_pad_def r_def [symmetric])
  then show ?thesis by (simp only: dvd_triv_left split: if_splits) auto
qed

section \<open>HMAC\<close>

definition hmac_key :: "bytes \<Rightarrow> bytes" where
  "hmac_key key = (let k = (if length key > 64 then sha256 key else key) in k @ replicate (64 - length k) (char_of (0 :: nat)))"

definition xor_byte :: "nat \<Rightarrow> char \<Rightarrow> char" where
  "xor_byte n c = char_of (byte c XOR n)"

definition hmac_sha256 :: "bytes \<Rightarrow> bytes \<Rightarrow> bytes" where
  "hmac_sha256 key m =
     sha256 (map (xor_byte 92) (hmac_key key) @ sha256 (map (xor_byte 54) (hmac_key key) @ m))"

lemma length_hmac [simp]: "length (hmac_sha256 key m) = 32"
  by (simp add: hmac_sha256_def)

end
