(* ===== verification/Rfc3339.thy ===== *)
theory Rfc3339 imports IntentTypes Utf8 begin

text \<open>
  Package \<open>time\<close> as the ledger and the gateway use it: the calendar date of an instant and its text
  in the layout \<open>time.RFC3339\<close>.  An instant is a number of nanoseconds since 1970; the offset of the
  zone, in seconds east of UTC, is that of the location the instant is shown in.
\<close>

section \<open>Dates\<close>

text \<open>Year, month and day of a number of days since 1970-01-01, in eras of 400 years from March\<close>

definition civil_date :: "int \<Rightarrow> int \<times> int \<times> int" where
  "civil_date days =
     (let z = days + 719468; era = z div 146097; doe = z mod 146097;
          yoe = (doe - doe div 1460 + doe div 36524 - doe div 146096) div 365;
          doy = doe - (365 * yoe + yoe div 4 - yoe div 100);
          mp = (5 * doy + 2) div 153;
          d = doy - (153 * mp + 2) div 5 + 1;
          m = (if mp < 10 then mp + 3 else mp - 9);
          y = yoe + era * 400 + (if m \<le> 2 then 1 else 0)
      in (y, m, d))"

section \<open>The layout RFC3339\<close>

definition pad_dec :: "nat \<Rightarrow> int \<Rightarrow> string" where
  "pad_dec w n =
     (let s = nat_dec (nat \<bar>n\<bar>)
      in (if n < 0 then ''-'' else []) @ replicate (w - length s) CHR ''0'' @ s)"

definition zone_text :: "int \<Rightarrow> string" where
  "zone_text offset =
     (if offset = 0 then ''Z''
      else let m = \<bar>offset\<bar> div 60
      in (if offset < 0 \<and> m \<noteq> 0 then ''-'' else ''+'') @ pad_dec 2 (m div 60) @ '':'' @ pad_dec 2 (m mod 60))"

definition Format_RFC3339 :: "int \<Rightarrow> time \<Rightarrow> string" where
  "Format_RFC3339 offset t =
     (let s = t div second + offset; sod = s mod 86400
      in case civil_date (s div 86400) of
           (y, m, d) \<Rightarrow>
             pad_dec 4 y @ ''-'' @ pad_dec 2 m @ ''-'' @ pad_dec 2 d @ ''T'' @ pad_dec 2 (sod div 3600)
             @ '':'' @ pad_dec 2 (sod div 60 mod 60) @ '':'' @ pad_dec 2 (sod mod 60) @ zone_text offset)"

text \<open>Characters that stand for themselves in a JSON string\<close>

definition plain_char :: "char \<Rightarrow> bool" where
  "plain_char c \<longleftrightarrow> 32 \<le> byte c \<and> byte c < 128 \<and> byte c \<notin> {34, 92, 60, 62, 38}"

abbreviation plain :: "bytes \<Rightarrow> bool" where
  "plain \<equiv> list_all plain_char"

lemma plain_ascii: "plain s \<Longrightarrow> ascii s"
  by (auto simp: ascii_def list_all_iff plain_char_def)

lemma plain_digit: "is_digit c \<Longrightarrow> plain_char c"
  by (simp add: is_digit_def plain_char_def)

lemma plain_nat_dec [simp]: "plain (nat_dec n)"
  by (auto simp: list_all_iff intro: plain_digit nat_dec_digits)

lemma plain_pad_dec [simp]: "plain (pad_dec w n)"
  by (simp add: pad_dec_def Let_def) (simp add: list_all_iff plain_char_def)

lemma plain_zone [simp]: "plain (zone_text offset)"
  by (simp add: zone_text_def Let_def plain_char_def)

lemma plain_Format [simp]: "plain (Format_RFC3339 offset t)"
  by (simp add: Format_RFC3339_def Let_def plain_char_def split: prod.splits)

end
