(* ===== verification/Ledger.thy ===== *)
theory Ledger imports Sha256 Crypto JsonCodec Rfc3339 begin

text \<open>
  The append-only ledger of the validator, \<open>validator/ledger/ledger.go\<close>: the file is its bytes, or
  absent.  Lines are what \<open>bufio.Scanner\<close> delivers of them, with its limit on the length of a line,
  and a block is a line of JSON with the SHA-256 of its fields.  The environment says which system
  calls fail, and how much of a write reached the file.
\<close>

section \<open>Lines of a file\<close>

text \<open>
  \<open>bufio.Scanner\<close> with \<open>ScanLines\<close>: a line ends at a newline or at the end of the data and loses one
  carriage return; a line that does not fit the buffer of 64 KB stops the scan.
\<close>

definition max_token :: "nat" where
  "max_token = 65536"

datatype scan_error = TokenTooLong | ReadFailed

definition dropCR :: "bytes \<Rightarrow> bytes" where
  "dropCR s = (if s \<noteq> [] \<and> byte (last s) = 13 then butlast s else s)"

definition newline :: "char" where
  "newline = char_of (10 :: nat)"

function scan_lines :: "bytes \<Rightarrow> bytes list \<times> bool" where
  "scan_lines s =
     (let l = takeWhile (\<lambda>c. c \<noteq> newline) s; r = dropWhile (\<lambda>c. c \<noteq> newline) s
      in if s = [] then ([], False)
         else if length l \<ge> max_token then ([], True)
         else map_prod ((#) (dropCR l)) id (scan_lines (tl r)))"
  by pat_completeness auto
termination
proof (relation "measure length")
  show "wf (measure length)" by simp
next
  fix s l r :: bytes
  assume r: "r = dropWhile (\<lambda>c. c \<noteq> newline) s" and "s \<noteq> []"
  have "length r \<le> length s" unfolding r by (rule length_dropWhile_le)
  moreover have "0 < length s" using \<open>s \<noteq> []\<close> by simp
  ultimately have "length (tl r) < length s" unfolding length_tl by linarith
  then show "(tl r, s) \<in> measure length" by simp
qed

declare scan_lines.simps [simp del]

text \<open>A read that fails after some bytes ends the data there, and the scan reports it.\<close>

definition scan_file :: "nat option \<Rightarrow> bytes \<Rightarrow> bytes list \<times> scan_error option" where
  "scan_file fails data =
     (case scan_lines (case fails of None \<Rightarrow> data | Some k \<Rightarrow> take k data) of
        (ls, too_long) \<Rightarrow>
          (ls, if too_long then Some TokenTooLong else if fails \<noteq> None then Some ReadFailed else None))"

section \<open>Blocks\<close>

record Block =
  Index :: "64 word"
  BTimestamp :: string
  IntentID :: string
  BType :: string
  BStatus :: string
  PrevHash :: string
  Hash :: string

definition hash_input :: "Block \<Rightarrow> bytes" where
  "hash_input b = nat_dec (unat (Index b)) @ BTimestamp b @ IntentID b @ BType b @ BStatus b @ PrevHash b"

definition calculateHash :: "Block \<Rightarrow> string" where
  "calculateHash b = EncodeToString (sha256 (hash_input b))"

definition genesis :: "string" where
  "genesis = replicate 64 CHR ''0''"

text \<open>The JSON of a block: the tags of the fields in the order of the struct\<close>

definition block_names :: "bytes list" where
  "block_names = [''index'', ''timestamp'', ''intent_id'', ''type'', ''status'', ''prev_hash'', ''hash'']"

definition block_members :: "Block \<Rightarrow> (bytes \<times> json) list" where
  "block_members b =
     [(''index'', JNumber (nat_dec (unat (Index b)))), (''timestamp'', JString (BTimestamp b)),
      (''intent_id'', JString (IntentID b)), (''type'', JString (BType b)), (''status'', JString (BStatus b)),
      (''prev_hash'', JString (PrevHash b)), (''hash'', JString (Hash b))]"

definition block_json :: "Block \<Rightarrow> bytes" where
  "block_json b = jenc (JObject (block_members b))"

definition block_line :: "Block \<Rightarrow> bytes" where
  "block_line b = block_json b @ [newline]"

definition empty_block :: "Block" where
  "empty_block = \<lparr>Index = 0, BTimestamp = [], IntentID = [], BType = [], BStatus = [], PrevHash = [], Hash = []\<rparr>"

definition put_block :: "bytes \<Rightarrow> json \<Rightarrow> Block \<Rightarrow> Block option" where
  "put_block f v b =
     (if f = ''index'' then map_option (\<lambda>n. b\<lparr>Index := of_nat n\<rparr>) (into_uint64 v (unat (Index b)))
      else if f = ''timestamp'' then map_option (\<lambda>s. b\<lparr>BTimestamp := s\<rparr>) (into_string v (BTimestamp b))
      else if f = ''intent_id'' then map_option (\<lambda>s. b\<lparr>IntentID := s\<rparr>) (into_string v (IntentID b))
      else if f = ''type'' then map_option (\<lambda>s. b\<lparr>BType := s\<rparr>) (into_string v (BType b))
      else if f = ''status'' then map_option (\<lambda>s. b\<lparr>BStatus := s\<rparr>) (into_string v (BStatus b))
      else if f = ''prev_hash'' then map_option (\<lambda>s. b\<lparr>PrevHash := s\<rparr>) (into_string v (PrevHash b))
      else map_option (\<lambda>s. b\<lparr>Hash := s\<rparr>) (into_string v (Hash b)))"

definition parse_block :: "bytes \<Rightarrow> Block option" where
  "parse_block line =
     (case json_parse line of None \<Rightarrow> None | Some v \<Rightarrow> decode_struct block_names put_block v empty_block)"

section \<open>The engine\<close>

record ledger_env =
  le_open_fails :: bool
  le_read_fails :: "nat option"
  le_create_fails :: bool
  le_write_fails :: "nat option"
  le_sync_fails :: bool
  le_now :: time
  le_zone :: int

type_synonym ledger_file = "bytes option"

datatype ledger_error =
    OpenFailed | ParseFailed | SequenceBreak "64 word" "64 word" | ChainBroken "64 word" string string
  | DataTampered "64 word" string string | LineScanFailed scan_error
  | ReadLastFailed | OpenAppendFailed | WriteFailed | SyncFailed

text \<open>
  The loop of \<open>Verify\<close> over the lines: the expected hash and index, updated block by block, or the
  first error.
\<close>

fun verify_lines :: "string \<Rightarrow> 64 word \<Rightarrow> bytes list \<Rightarrow> ledger_error + string \<times> 64 word" where
  "verify_lines expectedPrevHash expectedIndex [] = Inr (expectedPrevHash, expectedIndex)"
| "verify_lines expectedPrevHash expectedIndex (line # ls) =
     (if line = [] then verify_lines expectedPrevHash expectedIndex ls
      else case parse_block line of
             None \<Rightarrow> Inl ParseFailed
           | Some block \<Rightarrow>
               if Index block \<noteq> expectedIndex then Inl (SequenceBreak (Index block) expectedIndex)
               else if PrevHash block \<noteq> expectedPrevHash
               then Inl (ChainBroken (Index block) expectedPrevHash (PrevHash block))
               else if Hash block \<noteq> calculateHash block
               then Inl (DataTampered (Index block) (Hash block) (calculateHash block))
               else verify_lines (Hash block) (expectedIndex + 1) ls)"

definition Verify_ledger :: "ledger_env \<Rightarrow> ledger_file \<Rightarrow> ledger_error option" where
  "Verify_ledger e file =
     (if le_open_fails e then Some OpenFailed
      else case file of
             None \<Rightarrow> None
           | Some data \<Rightarrow>
               (case scan_file (le_read_fails e) data of
                  (ls, err) \<Rightarrow>
                    (case verify_lines genesis 0 ls of
                       Inl x \<Rightarrow> Some x
                     | Inr _ \<Rightarrow> map_option LineScanFailed err)))"

definition last_block :: "bytes list \<Rightarrow> Block option" where
  "last_block ls =
     fold (\<lambda>line last. if line = [] then last
             else case parse_block line of None \<Rightarrow> last | Some b \<Rightarrow> Some b) ls None"

definition readLastBlock :: "ledger_env \<Rightarrow> ledger_file \<Rightarrow> ledger_error + Block option" where
  "readLastBlock e file =
     (if le_open_fails e then Inl OpenFailed
      else case file of
             None \<Rightarrow> Inr None
           | Some data \<Rightarrow>
               (case scan_file (le_read_fails e) data of
                  (ls, Some x) \<Rightarrow> Inl (LineScanFailed x)
                | (ls, None) \<Rightarrow> Inr (last_block ls)))"

definition next_block :: "Block option \<Rightarrow> ledger_env \<Rightarrow> string \<Rightarrow> string \<Rightarrow> string \<Rightarrow> Block" where
  "next_block lastBlock e iid typ sts =
     (let index = (case lastBlock of None \<Rightarrow> 0 | Some b \<Rightarrow> Index b + 1);
          prevHash = (case lastBlock of None \<Rightarrow> genesis | Some b \<Rightarrow> Hash b);
          block = \<lparr>Index = index, BTimestamp = Format_RFC3339 (le_zone e) (le_now e), IntentID = iid,
                   BType = typ, BStatus = sts, PrevHash = prevHash, Hash = []\<rparr>
      in block\<lparr>Hash := calculateHash block\<rparr>)"

definition Append ::
  "ledger_env \<Rightarrow> ledger_file \<Rightarrow> string \<Rightarrow> string \<Rightarrow> string \<Rightarrow> (ledger_error + Block) \<times> ledger_file" where
  "Append e file iid typ sts =
     (case readLastBlock e file of
        Inl x \<Rightarrow> (Inl ReadLastFailed, file)
      | Inr lastBlock \<Rightarrow>
          let block = next_block lastBlock e iid typ sts
          in if le_create_fails e then (Inl OpenAppendFailed, file)
          else let data = (case file of None \<Rightarrow> [] | Some d \<Rightarrow> d)
          in case le_write_fails e of
               Some k \<Rightarrow> (Inl WriteFailed, Some (data @ take k (block_line block)))
             | None \<Rightarrow>
                 (if le_sync_fails e then Inl SyncFailed else Inr block,
                  Some (data @ block_line block)))"

end
