(* ===== verification/LedgerProps.thy ===== *)
theory LedgerProps imports Ledger begin

text \<open>
  What the ledger promises: the lines of a file are read back as they were written, a verified file is
  a chain of blocks, appending extends the chain, and two chains with the same last hash have the same
  contents unless SHA-256 collides.  Then what it does not promise: the fields of a block run into each
  other in the hash, a shorter file verifies, and a torn line spoils the file.
\<close>

section \<open>Lines\<close>

lemma scan_lines_Nil [simp]: "scan_lines [] = ([], False)"
  by (simp add: scan_lines.simps)

lemma scan_line:
  assumes "newline \<notin> set l" "length l < max_token"
  shows "scan_lines (l @ newline # r) = map_prod ((#) (dropCR l)) id (scan_lines r)"
proof -
  have "takeWhile (\<lambda>c. c \<noteq> newline) (l @ newline # r) = l" "dropWhile (\<lambda>c. c \<noteq> newline) (l @ newline # r) = newline # r"
    using assms(1) by (auto simp: takeWhile_append dropWhile_append)
  with assms(2) show ?thesis by (subst scan_lines.simps) (simp add: Let_def)
qed

lemma scan_last_line:
  assumes "newline \<notin> set l" "length l < max_token" "l \<noteq> []"
  shows "scan_lines l = ([dropCR l], False)"
proof -
  have "takeWhile (\<lambda>c. c \<noteq> newline) l = l" "dropWhile (\<lambda>c. c \<noteq> newline) l = []"
    using assms(1) by (auto simp: takeWhile_eq_all_conv)
  note parts = this
  show ?thesis using assms(2,3) by (subst scan_lines.simps) (simp add: Let_def parts del: takeWhile_eq_all_conv dropWhile_eq_Nil_conv)
qed

text \<open>A file whose last line is complete\<close>

definition complete_data :: "bytes \<Rightarrow> bool" where
  "complete_data s \<longleftrightarrow> s = [] \<or> last s = newline"

lemma complete_data_append [simp]: "complete_data (s @ l @ [newline])"
  by (simp add: complete_data_def)

lemma split_line:
  assumes "complete_data s" "s \<noteq> []"
  obtains l r where "s = l @ newline # r" "newline \<notin> set l" "complete_data r"
proof -
  have "newline \<in> set s" using assms by (metis complete_data_def last_in_set)
  then obtain l r where "s = l @ newline # r" "newline \<notin> set l" by (metis split_list_first)
  moreover from this have "complete_data r" using assms(1) by (auto simp: complete_data_def split: if_splits)
  ultimately show ?thesis by (rule that)
qed

lemma scan_lines_append:
  assumes "complete_data s" "scan_lines s = (ls, False)"
  shows "scan_lines (s @ t) = map_prod ((@) ls) id (scan_lines t)"
  using assms
proof (induction "length s" arbitrary: s ls rule: less_induct)
  case less
  show ?case
  proof (cases "s = []")
    case True
    then show ?thesis using less.prems by (cases "scan_lines t") simp
  next
    case False
    then obtain l r where s: "s = l @ newline # r" "newline \<notin> set l" "complete_data r"
      using less.prems(1) split_line by blast
    have short: "length l < max_token"
    proof (rule ccontr)
      assume "\<not> length l < max_token"
      moreover have "takeWhile (\<lambda>c. c \<noteq> newline) s = l" using s(2) unfolding s(1) by (auto simp: takeWhile_append)
      ultimately have "scan_lines s = ([], True)" using False by (subst scan_lines.simps) (simp add: Let_def)
      then show False using less.prems(2) by simp
    qed
    obtain ls' where ls': "scan_lines r = (ls', False)" "ls = dropCR l # ls'"
      using less.prems(2) unfolding s(1) scan_line [OF s(2) short] by (cases "scan_lines r") auto
    have "scan_lines (r @ t) = map_prod ((@) ls') id (scan_lines t)"
      using less.hyps [of r] s ls'(1) by simp
    then show ?thesis
      using scan_line [OF s(2) short, of "r @ t"] unfolding s(1) ls'(2) by (cases "scan_lines t") simp
  qed
qed

section \<open>The text of a block\<close>

lemma high_rune_bytes:
  assumes "rune_len (c # t) = Some n" "128 \<le> byte c" "x \<in> set (take n (c # t))"
  shows "128 \<le> byte x"
  using assms
  by (auto simp: Let_def cont_def second_ok_def in_range_def split: if_splits list.splits)

lemma quote_body_printable: "c \<in> set (quote_body s) \<Longrightarrow> 32 \<le> byte c"
proof (induction s rule: quote_body.induct)
  case (2 a t)
  show ?case
  proof (cases "byte a < 128")
    case True
    have hex: "32 \<le> byte (hex_low n)" if "n < 16" for n using that by (auto simp: hex_low_def)
    have "32 \<le> byte x" if "x \<in> set (escape_ascii a)" for x
      using that hex [of "byte a div 16"] hex [of "byte a mod 16"] True
      by (auto simp: escape_ascii_def backslash_def Let_def split: if_splits)
    with True 2 show ?thesis by auto
  next
    case False
    then show ?thesis
      using 2 high_rune_bytes [of a t]
      by (fastforce simp: backslash_def Let_def simp del: rune_len.simps split: option.splits if_splits)
  qed
qed simp

definition text_block :: "Block \<Rightarrow> bool" where
  "text_block b \<longleftrightarrow> valid_utf8 (BTimestamp b) \<and> valid_utf8 (IntentID b) \<and> valid_utf8 (BType b)
     \<and> valid_utf8 (BStatus b) \<and> valid_utf8 (PrevHash b) \<and> valid_utf8 (Hash b)"

lemma nat_dec_int: "nat_dec n = int_dec (int n)"
  by (simp add: int_dec_def)

lemma decode_block:
  "decode_struct block_names put_block (JObject (block_members b)) empty_block = Some b"
proof -
  have "unat (Index b) < 2 ^ 64" using unsigned_less [of "Index b"] by simp
  then show ?thesis
    by (simp add: decode_struct_def block_members_def block_names_def put_block_def empty_block_def)
qed

lemma parse_block_json:
  assumes "text_block b"
  shows "parse_block (block_json b) = Some b"
proof -
  have "\<forall>(k, v) \<in> set (block_members b). valid_utf8 k \<and> flat v"
    using assms nat_dec_int by (auto simp: block_members_def text_block_def)
  then have "json_parse (block_json b) = Some (JObject (block_members b))"
    unfolding block_json_def by (intro json_parse_object) (simp_all add: block_members_def)
  then show ?thesis using decode_block by (simp add: parse_block_def)
qed

lemma separated_set: "set (separated xs) \<subseteq> insert CHR '','' (\<Union> (set ` set xs))"
  by (induction xs rule: separated.induct) auto

lemma member_printable: "flat v \<Longrightarrow> c \<in> set (member (k, v)) \<Longrightarrow> 32 \<le> byte c"
proof -
  have "32 \<le> byte c" if "c \<in> set (int_dec i)" for i
    using that nat_dec_digits [of c] by (auto simp: int_dec_def is_digit_def split: if_splits) fastforce+
  moreover have "32 \<le> byte c" if "c \<in> set (quote s)" for s
    using that quote_body_printable [of c s] by (auto simp: quote_def)
  ultimately show "flat v \<Longrightarrow> c \<in> set (member (k, v)) \<Longrightarrow> 32 \<le> byte c"
    by (cases v) (auto simp: member_def split: if_splits)
qed

lemma object_printable:
  assumes "\<forall>(k, v) \<in> set kvs. flat v" "c \<in> set (jenc (JObject kvs))"
  shows "32 \<le> byte c"
  using assms separated_set [of "map member kvs"] member_printable
  by (fastforce simp: jenc_object simp del: jenc.simps)

lemma block_json_shape:
  assumes "text_block b"
  shows "newline \<notin> set (block_json b)" "dropCR (block_json b) = block_json b" "block_json b \<noteq> []"
proof -
  have "\<forall>(k, v) \<in> set (block_members b). flat v"
    using assms nat_dec_int by (auto simp: block_members_def text_block_def)
  then have "32 \<le> byte c" if "c \<in> set (block_json b)" for c
    using that object_printable unfolding block_json_def by blast
  then show "newline \<notin> set (block_json b)" by (force simp: newline_def)
  show "block_json b \<noteq> []" by (simp add: block_json_def)
  show "dropCR (block_json b) = block_json b"
    unfolding block_json_def jenc_object by (simp add: dropCR_def)
qed

section \<open>Chains\<close>

fun chain :: "string \<Rightarrow> 64 word \<Rightarrow> Block list \<Rightarrow> bool" where
  "chain p i [] = True"
| "chain p i (b # bs) \<longleftrightarrow> Index b = i \<and> PrevHash b = p \<and> Hash b = calculateHash b \<and> chain (Hash b) (i + 1) bs"

text \<open>The hash and the index the block after a chain has\<close>

definition chain_end :: "string \<Rightarrow> 64 word \<Rightarrow> Block list \<Rightarrow> string \<times> 64 word" where
  "chain_end p i bs = (if bs = [] then p else Hash (last bs), i + of_nat (length bs))"

lemma chain_end_simps [simp]:
  "chain_end p i [] = (p, i)"
  "chain_end p i (b # bs) = chain_end (Hash b) (i + 1) bs"
  by (simp_all add: chain_end_def algebra_simps)

lemma chain_append [simp]:
  "chain p i (bs @ cs) \<longleftrightarrow> chain p i bs \<and> chain (fst (chain_end p i bs)) (snd (chain_end p i bs)) cs"
  by (induction bs arbitrary: p i) auto

definition nonempty :: "bytes list \<Rightarrow> bytes list" where
  "nonempty ls = filter (\<lambda>l. l \<noteq> []) ls"

lemma nonempty_simps [simp]:
  "nonempty [] = []" "nonempty ([] # ls) = nonempty ls" "l \<noteq> [] \<Longrightarrow> nonempty (l # ls) = l # nonempty ls"
  "nonempty (ls @ ks) = nonempty ls @ nonempty ks"
  by (simp_all add: nonempty_def)

lemma map_Some_Cons:
  "Some b # xs = map Some bs \<longleftrightarrow> (\<exists>cs. bs = b # cs \<and> xs = map Some cs)"
  by (cases bs) auto

text \<open>\<open>Verify\<close> accepts exactly the lines that parse to a chain.\<close>

lemma verify_lines_iff:
  "verify_lines p i ls = Inr r \<longleftrightarrow>
     (\<exists>bs. map parse_block (nonempty ls) = map Some bs \<and> chain p i bs \<and> r = chain_end p i bs)"
proof (induction ls arbitrary: p i)
  case (Cons l ls)
  consider "l = []" | "l \<noteq> []" "parse_block l = None" | b where "l \<noteq> []" "parse_block l = Some b" by blast
  then show ?case
  proof cases
    case 2
    have "None # xs \<noteq> map Some bs" for xs :: "Block option list" and bs by (cases bs) simp_all
    with 2 show ?thesis by simp
  next
    case 3
    then show ?thesis
      by (auto simp: Cons.IH map_Some_Cons)
  qed (simp add: Cons.IH)
qed auto

lemma last_block_snoc:
  "last_block (ls @ [l]) = (if l = [] then last_block ls else case parse_block l of None \<Rightarrow> last_block ls | Some b \<Rightarrow> Some b)"
  by (cases "parse_block l") (simp_all add: last_block_def)

lemma last_block_parsed:
  "map parse_block (nonempty ls) = map Some bs \<Longrightarrow> last_block ls = (if bs = [] then None else Some (last bs))"
proof (induction ls arbitrary: bs rule: rev_induct)
  case Nil
  then show ?case by (simp add: last_block_def)
next
  case (snoc l ls)
  show ?case
  proof (cases "l = []")
    case True
    with snoc show ?thesis by (simp add: last_block_snoc)
  next
    case False
    then have m: "map parse_block (nonempty ls) @ [parse_block l] = map Some bs" using snoc.prems by simp
    then obtain cs b where "bs = cs @ [b]" by (cases bs rule: rev_cases) auto
    with m False show ?thesis by (simp add: last_block_snoc)
  qed
qed

section \<open>Files\<close>

definition le_ok :: "ledger_env \<Rightarrow> bool" where
  "le_ok e \<longleftrightarrow> \<not> le_open_fails e \<and> le_read_fails e = None \<and> \<not> le_create_fails e \<and> le_write_fails e = None
     \<and> \<not> le_sync_fails e"

definition file_data :: "ledger_file \<Rightarrow> bytes" where
  "file_data file = (case file of None \<Rightarrow> [] | Some d \<Rightarrow> d)"

definition complete_file :: "ledger_file \<Rightarrow> bool" where
  "complete_file file \<longleftrightarrow> complete_data (file_data file)"

definition file_blocks :: "ledger_file \<Rightarrow> Block list" where
  "file_blocks file = map (the \<circ> parse_block) (nonempty (fst (scan_lines (file_data file))))"

text \<open>The file holds these blocks, and they are a chain.\<close>

definition holds :: "ledger_file \<Rightarrow> Block list \<Rightarrow> bool" where
  "holds file bs \<longleftrightarrow> (\<exists>ls. scan_lines (file_data file) = (ls, False) \<and> map parse_block (nonempty ls) = map Some bs)
     \<and> chain genesis 0 bs"

lemma file_data_simps [simp]: "file_data None = []" "file_data (Some d) = d"
  by (simp_all add: file_data_def)

lemma holds_blocks: "holds file bs \<Longrightarrow> file_blocks file = bs"
proof -
  have "map the xs = bs" if "xs = map Some bs" for xs :: "Block option list" using that by (simp add: comp_def)
  then show "holds file bs \<Longrightarrow> file_blocks file = bs" by (auto simp: holds_def file_blocks_def simp flip: map_map)
qed

lemma Verify_ledger_iff:
  assumes "le_ok e"
  shows "Verify_ledger e file = None \<longleftrightarrow> (\<exists>bs. holds file bs)"
proof (cases "file")
  case None
  have "holds None []" by (simp add: holds_def)
  with None assms show ?thesis by (auto simp: Verify_ledger_def le_ok_def)
next
  case (Some d)
  obtain ls long where sc: "scan_lines d = (ls, long)" by (cases "scan_lines d")
  show ?thesis
  proof (cases "verify_lines genesis 0 ls")
    case (Inl x)
    then have "\<not> holds file bs" for bs
      using verify_lines_iff [of genesis 0 ls "chain_end genesis 0 bs"] by (auto simp: holds_def Some sc)
    with Inl assms show ?thesis by (simp add: Verify_ledger_def le_ok_def Some scan_file_def sc)
  next
    case (Inr r)
    then obtain bs where "map parse_block (nonempty ls) = map Some bs" "chain genesis 0 bs"
      using verify_lines_iff [of genesis 0 ls r] by auto
    with Inr assms show ?thesis
      by (auto simp: Verify_ledger_def le_ok_def Some scan_file_def sc holds_def)
  qed
qed

lemma verified_holds: "le_ok e \<Longrightarrow> Verify_ledger e file = None \<Longrightarrow> holds file (file_blocks file)"
  using Verify_ledger_iff holds_blocks by metis

lemma readLastBlock_holds:
  assumes "le_ok e" "holds file bs"
  shows "readLastBlock e file = Inr (if bs = [] then None else Some (last bs))"
proof (cases "file")
  case None
  with assms have "bs = []" by (auto simp: holds_def)
  with None assms show ?thesis by (simp add: readLastBlock_def le_ok_def)
next
  case (Some d)
  with assms show ?thesis
    by (auto simp: readLastBlock_def le_ok_def holds_def scan_file_def last_block_parsed)
qed

section \<open>Appending\<close>

lemma ascii_hex: "ascii (EncodeToString bs)"
proof -
  have "byte (hex_digit n) < 128" if "n < 16" for n using that by (auto simp: hex_digit_def)
  moreover have "byte b div 16 < 16" "byte b mod 16 < 16" for b
  proof -
    have "byte b < 256" by simp
    then show "byte b div 16 < 16" by (intro less_mult_imp_div_less) simp
  qed simp
  ultimately show ?thesis by (induction bs) simp_all
qed

lemma chain_hashes:
  assumes "chain p i bs" "valid_utf8 p"
  shows "valid_utf8 (fst (chain_end p i bs))"
  using assms
proof (induction bs arbitrary: p i)
  case (Cons b bs)
  have "valid_utf8 (Hash b)" using Cons.prems(1) by (simp add: calculateHash_def ascii_valid ascii_hex)
  then show ?case using Cons.IH [of "Hash b" "i + 1"] Cons.prems(1) by auto
qed simp

lemma chain_index:
  assumes "chain p i bs" "bs \<noteq> []"
  shows "Index (last bs) + 1 = i + of_nat (length bs)"
  using assms
proof (induction bs arbitrary: p i)
  case (Cons b bs)
  show ?case
  proof (cases "bs = []")
    case False
    then have "Index (last bs) + 1 = (i + 1) + of_nat (length bs)"
      using Cons.IH [of "Hash b" "i + 1"] Cons.prems(1) by auto
    with False show ?thesis by (simp add: add.assoc)
  qed (use Cons.prems in simp)
qed simp

lemma valid_genesis: "valid_utf8 genesis"
  by (rule ascii_valid) (simp add: ascii_def genesis_def)

text \<open>The block that is appended to a chain\<close>

definition block_after :: "Block list \<Rightarrow> ledger_env \<Rightarrow> string \<Rightarrow> string \<Rightarrow> string \<Rightarrow> Block" where
  "block_after bs e iid typ sts = next_block (if bs = [] then None else Some (last bs)) e iid typ sts"

lemma next_block_fields [simp]:
  "IntentID (next_block l e iid typ sts) = iid" "BType (next_block l e iid typ sts) = typ"
  "BStatus (next_block l e iid typ sts) = sts"
  "BTimestamp (next_block l e iid typ sts) = Format_RFC3339 (le_zone e) (le_now e)"
  "Hash (next_block l e iid typ sts) = calculateHash (next_block l e iid typ sts)"
  "Index (next_block l e iid typ sts) = (case l of None \<Rightarrow> 0 | Some b \<Rightarrow> Index b + 1)"
  "PrevHash (next_block l e iid typ sts) = (case l of None \<Rightarrow> genesis | Some b \<Rightarrow> Hash b)"
  by (simp_all add: next_block_def Let_def calculateHash_def hash_input_def)

lemma block_after_chain:
  assumes "chain genesis 0 bs"
  shows "chain genesis 0 (bs @ [block_after bs e iid typ sts])"
  using assms chain_index [OF assms] by (auto simp: block_after_def chain_end_def)

lemma block_after_text:
  assumes "chain genesis 0 bs" "valid_utf8 iid" "valid_utf8 typ" "valid_utf8 sts"
  shows "text_block (block_after bs e iid typ sts)"
proof -
  have "valid_utf8 (Format_RFC3339 (le_zone e) (le_now e))" by (intro ascii_valid plain_ascii) simp
  moreover have "valid_utf8 (PrevHash (block_after bs e iid typ sts))"
    using chain_hashes [OF assms(1) valid_genesis] by (auto simp: block_after_def chain_end_def valid_genesis)
  ultimately show ?thesis
    using assms(2-4) by (auto simp: text_block_def block_after_def calculateHash_def intro: ascii_valid ascii_hex)
qed

lemma holds_append:
  assumes "holds file bs" "complete_file file" "text_block b" "length (block_json b) < max_token"
    and "chain genesis 0 (bs @ [b])"
  shows "holds (Some (file_data file @ block_line b)) (bs @ [b])"
proof -
  obtain ls where ls: "scan_lines (file_data file) = (ls, False)" "map parse_block (nonempty ls) = map Some bs"
    using assms(1) by (auto simp: holds_def)
  note shape = block_json_shape [OF assms(3)]
  have "scan_lines (block_line b) = ([block_json b], False)"
    using scan_line [OF shape(1) assms(4), of "[]"] by (simp add: block_line_def shape(2))
  then have "scan_lines (file_data file @ block_line b) = (ls @ [block_json b], False)"
    using scan_lines_append [OF assms(2) [unfolded complete_file_def] ls(1), of "block_line b"] by simp
  moreover have "map parse_block (nonempty (ls @ [block_json b])) = map Some (bs @ [b])"
    using ls(2) shape(3) parse_block_json [OF assms(3)] by simp
  ultimately show ?thesis using assms(5) by (auto simp: holds_def)
qed

lemma Append_holds:
  assumes "le_ok e" "holds file bs" "complete_file file" "valid_utf8 iid" "valid_utf8 typ" "valid_utf8 sts"
    and "length (block_json (block_after bs e iid typ sts)) < max_token"
  shows "Append e file iid typ sts = (Inr (block_after bs e iid typ sts), Some (file_data file @ block_line (block_after bs e iid typ sts)))"
    and "holds (Some (file_data file @ block_line (block_after bs e iid typ sts))) (bs @ [block_after bs e iid typ sts])"
    and "complete_file (Some (file_data file @ block_line (block_after bs e iid typ sts)))"
proof -
  have ch: "chain genesis 0 bs" using assms(2) by (simp add: holds_def)
  show "Append e file iid typ sts = (Inr (block_after bs e iid typ sts), Some (file_data file @ block_line (block_after bs e iid typ sts)))"
    using assms(1) readLastBlock_holds [OF assms(1,2)]
    by (simp add: Append_def Let_def le_ok_def file_data_def block_after_def)
  show "holds (Some (file_data file @ block_line (block_after bs e iid typ sts))) (bs @ [block_after bs e iid typ sts])"
    using block_after_chain [OF ch] block_after_text [OF ch assms(4-6)] assms(7)
    by (intro holds_append [OF assms(2,3)])
  show "complete_file (Some (file_data file @ block_line (block_after bs e iid typ sts)))"
    by (simp add: complete_file_def block_line_def)
qed

text \<open>
  An audit log, as its client sees it: whatever the log is, an append that is possible succeeds, keeps
  the log sound and adds one entry, that of the request, at its end.
\<close>

locale audit_log =
  fixes append_to :: "'e \<Rightarrow> 'f \<Rightarrow> 'r \<Rightarrow> ('x + 'b) \<times> 'f"
    and sound :: "'f \<Rightarrow> bool"
    and entries :: "'f \<Rightarrow> 'b list"
    and possible :: "'e \<Rightarrow> 'f \<Rightarrow> 'r \<Rightarrow> bool"
    and request_of :: "'b \<Rightarrow> 'r"
  assumes append_entry: "sound f \<Longrightarrow> possible e f r \<Longrightarrow>
      \<exists>b f'. append_to e f r = (Inr b, f') \<and> sound f' \<and> entries f' = entries f @ [b] \<and> request_of b = r"
begin

text \<open>A run of appends, each of which is possible when its turn comes\<close>

primrec run_possible :: "('e \<times> 'r) list \<Rightarrow> 'f \<Rightarrow> bool" where
  "run_possible [] f = True"
| "run_possible (er # ers) f \<longleftrightarrow> possible (fst er) f (snd er) \<and> run_possible ers (snd (append_to (fst er) f (snd er)))"

lemma run_entries:
  assumes "sound f" "run_possible ers f"
  defines "f' \<equiv> fold (\<lambda>(e, r) f. snd (append_to e f r)) ers f"
  shows "sound f' \<and> (\<exists>bs. entries f' = entries f @ bs \<and> map request_of bs = map snd ers)"
  using assms(1,2) unfolding f'_def
proof (induction ers arbitrary: f)
  case (Cons er ers)
  obtain e r where er: "er = (e, r)" by (cases er)
  obtain b g where g: "append_to e f r = (Inr b, g)" "sound g" "entries g = entries f @ [b]" "request_of b = r"
    using append_entry Cons.prems er by fastforce
  then obtain bs where "sound (fold (\<lambda>(e, r) f. snd (append_to e f r)) ers g)"
    "entries (fold (\<lambda>(e, r) f. snd (append_to e f r)) ers g) = entries g @ bs" "map request_of bs = map snd ers"
    using Cons.IH [of g] Cons.prems er by auto
  with g show ?case by (auto simp: er intro!: exI [of _ "b # bs"])
qed simp

end

text \<open>The ledger is one: a request is an intent identifier, a type and a status.\<close>

definition append_request :: "ledger_env \<Rightarrow> ledger_file \<Rightarrow> string \<times> string \<times> string \<Rightarrow> (ledger_error + Block) \<times> ledger_file" where
  "append_request e file r = (case r of (iid, typ, sts) \<Rightarrow> Append e file iid typ sts)"

definition sound_file :: "ledger_file \<Rightarrow> bool" where
  "sound_file file \<longleftrightarrow> complete_file file \<and> holds file (file_blocks file)"

definition can_append :: "ledger_env \<Rightarrow> ledger_file \<Rightarrow> string \<times> string \<times> string \<Rightarrow> bool" where
  "can_append e file r \<longleftrightarrow>
     (case r of (iid, typ, sts) \<Rightarrow> le_ok e \<and> valid_utf8 iid \<and> valid_utf8 typ \<and> valid_utf8 sts
        \<and> length (block_json (block_after (file_blocks file) e iid typ sts)) < max_token)"

definition block_request :: "Block \<Rightarrow> string \<times> string \<times> string" where
  "block_request b = (IntentID b, BType b, BStatus b)"

lemma block_after_request [simp]: "block_request (block_after bs e iid typ sts) = (iid, typ, sts)"
  by (simp add: block_request_def block_after_def)

interpretation ledger: audit_log append_request sound_file file_blocks can_append block_request
proof
  fix f e r
  assume f: "sound_file f" and poss: "can_append e f r"
  obtain iid ty sts where r: "r = (iid, ty, sts)" by (cases r) auto
  let ?b = "block_after (file_blocks f) e iid ty sts"
  let ?f = "Some (file_data f @ block_line ?b)"
  have "holds f (file_blocks f)" "complete_file f" using f by (simp_all add: sound_file_def)
  then have app: "Append e f iid ty sts = (Inr ?b, ?f)" "holds ?f (file_blocks f @ [?b])" "complete_file ?f"
    using Append_holds [of e f "file_blocks f" iid ty sts] poss by (simp_all add: can_append_def r)
  then show "\<exists>b f'. append_request e f r = (Inr b, f') \<and> sound_file f' \<and>
      file_blocks f' = file_blocks f @ [b] \<and> block_request b = r"
    using holds_blocks [OF app(2)] by (simp add: append_request_def sound_file_def r)
qed

text \<open>
  C14. Appending keeps the ledger verifiable: after an append without a failing system call to a file that
  verifies, is not torn and whose new line fits the scanner, the file verifies again, and it holds the
  blocks it held and the one that is returned, which records the request under the next index.
\<close>

theorem append_keeps_verified:
  assumes "le_ok e" "Verify_ledger e file = None" "complete_file file"
    and "valid_utf8 iid" "valid_utf8 typ" "valid_utf8 sts"
    and "length (block_json (block_after (file_blocks file) e iid typ sts)) < max_token"
  shows "\<exists>b file'. Append e file iid typ sts = (Inr b, file') \<and> Verify_ledger e file' = None \<and> complete_file file'
    \<and> file_blocks file' = file_blocks file @ [b] \<and> block_request b = (iid, typ, sts)
    \<and> Index b = of_nat (length (file_blocks file))"
proof -
  let ?b = "block_after (file_blocks file) e iid typ sts"
  note h = verified_holds [OF assms(1,2)]
  note app = Append_holds [OF assms(1) h assms(3-7)]
  have ch: "chain genesis 0 (file_blocks file)" using h by (simp add: holds_def)
  have "Index ?b = of_nat (length (file_blocks file))"
    using chain_index [OF ch] by (simp add: block_after_def)
  with app holds_blocks [OF app(2)] show ?thesis
    using Verify_ledger_iff [OF assms(1)] by (auto simp: block_request_def block_after_def)
qed

section \<open>What the last hash determines\<close>

lemma length_chain_end:
  assumes "chain p i bs" "length p = 64"
  shows "length (fst (chain_end p i bs)) = 64"
  using assms
proof (induction bs arbitrary: p i)
  case (Cons b bs)
  have "length (Hash b) = 64" using Cons.prems(1) by (simp add: calculateHash_def)
  then show ?case using Cons.IH [of "Hash b" "i + 1"] Cons.prems(1) by auto
qed simp

lemma hash_input_prev:
  assumes "hash_input b = hash_input c" "length (PrevHash b) = 64" "length (PrevHash c) = 64"
  shows "PrevHash b = PrevHash c"
proof -
  obtain u v where "hash_input b = u @ PrevHash b" "hash_input c = v @ PrevHash c" by (simp add: hash_input_def)
  with assms show ?thesis by (metis append_eq_append_conv)
qed

definition collision :: "Block list \<Rightarrow> Block list \<Rightarrow> bool" where
  "collision bs cs \<longleftrightarrow> (\<exists>b \<in> set bs. \<exists>c \<in> set cs. hash_input b \<noteq> hash_input c \<and> sha256 (hash_input b) = sha256 (hash_input c))"

lemma collision_append: "collision bs cs \<Longrightarrow> collision (bs @ [b]) (cs @ [c])"
  by (auto simp: collision_def)

lemma chains_with_one_end:
  assumes "chain p i bs" "chain p i cs" "length p = 64" "fst (chain_end p i bs) = fst (chain_end p i cs)"
  shows "map hash_input bs = map hash_input cs \<or> collision bs cs \<or> (\<exists>b \<in> set bs \<union> set cs. Hash b = p)"
  using assms(1,2,4)
proof (induction bs arbitrary: cs rule: rev_induct)
  case Nil
  then show ?case by (cases cs rule: rev_cases) (auto simp: chain_end_def)
next
  case (snoc b bs)
  show ?case
  proof (cases cs rule: rev_cases)
    case Nil
    with snoc.prems show ?thesis by (auto simp: chain_end_def)
  next
    case (snoc cs' c)
    have b: "chain p i bs" "PrevHash b = fst (chain_end p i bs)" "Hash b = calculateHash b"
      using snoc.prems(1) by simp_all
    have c: "chain p i cs'" "PrevHash c = fst (chain_end p i cs')" "Hash c = calculateHash c"
      using snoc.prems(2) snoc by simp_all
    have "Hash b = Hash c" using snoc.prems(3) snoc by (simp add: chain_end_def)
    then have sha: "sha256 (hash_input b) = sha256 (hash_input c)" using b(3) c(3) by (simp add: calculateHash_def)
    show ?thesis
    proof (cases "hash_input b = hash_input c")
      case False
      with sha show ?thesis by (auto simp: snoc collision_def)
    next
      case True
      then have "PrevHash b = PrevHash c"
        using length_chain_end [OF b(1) assms(3)] length_chain_end [OF c(1) assms(3)] b(2) c(2)
        by (intro hash_input_prev) simp_all
      then have "fst (chain_end p i bs) = fst (chain_end p i cs')" using b(2) c(2) by simp
      from snoc.IH [OF b(1) c(1) this] True show ?thesis by (auto simp: snoc collision_append)
    qed
  qed
qed

text \<open>
  C16. The last hash pins down the whole history: of two ledgers that verify and end with the same hash,
  the blocks have the same hashed contents, one by one, unless two different blocks collide under
  SHA-256 or one hashes to the sixty-four zeros the chain starts from.
\<close>

theorem last_hash_fixes_history:
  assumes "le_ok e" "Verify_ledger e f = None" "Verify_ledger e g = None"
    and "file_blocks f \<noteq> []" "file_blocks g \<noteq> []" "Hash (last (file_blocks f)) = Hash (last (file_blocks g))"
  shows "map hash_input (file_blocks f) = map hash_input (file_blocks g)
    \<or> (\<exists>b \<in> set (file_blocks f). \<exists>c \<in> set (file_blocks g). hash_input b \<noteq> hash_input c \<and> calculateHash b = calculateHash c)
    \<or> (\<exists>b \<in> set (file_blocks f) \<union> set (file_blocks g). calculateHash b = genesis)"
proof -
  have ch: "chain genesis 0 (file_blocks f)" "chain genesis 0 (file_blocks g)"
    using verified_holds [OF assms(1,2)] verified_holds [OF assms(1,3)] by (simp_all add: holds_def)
  have own: "Hash b = calculateHash b" if "chain p i bs" "b \<in> set bs" for p i bs b
    using that by (induction bs arbitrary: p i) auto
  have "map hash_input (file_blocks f) = map hash_input (file_blocks g) \<or> collision (file_blocks f) (file_blocks g)
    \<or> (\<exists>b \<in> set (file_blocks f) \<union> set (file_blocks g). Hash b = genesis)"
    using assms(4-6) by (intro chains_with_one_end [OF ch]) (simp_all add: genesis_def chain_end_def)
  then show ?thesis using own [OF ch(1)] own [OF ch(2)] by (fastforce simp: collision_def calculateHash_def)
qed

section \<open>What no hash protects\<close>

definition ledger_text :: "Block list \<Rightarrow> bytes" where
  "ledger_text bs = concat (map block_line bs)"

definition fits :: "Block \<Rightarrow> bool" where
  "fits b \<longleftrightarrow> text_block b \<and> length (block_json b) < max_token"

lemma holds_text:
  assumes "chain genesis 0 bs" "\<forall>b \<in> set bs. fits b"
  shows "holds (Some (ledger_text bs)) bs \<and> complete_file (Some (ledger_text bs))"
  using assms
proof (induction bs rule: rev_induct)
  case Nil
  then show ?case by (simp add: holds_def ledger_text_def complete_file_def complete_data_def)
next
  case (snoc b bs)
  then have "holds (Some (ledger_text bs)) bs" "complete_file (Some (ledger_text bs))" by simp_all
  then have "holds (Some (ledger_text bs @ block_line b)) (bs @ [b])"
    using holds_append [of "Some (ledger_text bs)" bs b] snoc.prems by (simp add: fits_def)
  then show ?case by (simp add: ledger_text_def complete_file_def block_line_def)
qed

lemma text_verifies: "le_ok e \<Longrightarrow> chain genesis 0 bs \<Longrightarrow> \<forall>b \<in> set bs. fits b \<Longrightarrow> Verify_ledger e (Some (ledger_text bs)) = None"
  using holds_text Verify_ledger_iff by blast

text \<open>
  C40. A ledger can be rewritten so that it still verifies.  Its end can be cut off at any block, and
  what is at the end of a block's intent identifier can be moved to the front of its type: the fields
  are hashed without delimiters, so the hash, and with it every later block, stays as it was.
\<close>

theorem rewritten_ledger_verifies:
  assumes "le_ok e" "chain genesis 0 (bs @ b # cs)" "IntentID b = x @ y"
    and "\<forall>c \<in> set (bs @ b # b\<lparr>IntentID := x, BType := y @ BType b\<rparr> # cs). fits c"
  shows "Verify_ledger e (Some (ledger_text (bs @ b # cs))) = None \<and>
    Verify_ledger e (Some (ledger_text bs)) = None \<and>
    Verify_ledger e (Some (ledger_text (bs @ b\<lparr>IntentID := x, BType := y @ BType b\<rparr> # cs))) = None"
proof -
  let ?b = "b\<lparr>IntentID := x, BType := y @ BType b\<rparr>"
  have "calculateHash ?b = calculateHash b" using assms(3) by (simp add: calculateHash_def hash_input_def)
  then have "chain genesis 0 (bs @ ?b # cs)" using assms(2) by auto
  moreover have "chain genesis 0 bs" using assms(2) by simp
  ultimately show ?thesis using assms(2,4) by (intro conjI text_verifies [OF assms(1)]) auto
qed

end
