(* ===== verification/LedgerTorn.thy ===== *)
theory LedgerTorn imports LedgerProps begin

text \<open>
  A torn write: the last line of the ledger is a proper part of a block.  The part does not parse,
  alone or with the next block written behind it, whatever the place where it was cut.
\<close>

section \<open>Parsing a part of an object\<close>

text \<open>What stands behind the cut: nothing, or the line of another block\<close>

definition after_cut :: "bytes \<Rightarrow> bool" where
  "after_cut t \<longleftrightarrow> t = [] \<or> (\<exists>b. text_block b \<and> t = block_json b)"

lemma block_json_head:
  obtains u where "block_json b = CHR ''{'' # dquote # CHR ''i'' # u"
  unfolding block_json_def jenc_object block_members_def
  by (simp add: member_def quote_def escape_ascii_def Let_def)

lemma after_cut_cases:
  assumes "after_cut t"
  obtains "t = []" | u where "t = CHR ''{'' # dquote # CHR ''i'' # u"
  using assms block_json_head by (auto simp: after_cut_def)

lemma parse_after_cut:
  assumes "after_cut t" "t = [] \<or> 8 < n" "d < max_depth"
  shows "case parse_value n d t of None \<Rightarrow> True | Some (v, r) \<Rightarrow> r = []"
proof (cases "t = []")
  case True
  then show ?thesis by (cases n) simp_all
next
  case False
  then obtain b where b: "text_block b" "t = block_json b" using assms(1) by (auto simp: after_cut_def)
  obtain m where m: "n = Suc m" "7 < m" using assms(2) False by (cases n) auto
  have "\<forall>(k, v) \<in> set (block_members b). valid_utf8 k \<and> flat v"
    using b(1) nat_dec_int by (auto simp: block_members_def text_block_def)
  moreover have "length (block_members b) < m" using m(2) by (simp add: block_members_def)
  ultimately show ?thesis
    using parse_value_object [of "block_members b" m d "[]"] assms(3)
    by (simp add: b(2) block_json_def m(1) block_members_def del: jenc.simps parse_value.simps)
qed

lemma unquote_plain:
  assumes "plain s" "length s < n"
  shows "unquote n (s @ dquote # r) = Some (s, r)"
  using assms
proof (induction s arbitrary: n)
  case Nil
  then show ?case by (cases n) simp_all
next
  case (Cons c s)
  then obtain m where "n = Suc m" by (cases n) auto
  with Cons show ?case by (simp add: plain_char_def)
qed

lemma unquote_open:
  assumes "plain s"
  shows "unquote n s = None"
  using assms
proof (induction s arbitrary: n)
  case Nil
  then show ?case by (cases n) simp_all
next
  case (Cons c s)
  then show ?case by (cases n) (simp_all add: plain_char_def)
qed

text \<open>A string that is cut inside: it runs on to the first quote of what follows.\<close>

lemma unquote_cut:
  assumes "plain s" "after_cut t"
  shows "unquote (length (s @ t)) (s @ t) = None
    \<or> (\<exists>k u. unquote (length (s @ t)) (s @ t) = Some (k, CHR ''i'' # u))"
  using assms(2)
proof (cases rule: after_cut_cases)
  case 1
  then show ?thesis using unquote_open [OF assms(1)] by simp
next
  case (2 u)
  have "plain (s @ ''{'')" using assms(1) by (simp add: plain_char_def)
  from unquote_plain [OF this, of "length (s @ t)" "CHR ''i'' # u"] show ?thesis by (simp add: 2)
qed

lemma parse_value_quote:
  "parse_value (Suc m) d (dquote # s) = map_option (map_prod JString id) (unquote (length s) s)"
  by (simp del: unquote.simps)

text \<open>Values of a block: plain strings and numbers\<close>

fun plain_value :: "json \<Rightarrow> bool" where
  "plain_value (JString s) = plain s"
| "plain_value (JNumber lit) = (\<exists>n. lit = nat_dec n)"
| "plain_value _ = False"

lemma quote_plain: "plain s \<Longrightarrow> quote_body s = s"
  by (induction s) (auto simp: plain_char_def escape_ascii_def Let_def)

lemma number_lit_digits:
  assumes "ds \<noteq> []" "list_all is_digit ds" "hd ds \<noteq> CHR ''0'' \<or> length ds = 1"
    and "t = [] \<or> (\<exists>u. t = CHR ''{'' # u)"
  shows "number_lit (ds @ t) = Some (ds, t)"
proof -
  obtain c r where ds: "ds = c # r" using assms(1) by (cases ds) auto
  then have "c \<noteq> CHR ''-''" using assms(2) by (auto simp: is_digit_def)
  moreover have brace: "\<not> is_digit CHR ''{''" by (simp add: is_digit_def)
  then have "span_digits (ds @ t) = (ds, t)"
    using assms(2,4) by (auto simp: span_digits_def list_all_iff takeWhile_append dropWhile_append)
  ultimately show ?thesis using assms(3,4) by (auto simp: number_lit_def ds Let_def)
qed

text \<open>Text at which neither the next member nor the end of an object can stand\<close>

definition no_delimiter :: "bytes \<Rightarrow> bool" where
  "no_delimiter r \<longleftrightarrow> (case r of [] \<Rightarrow> True | c # _ \<Rightarrow> \<not> is_space c \<and> c \<noteq> CHR '','' \<and> c \<noteq> CHR ''}'' \<and> c \<noteq> CHR '':'')"

lemma no_delimiter_simps [simp]:
  "no_delimiter []" "no_delimiter (CHR ''{'' # u)" "no_delimiter (CHR ''i'' # u)"
  by (simp_all add: no_delimiter_def is_space_def)

lemma after_cut_no_delimiter: "after_cut t \<Longrightarrow> no_delimiter t"
  by (erule after_cut_cases) simp_all

text \<open>A value that is cut, or whole, with the cut behind it: what is left is no delimiter.\<close>

lemma parse_cut_value:
  assumes "plain_value v" "w @ w' = jenc v" "after_cut t" "t = [] \<or> 8 < n" "d < max_depth"
  shows "case parse_value n d (w @ t) of None \<Rightarrow> True
    | Some (x, r) \<Rightarrow> no_delimiter r"
proof -
  have rest: "t = [] \<or> (\<exists>u. t = CHR ''{'' # u)" using assms(3) by (cases rule: after_cut_cases) auto
  show ?thesis
  proof (cases "w = []")
    case True
    with parse_after_cut [OF assms(3-5)] show ?thesis by (auto split: option.splits)
  next
    case False
    then obtain c r where cr: "w = c # r" by (cases w) auto
    show ?thesis
    proof (cases "n = 0")
      case True
      then show ?thesis by simp
    next
      case n: False
      then obtain m where m: "n = Suc m" by (cases n) auto
      show ?thesis
      proof (cases v)
      case (JString s)
      then have s: "plain s" using assms(1) by simp
      have q: "w @ w' = dquote # s @ [dquote]" using assms(2) JString quote_plain [OF s] by (simp add: quote_def)
      then obtain w1 where w: "w = dquote # w1" "w1 @ w' = s @ [dquote]" using False by (cases w) auto
      show ?thesis
      proof (cases "w' = []")
        case True
        then have "w @ t = dquote # s @ dquote # t" using w by simp
        moreover have "unquote (length (s @ dquote # t)) (s @ dquote # t) = Some (s, t)"
          using s by (intro unquote_plain) simp_all
        ultimately have "parse_value n d (w @ t) = Some (JString s, t)"
          by (simp only: m parse_value_quote) simp
        with after_cut_no_delimiter [OF assms(3)] show ?thesis by simp
      next
        case False
        then have "w1 @ butlast w' = s" using w(2) by (metis butlast_append butlast_snoc)
        then have "plain w1" using s by (metis list_all_append)
        from unquote_cut [OF this assms(3)] have "parse_value n d (w @ t) = None
          \<or> (\<exists>k u. parse_value n d (w @ t) = Some (JString k, CHR ''i'' # u))"
          unfolding m w(1) append_Cons parse_value_quote by (elim disjE exE) simp_all
        then show ?thesis by (elim disjE exE) simp_all
      qed
    next
      case (JNumber lit)
      then obtain k where k: "w @ w' = nat_dec k" using assms(1,2) by auto
      obtain c r where w: "w = c # r" using False by (cases w) auto
      have dig: "list_all is_digit w" using k by (metis list_all_append list_all_digits_nat_dec)
      have "length w = 1" if "c = CHR ''0''"
      proof -
        have "hd (nat_dec k) = CHR ''0''" using that k w by (metis append_Cons list.sel(1))
        then have "w @ w' = ''0''" using nat_dec_no_leading_zero nat_dec_0 k by metis
        with w show ?thesis by simp
      qed
      then have "number_lit (w @ t) = Some (w, t)"
        using w dig rest by (intro number_lit_digits) auto
      moreover have "is_digit c" using dig w by simp
      ultimately have "parse_value n d (w @ t) = Some (JNumber w, t)"
        using digit_not_token [of c] by (simp add: m w)
      with after_cut_no_delimiter [OF assms(3)] show ?thesis by simp
      qed (use assms(1) in simp_all)
    qed
  qed
qed

lemma no_delimiter_skip: "no_delimiter r \<Longrightarrow> skip_ws r = r"
  by (cases r) (simp_all add: no_delimiter_def)

lemma parse_members_quote:
  "parse_members (Suc n) d (dquote # s) =
     (case unquote (length s) s of
        None \<Rightarrow> None
      | Some (key, s2) \<Rightarrow>
          (case skip_ws s2 of
             [] \<Rightarrow> None
           | col # s3 \<Rightarrow>
               if col \<noteq> CHR '':'' then None
               else case parse_value n d s3 of
                      None \<Rightarrow> None
                    | Some (v, r) \<Rightarrow>
                        (case skip_ws r of
                           [] \<Rightarrow> None
                         | c # r' \<Rightarrow>
                             if c = CHR '','' then map_option (map_prod ((#) (key, v)) id) (parse_members n d r')
                             else if c = CHR ''}'' then Some ([(key, v)], r') else None)))"
  by (simp del: parse_value.simps unquote.simps)

text \<open>After a key that is not followed by a colon, or a value not followed by a delimiter, no member is read.\<close>

lemma parse_members_key:
  assumes "unquote (length s) s = None \<or> (\<exists>k r. unquote (length s) s = Some (k, r) \<and> no_delimiter r)"
  shows "parse_members (Suc n) d (dquote # s) = None"
  unfolding parse_members_quote using assms
proof (elim disjE exE conjE)
  fix k r
  assume "unquote (length s) s = Some (k, r)" "no_delimiter r"
  then show "(case unquote (length s) s of None \<Rightarrow> None | Some (key, s2) \<Rightarrow>
      (case skip_ws s2 of [] \<Rightarrow> None | col # s3 \<Rightarrow> if col \<noteq> CHR '':'' then None
         else case parse_value n d s3 of None \<Rightarrow> None | Some (v, r) \<Rightarrow>
           (case skip_ws r of [] \<Rightarrow> None | c # r' \<Rightarrow>
              if c = CHR '','' then map_option (map_prod ((#) (key, v)) id) (parse_members n d r')
              else if c = CHR ''}'' then Some ([(key, v)], r') else None))) = None"
    by (simp add: no_delimiter_skip) (cases r; simp add: no_delimiter_def)
qed simp

lemma parse_members_value:
  assumes "plain k" "case parse_value n d s of None \<Rightarrow> True | Some (x, r) \<Rightarrow> no_delimiter r"
  shows "parse_members (Suc n) d (dquote # k @ dquote # CHR '':'' # s) = None"
proof -
  let ?s = "k @ dquote # CHR '':'' # s"
  have u: "unquote (length ?s) ?s = Some (k, CHR '':'' # s)" using assms(1) by (intro unquote_plain) simp_all
  show ?thesis
  proof (cases "parse_value n d s")
    case None
    then show ?thesis unfolding parse_members_quote u by (simp add: is_space_def)
  next
    case (Some xr)
    then obtain x r where "parse_value n d s = Some (x, r)" "no_delimiter r" using assms(2) by (cases xr) auto
    then show ?thesis unfolding parse_members_quote u
      by (simp add: is_space_def no_delimiter_skip) (cases r; simp add: no_delimiter_def)
  qed
qed

lemma plain_flat: "plain_value v \<Longrightarrow> flat v"
  by (cases v) (auto simp: nat_dec_int intro: ascii_valid plain_ascii)

lemma separated_Cons: "separated (x # xs) = x @ (if xs = [] then [] else CHR '','' # separated xs)"
  by (cases xs) simp_all

lemma member_plain: "plain k \<Longrightarrow> member (k, v) = dquote # k @ dquote # CHR '':'' # jenc v"
  by (simp add: member_def quote_def quote_plain)

lemma parse_members_short: "n \<le> Suc 0 \<Longrightarrow> parse_members n d s = None"
  by (cases n) (auto split: list.splits option.splits)

lemma parse_cut_members:
  assumes "\<forall>(k, v) \<in> set kvs. plain k \<and> plain_value v" "after_cut t" "d < max_depth"
    and "p @ p' = separated (map member kvs) @ ''}''" "p' \<noteq> []" "t = [] \<or> length kvs + 9 < n"
  shows "parse_members n d (p @ t) = None"
  using assms(1,4-6)
proof (induction kvs arbitrary: p n)
  case Nil
  then have "p = []" by (cases p) simp_all
  then show ?case using assms(2) by (cases n) (auto elim!: after_cut_cases simp: is_space_def)
next
  case (Cons kv kvs)
  obtain k v where kv: "kv = (k, v)" "plain k" "plain_value v" using Cons.prems(1) by (cases kv) auto
  consider "n \<le> Suc 0" | m where "n = Suc (Suc m)" "t = [] \<or> length kvs + 9 < Suc m" "t = [] \<or> 8 < Suc m"
    using Cons.prems(4) by (cases n; cases "n - 1") auto
  then show ?case
  proof cases
  case 1
  then show ?thesis using parse_members_short by simp
  next
  case m: (2 m)
  define rest where "rest = (if kvs = [] then ''}'' else CHR '','' # separated (map member kvs) @ ''}'')"
  have body: "p @ p' = dquote # k @ dquote # CHR '':'' # jenc v @ rest"
    using Cons.prems(2) member_plain [OF kv(2), of v] by (simp add: kv(1) separated_Cons rest_def)
  show ?thesis
  proof (cases p)
    case Nil
    then show ?thesis using assms(2) m by (auto elim!: after_cut_cases simp: is_space_def)
  next
    case (Cons c p1)
    then have p: "p = dquote # p1" "p1 @ p' = k @ dquote # CHR '':'' # jenc v @ rest" using body by simp_all
    then consider us where "k = p1 @ us" | us where "p1 = k @ us" "us \<noteq> []" "us @ p' = dquote # CHR '':'' # jenc v @ rest"
      unfolding append_eq_append_conv2 by fastforce
    then show ?thesis
    proof cases
      case 1
      then have "plain p1" using kv(2) by simp
      from unquote_cut [OF this assms(2)] show ?thesis
        unfolding p(1) append_Cons m(1) by (intro parse_members_key) (elim disjE exE; simp)
    next
      case 2
      then obtain us' where us: "us = dquote # us'" "us' @ p' = CHR '':'' # jenc v @ rest" by (cases us) auto
      show ?thesis
      proof (cases us')
        case Nil
        have "unquote (length (k @ dquote # t)) (k @ dquote # t) = Some (k, t)"
          using kv(2) by (intro unquote_plain) simp_all
        then show ?thesis
          using after_cut_no_delimiter [OF assms(2)] unfolding p(1) 2(1) us(1) Nil append_Cons append_assoc m(1)
          by (intro parse_members_key) simp
      next
        case (Cons c w)
        then have w: "us' = CHR '':'' # w" "w @ p' = jenc v @ rest" using us(2) by simp_all
        have eq: "p @ t = dquote # k @ dquote # CHR '':'' # w @ t" by (simp add: p(1) 2(1) us(1) w(1))
        from w(2) consider w' where "w @ w' = jenc v" | x where "w = jenc v @ x" "x \<noteq> []" "x @ p' = rest"
          unfolding append_eq_append_conv2 by fastforce
        then show ?thesis
        proof cases
          case 1
          show ?thesis unfolding eq m(1)
            by (rule parse_members_value [OF kv(2) parse_cut_value [OF kv(3) 1 assms(2) m(3) assms(3)]])
        next
          case 2
          then have "kvs \<noteq> []" using Cons.prems(3) by (cases x) (auto simp: rest_def split: if_splits)
          then obtain q where q: "x = CHR '','' # q" "q @ p' = separated (map member kvs) @ ''}''"
            using 2 by (cases x) (auto simp: rest_def)
          have "parse_members (Suc m) d (q @ t) = None"
            using Cons.prems q(2) m(2) by (intro Cons.IH) auto
          moreover have "p @ t = member (k, v) @ CHR '','' # q @ t"
            by (simp add: eq 2(1) q(1) member_plain [OF kv(2)])
          ultimately show ?thesis
            using parse_member [OF ascii_valid [OF plain_ascii [OF kv(2)]] plain_flat [OF kv(3)], of "CHR '',''" m d "q @ t"]
            by (simp add: m(1) delimiter_def del: parse_members.simps)
        qed
      qed
    qed
  qed
  qed
qed

section \<open>A torn line\<close>

definition plain_block :: "Block \<Rightarrow> bool" where
  "plain_block b \<longleftrightarrow> plain (BTimestamp b) \<and> plain (IntentID b) \<and> plain (BType b) \<and> plain (BStatus b)
     \<and> plain (PrevHash b) \<and> plain (Hash b)"

lemma plain_names: "\<forall>k \<in> set block_names. plain k"
  by (simp add: block_names_def plain_char_def)

lemma plain_members:
  assumes "plain_block b"
  shows "\<forall>(k, v) \<in> set (block_members b). plain k \<and> plain_value v"
  using assms by (auto simp: block_members_def plain_block_def plain_char_def)

lemma json_parse_torn:
  assumes "plain_block b" "torn @ rest = block_json b" "torn \<noteq> []" "rest \<noteq> []" "after_cut t"
  shows "json_parse (torn @ t) = None"
proof -
  let ?kvs = "block_members b"
  obtain p where p: "torn = CHR ''{'' # p" "p @ rest = separated (map member ?kvs) @ ''}''"
    using assms(2,3) unfolding block_json_def jenc_object by (cases torn) auto
  have len: "t = [] \<or> 18 < length t"
  proof (cases rule: after_cut_cases [OF assms(5)])
    case (2 u)
    then obtain c where "t = block_json c" using assms(5) by (auto simp: after_cut_def)
    moreover have "18 < length (block_json c)"
      unfolding block_json_def jenc_object block_members_def by (simp add: member_def quote_def escape_ascii_def Let_def)
    ultimately show ?thesis by simp
  qed simp
  define n where "n = 2 * length (torn @ t) + 1"
  have "t = [] \<or> length ?kvs + 9 < n" using len by (auto simp: n_def block_members_def)
  then have mem: "parse_members n 1 (p @ t) = None"
    by (intro parse_cut_members [OF plain_members [OF assms(1)] assms(5) _ p(2) assms(4)]) (simp_all add: max_depth_def)
  have head: "skip_ws (p @ t) = p @ t \<and> (p @ t = [] \<or> hd (p @ t) \<noteq> CHR ''}'')"
  proof (cases p)
    case Nil
    then show ?thesis using assms(5) by (auto elim!: after_cut_cases simp: is_space_def)
  next
    case (Cons c q)
    have "\<exists>u. separated (map member ?kvs) @ ''}'' = dquote # u"
      by (simp add: block_members_def member_def quote_def)
    then have "c = dquote" using p(2) Cons by auto
    with Cons show ?thesis by simp
  qed
  have "parse_value (Suc n) 0 (torn @ t) = None"
    using head mem unfolding p(1) by (cases "p @ t") (auto simp: is_space_def max_depth_def)
  moreover have "2 * length (torn @ t) + 2 = Suc n" by (simp add: n_def)
  ultimately have "json_prefix (torn @ t) = None" by (simp only: json_prefix_def)
  then show ?thesis by (simp add: json_parse_def)
qed

lemma parse_block_torn:
  assumes "plain_block b" "torn @ rest = block_json b" "torn \<noteq> []" "rest \<noteq> []" "after_cut t"
  shows "parse_block (torn @ t) = None"
  using json_parse_torn [OF assms] by (simp add: parse_block_def)

text \<open>The whole block without its newline, and another block behind it\<close>

lemma parse_block_doubled:
  assumes "text_block b" "text_block c"
  shows "parse_block (block_json b @ block_json c) = None"
proof -
  have "\<forall>(k, v) \<in> set (block_members b). valid_utf8 k \<and> flat v"
    using assms(1) nat_dec_int by (auto simp: block_members_def text_block_def)
  then have "json_prefix (block_json b @ block_json c) = Some (JObject (block_members b), block_json c)"
    unfolding block_json_def [of b] by (intro json_prefix_object) (simp_all add: block_members_def)
  moreover obtain u where "block_json c = CHR ''{'' # dquote # CHR ''i'' # u" by (rule block_json_head)
  ultimately show ?thesis by (simp add: parse_block_def json_parse_def is_space_def)
qed

lemma plain_text: "plain_block b \<Longrightarrow> text_block b"
  by (simp add: plain_block_def text_block_def ascii_valid plain_ascii)

text \<open>Verification stops at a line that does not parse, wherever it stands.\<close>

lemma Verify_bad_line:
  assumes "le_ok e" "holds file bs" "complete_file file" "newline \<notin> set l" "length l < max_token" "dropCR l \<noteq> []"
    and "parse_block (dropCR l) = None" "s = l \<or> (\<exists>r. s = l @ newline # r)"
  shows "Verify_ledger e (Some (file_data file @ s)) = Some ParseFailed"
proof -
  obtain ls where ls: "scan_lines (file_data file) = (ls, False)" "map parse_block (nonempty ls) = map Some bs"
    using assms(2) by (auto simp: holds_def)
  have "l \<noteq> []" using assms(6) by (auto simp: dropCR_def)
  then obtain ks too where ks: "scan_lines s = (dropCR l # ks, too)"
    using assms(8) scan_last_line [OF assms(4,5)] scan_line [OF assms(4,5)] by (metis map_prod_simp prod.collapse)
  have "scan_lines (file_data file @ s) = (ls @ dropCR l # ks, too)"
    using scan_lines_append [OF assms(3) [unfolded complete_file_def] ls(1), of s] ks by simp
  moreover have "verify_lines p i (ls @ l' # ks) = Inl ParseFailed"
    if "map parse_block (nonempty ls) = map Some bs" "chain p i bs" "l' \<noteq> []" "parse_block l' = None" for p i l' ls bs
    using that
  proof (induction ls arbitrary: p i bs)
    case (Cons k ls)
    then show ?case by (cases "k = []") (auto simp: Cons_eq_map_conv)
  qed simp
  ultimately show ?thesis
    using assms(1,2,6,7) ls(2) by (simp add: Verify_ledger_def le_ok_def scan_file_def holds_def)
qed

lemma Verify_long_line:
  assumes "le_ok e" "holds file bs" "complete_file file" "newline \<notin> set l" "max_token \<le> length l"
  shows "Verify_ledger e (Some (file_data file @ l @ newline # r)) = Some (LineScanFailed TokenTooLong)"
proof -
  obtain ls where ls: "scan_lines (file_data file) = (ls, False)" "map parse_block (nonempty ls) = map Some bs"
    using assms(2) by (auto simp: holds_def)
  have "takeWhile (\<lambda>c. c \<noteq> newline) (l @ newline # r) = l" using assms(4) by (auto simp: takeWhile_append)
  then have "scan_lines (l @ newline # r) = ([], True)" using assms(5) by (subst scan_lines.simps) (simp add: Let_def)
  then have "scan_lines (file_data file @ l @ newline # r) = (ls, True)"
    using scan_lines_append [OF assms(3) [unfolded complete_file_def] ls(1), of "l @ newline # r"] by simp
  moreover have "verify_lines genesis 0 ls = Inr (chain_end genesis 0 bs)"
    using ls(2) assms(2) verify_lines_iff by (auto simp: holds_def)
  ultimately show ?thesis using assms(1) by (simp add: Verify_ledger_def le_ok_def scan_file_def)
qed

lemma block_json_printable: "text_block b \<Longrightarrow> c \<in> set (block_json b) \<Longrightarrow> 32 \<le> byte c"
  using object_printable [of "block_members b"] nat_dec_int
  by (auto simp: block_json_def text_block_def block_members_def simp del: jenc.simps)

lemma dropCR_printable: "\<forall>c \<in> set l. 32 \<le> byte c \<Longrightarrow> dropCR l = l"
  by (cases l rule: rev_cases) (auto simp: dropCR_def)

text \<open>
  C32. A torn write ends the ledger.  Once a proper part of a block's line is the end of the file,
  verification fails, so the validator does not start; and when it is running, or when just the newline
  was lost, the next append reports success but puts its block on the torn line, and the file does not
  verify from then on.
\<close>

theorem torn_line_stops_ledger:
  assumes "le_ok e" "Verify_ledger e file = None" "complete_file file"
    and "plain_block b" "length (block_json b) < max_token" "torn @ rest = block_json b" "torn \<noteq> []"
    and "valid_utf8 iid" "valid_utf8 typ" "valid_utf8 sts"
  shows "(rest \<noteq> [] \<longrightarrow> Verify_ledger e (Some (file_data file @ torn)) = Some ParseFailed) \<and>
    (\<exists>c file'. Append e (Some (file_data file @ torn)) iid typ sts = (Inr c, file') \<and> Verify_ledger e file' \<noteq> None)"
proof -
  note h = verified_holds [OF assms(1,2)]
  have ch: "chain genesis 0 (file_blocks file)" using h by (simp add: holds_def)
  note tb = plain_text [OF assms(4)]
  have sub: "set torn \<subseteq> set (block_json b)" by (simp flip: assms(6))
  have "length torn + length rest = length (block_json b)" by (simp flip: assms(6))
  then have torn: "newline \<notin> set torn" "length torn < max_token" "dropCR torn = torn"
    using sub block_json_shape(1) [OF tb] block_json_printable [OF tb] assms(5) dropCR_printable [of torn] by auto
  have bad: "Verify_ledger e (Some (file_data file @ torn)) = Some ParseFailed" if "rest \<noteq> []"
    using parse_block_torn [OF assms(4,6,7) that, of "[]"] torn assms(7)
    by (intro Verify_bad_line [OF assms(1) h assms(3) torn(1,2)]) (simp_all add: after_cut_def)
  obtain ls where ls: "scan_lines (file_data file) = (ls, False)" "map parse_block (nonempty ls) = map Some (file_blocks file)"
    using h by (auto simp: holds_def)
  have lines: "scan_lines (file_data file @ torn) = (ls @ [torn], False)"
    using scan_lines_append [OF assms(3) [unfolded complete_file_def] ls(1), of torn]
      scan_last_line [OF torn(1,2) assms(7)] torn(3) by simp
  obtain l where l: "readLastBlock e (Some (file_data file @ torn)) = Inr l"
    "l = None \<or> (\<exists>b'. l = Some b' \<and> valid_utf8 (Hash b'))"
  proof (rule that)
    show "readLastBlock e (Some (file_data file @ torn)) = Inr (last_block (ls @ [torn]))"
      using assms(1) lines by (simp add: readLastBlock_def le_ok_def scan_file_def)
    have "last_block ls = None \<or> (\<exists>b'. last_block ls = Some b' \<and> valid_utf8 (Hash b'))"
      using last_block_parsed [OF ls(2)] chain_hashes [OF ch valid_genesis] by (auto simp: chain_end_def)
    moreover have "parse_block torn = (if rest = [] then Some b else None)"
      using parse_block_torn [OF assms(4,6,7), of "[]"] parse_block_json [OF tb] assms(6) by (auto simp: after_cut_def)
    ultimately show "last_block (ls @ [torn]) = None \<or> (\<exists>b'. last_block (ls @ [torn]) = Some b' \<and> valid_utf8 (Hash b'))"
      using tb assms(7) by (simp add: last_block_snoc text_block_def)
  qed
  let ?c = "next_block l e iid typ sts"
  have app: "Append e (Some (file_data file @ torn)) iid typ sts = (Inr ?c, Some (file_data file @ torn @ block_line ?c))"
    using assms(1) l(1) by (simp add: Append_def le_ok_def Let_def)
  have c: "text_block ?c"
    using l(2) assms(8-10) valid_genesis
      ascii_valid [OF plain_ascii [OF plain_Format]] ascii_valid [OF ascii_hex]
    by (auto simp: text_block_def calculateHash_def)
  let ?l = "torn @ block_json ?c"
  have nl: "newline \<notin> set ?l" using torn(1) block_json_shape(1) [OF c] by simp
  have cr: "dropCR ?l = ?l" using block_json_shape(2,3) [OF c] by (simp add: dropCR_def split: if_splits) (auto simp: butlast_append)
  have "parse_block ?l = None"
    using parse_block_torn [OF assms(4,6,7), of "block_json ?c"] parse_block_doubled [OF tb c] assms(6) c
    by (cases "rest = []") (auto simp: after_cut_def)
  then have "Verify_ledger e (Some (file_data file @ ?l @ [newline])) \<noteq> None"
    using Verify_bad_line [OF assms(1) h assms(3) nl, of "?l @ [newline]"] Verify_long_line [OF assms(1) h assms(3) nl]
      cr assms(7) by (cases "length ?l < max_token") (auto simp: not_less)
  then show ?thesis using bad app by (simp add: block_line_def)
qed


section \<open>Instances\<close>

definition ledger_up :: "ledger_env" where
  "ledger_up = \<lparr>le_open_fails = False, le_read_fails = None, le_create_fails = False, le_write_fails = None,
     le_sync_fails = False, le_now = 0, le_zone = 0\<rparr>"

lemma ledger_up_ok [simp]: "le_ok ledger_up"
  by (simp add: le_ok_def ledger_up_def)

lemma epoch_text: "Format_RFC3339 0 0 = ''1970-01-01T00:00:00Z''"
  by code_simp

text \<open>A first block, and its sizes without computing its hash\<close>

definition first_block :: "Block" where
  "first_block = block_after [] ledger_up ''i'' ''T'' ''S''"

lemma plain_hex [simp]: "plain (EncodeToString bs)"
proof -
  have "plain_char (hex_digit n)" if "n < 16" for n using that by (auto simp: hex_digit_def plain_char_def)
  moreover have "byte b div 16 < 16" "byte b mod 16 < 16" for b
  proof -
    have "byte b < 256" by simp
    then show "byte b div 16 < 16" by (intro less_mult_imp_div_less) simp
  qed simp
  ultimately show ?thesis by (induction bs) simp_all
qed

lemma first_block_fields:
  "BTimestamp first_block = ''1970-01-01T00:00:00Z''" "IntentID first_block = ''i''" "BType first_block = ''T''"
  "BStatus first_block = ''S''" "PrevHash first_block = genesis" "Index first_block = 0"
  "Hash first_block = calculateHash first_block"
  by (simp_all add: first_block_def block_after_def) (simp add: ledger_up_def epoch_text)

lemma plain_genesis [simp]: "plain genesis"
  by (simp add: genesis_def list_all_iff plain_char_def)

lemma plain_first: "plain_block first_block"
  unfolding plain_block_def first_block_fields by (simp add: calculateHash_def) (simp add: plain_char_def)

text \<open>The size of its line, also when its identifier and its type are exchanged\<close>

lemma first_block_size:
  assumes "plain x" "plain y" "length x + length y < 100"
  shows "length (block_json (first_block\<lparr>IntentID := x, BType := y\<rparr>)) < max_token"
proof -
  have "length (calculateHash first_block) = 64" "length genesis = 64" by (simp_all add: calculateHash_def genesis_def)
  moreover have "quote_body (calculateHash first_block) = calculateHash first_block"
    by (rule quote_plain) (simp add: calculateHash_def)
  ultimately show ?thesis
    unfolding block_json_def jenc_object block_members_def max_token_def using assms
    by (simp add: first_block_fields member_def quote_def quote_plain escape_ascii_def Let_def nat_dec_0)
qed

lemma first_block_same: "first_block\<lparr>IntentID := ''i'', BType := ''T''\<rparr> = first_block"
  using first_block_fields(2,3) by simp

lemma first_fits:
  assumes "plain x" "plain y" "length x + length y < 100"
  shows "fits (first_block\<lparr>IntentID := x, BType := y\<rparr>)"
  using first_block_size [OF assms] plain_text [OF plain_first] assms(1,2)
  by (simp add: fits_def text_block_def ascii_valid plain_ascii)

lemma first_block_line: "length (block_json first_block) < max_token" "fits first_block"
  using first_block_size [of "''i''" "''T''"] first_fits [of "''i''" "''T''"]
  unfolding first_block_same by (simp_all add: plain_char_def)

lemma first_chain: "chain genesis 0 [first_block]"
  by (simp add: first_block_fields)

lemma append_keeps_verified_witness:
  "\<exists>b file'. Append ledger_up None ''i'' ''T'' ''S'' = (Inr b, file') \<and> Verify_ledger ledger_up file' = None
     \<and> file_blocks file' = [b]"
proof -
  have v: "Verify_ledger ledger_up None = None" by (simp add: Verify_ledger_def ledger_up_def)
  have blocks: "file_blocks None = []" by (simp add: file_blocks_def)
  have "length (block_json (block_after (file_blocks None) ledger_up ''i'' ''T'' ''S'')) < max_token"
    using first_block_line by (simp add: first_block_def blocks)
  from append_keeps_verified [OF ledger_up_ok v _ _ _ _ this] show ?thesis
    by (auto simp: complete_file_def complete_data_def blocks)
qed

lemma torn_line_stops_ledger_witness:
  "Verify_ledger ledger_up (Some ''{'') = Some ParseFailed"
proof -
  obtain u where u: "block_json first_block = CHR ''{'' # dquote # CHR ''i'' # u" by (rule block_json_head)
  have v: "Verify_ledger ledger_up None = None" by (simp add: Verify_ledger_def ledger_up_def)
  from torn_line_stops_ledger [OF ledger_up_ok v _ plain_first first_block_line(1), of "''{''" "dquote # CHR ''i'' # u" "[]" "[]" "[]"] u
  show ?thesis by (simp add: complete_file_def complete_data_def)
qed

lemma last_hash_fixes_history_witness:
  "\<exists>f. file_blocks f = [first_block] \<and> Verify_ledger ledger_up f = None \<and>
     (map hash_input (file_blocks f) = map hash_input (file_blocks f)
      \<or> (\<exists>b \<in> set (file_blocks f). \<exists>c \<in> set (file_blocks f). hash_input b \<noteq> hash_input c \<and> calculateHash b = calculateHash c)
      \<or> (\<exists>b \<in> set (file_blocks f) \<union> set (file_blocks f). calculateHash b = genesis))"
proof -
  let ?f = "Some (ledger_text [first_block])"
  have v: "Verify_ledger ledger_up ?f = None" using first_chain first_block_line by (simp add: text_verifies)
  have "holds ?f [first_block]" using holds_text [OF first_chain] first_block_line by simp
  then have b: "file_blocks ?f = [first_block]" by (rule holds_blocks)
  from last_hash_fixes_history [OF ledger_up_ok v v] v b show ?thesis by (intro exI [of _ ?f]) simp
qed

lemma rewritten_ledger_verifies_witness:
  "Verify_ledger ledger_up (Some (ledger_text [first_block])) = None
   \<and> Verify_ledger ledger_up (Some (ledger_text [first_block\<lparr>IntentID := '''', BType := ''iT''\<rparr>])) = None"
  using rewritten_ledger_verifies [OF ledger_up_ok, of "[]" first_block "[]" "''''" "''i''"] first_chain
    first_block_line(2) first_fits [of "''''" "''iT''"] first_block_fields(2,3)
  by (simp add: plain_char_def)

end
