(* ===== verification/Validator.thy ===== *)
theory Validator imports LedgerTorn Execution begin

text \<open>
  The validator, \<open>validator/main.go\<close>: the handler of one \<open>intents.executed\<close> event, which reads the row
  of the intent and appends a block with its type and status, and the subscription.  What is recorded is
  the row, not the message.
\<close>

section \<open>The handler\<close>

record val_env =
  va_query_fails :: bool
  va_ledger :: ledger_env

datatype val_error = ValUnmarshal | ValQuery | ValStatus string | ValAppend ledger_error | ValPanic

definition final_statuses :: "string list" where
  "final_statuses = [''INTENT_STATUS_COMPLETED'', ''INTENT_STATUS_FAILED'']"

text \<open>
  The log line at the end slices both hashes to ten characters, which panics on a shorter one.
\<close>

definition handleExecutedIntent ::
  "codecs \<Rightarrow> val_env \<Rightarrow> intent_db \<Rightarrow> bytes \<Rightarrow> ledger_file \<Rightarrow> val_error option \<times> ledger_file" where
  "handleExecutedIntent c e db msg file =
     (case unmarshal c msg of
        None \<Rightarrow> (Some ValUnmarshal, file)
      | Some intent \<Rightarrow>
      if va_query_fails e then (Some ValQuery, file)
      else case uuid_in c (Id intent) of
             None \<Rightarrow> (Some ValQuery, file)
           | Some u \<Rightarrow>
      case find_intent db u of
        None \<Rightarrow> (Some ValQuery, file)
      | Some r \<Rightarrow>
      if row_status r \<notin> set final_statuses then (Some (ValStatus (row_status r)), file)
      else case Append (va_ledger e) file (Id intent) (row_type r) (row_status r) of
             (Inl x, file') \<Rightarrow> (Some (ValAppend x), file')
           | (Inr block, file') \<Rightarrow>
               (if length (Hash block) < 10 \<or> length (PrevHash block) < 10 then Some ValPanic else None, file'))"

text \<open>
  The process over the deliveries it receives: an error asks for redelivery, which comes as a later
  delivery; a panic ends the process, whatever was still to come.
\<close>

fun run_validator ::
  "codecs \<Rightarrow> (val_env \<times> intent_db \<times> bytes) list \<Rightarrow> ledger_file \<Rightarrow> bool list \<times> ledger_file" where
  "run_validator c [] file = ([], file)"
| "run_validator c ((e, db, msg) # ds) file =
     (case handleExecutedIntent c e db msg file of
        (Some ValPanic, file') \<Rightarrow> ([False], file')
      | (err, file') \<Rightarrow> map_prod ((#) (err = None)) id (run_validator c ds file'))"

section \<open>The size of a line\<close>

lemma length_quote_body: "length (quote_body s) \<le> 6 * length s"
proof (induction s rule: quote_body.induct)
  case (2 a t)
  show ?case
  proof (cases "byte a < 128")
    case True
    have "length (escape_ascii a) \<le> 6" by (simp add: escape_ascii_def Let_def)
    with True 2(1) show ?thesis by simp
  next
    case False
    show ?thesis
    proof (cases "rune_len (a # t)")
      case None
      with False 2(2) show ?thesis by (simp del: rune_len.simps)
    next
      case (Some n)
      have n: "0 < n" "n \<le> length (a # t)" using rune_len_bounds [OF Some] by simp_all
      have "length (quote_body (drop n (a # t))) \<le> 6 * (length (a # t) - n)" using 2(3) [OF False Some refl] by simp
      moreover have "length (if take n (a # t) = EncodeRune 8232 then backslash # ''u2028''
          else if take n (a # t) = EncodeRune 8233 then backslash # ''u2029'' else take n (a # t)) \<le> 6 * n"
        using n by simp
      ultimately show ?thesis
        using False Some n by (simp add: Let_def del: rune_len.simps drop_Suc_Cons take_Suc_Cons)
    qed
  qed
qed simp

lemma length_nat_dec: "n < 10 ^ Suc k \<Longrightarrow> length (nat_dec n) \<le> Suc k"
proof (induction k arbitrary: n)
  case (Suc k)
  show ?case
  proof (cases "n < 10")
    case False
    then have "length (nat_dec (n div 10)) \<le> Suc k" using Suc by (intro Suc.IH) simp
    with False show ?thesis by (subst nat_dec.simps) simp
  qed (subst nat_dec.simps, simp)
qed (subst nat_dec.simps, simp)

lemma block_json_size:
  assumes "length (BTimestamp b) \<le> 40" "length (IntentID b) \<le> 1000" "length (BType b) \<le> 1000"
    "length (BStatus b) \<le> 1000" "length (PrevHash b) = 64" "length (Hash b) = 64"
  shows "length (block_json b) < max_token"
proof -
  have "unat (Index b) < 2 ^ 64" using unsigned_less [of "Index b"] by simp
  then have "unat (Index b) < 10 ^ Suc 19" by (rule less_trans) simp
  then have "length (nat_dec (unat (Index b))) \<le> 20" using length_nat_dec [of "unat (Index b)" 19] by simp
  moreover note assms length_quote_body [of "BTimestamp b"] length_quote_body [of "IntentID b"]
    length_quote_body [of "BType b"] length_quote_body [of "BStatus b"] length_quote_body [of "PrevHash b"]
    length_quote_body [of "Hash b"]
  ultimately show ?thesis
    unfolding block_json_def jenc_object block_members_def max_token_def
    by (simp add: member_def quote_def escape_ascii_def Let_def)
qed

end
