(* ===== verification/ValidatorProps.thy ===== *)
theory ValidatorProps imports Validator SchedulerProps begin

text \<open>
  What the validator promises: the ledger is the list of the final rows its events named, in the order
  of the deliveries, and stays verifiable.  And what it does not: an event that is delivered twice is
  recorded twice.
\<close>

section \<open>What a delivery records\<close>

definition auditable :: "codecs \<Rightarrow> val_env \<times> intent_db \<times> bytes \<Rightarrow> (string \<times> string \<times> string) option" where
  "auditable c d =
     (case d of (e, db, msg) \<Rightarrow>
      case unmarshal c msg of
        None \<Rightarrow> None
      | Some i \<Rightarrow>
      if va_query_fails e then None
      else case uuid_in c (Id i) of
             None \<Rightarrow> None
           | Some u \<Rightarrow>
      case find_intent db u of
        None \<Rightarrow> None
      | Some r \<Rightarrow> if row_status r \<in> set final_statuses then Some (Id i, row_type r, row_status r) else None)"

text \<open>
  A delivery in normal operation: no system call of the ledger fails, the clock reads a date of ordinary
  length, and what is recorded is text of ordinary length, as PostgreSQL and the protobuf library
  guarantee for identifiers and types.
\<close>

definition delivery_ok :: "codecs \<Rightarrow> val_env \<times> intent_db \<times> bytes \<Rightarrow> bool" where
  "delivery_ok c d \<longleftrightarrow>
     (case d of (e, db, msg) \<Rightarrow> le_ok (va_ledger e)
        \<and> length (Format_RFC3339 (le_zone (va_ledger e)) (le_now (va_ledger e))) \<le> 40
        \<and> (case unmarshal c msg of None \<Rightarrow> True | Some i \<Rightarrow> valid_utf8 (Id i) \<and> length (Id i) \<le> 1000)
        \<and> (\<forall>r \<in> set (intent_rows db). valid_utf8 (row_type r) \<and> length (row_type r) \<le> 1000))"

lemma find_intent_in: "find_intent db u = Some r \<Longrightarrow> r \<in> set (intent_rows db)"
  unfolding find_intent_def by (drule find_Some_set) simp

lemma final_status_text: "s \<in> set final_statuses \<Longrightarrow> valid_utf8 s \<and> length s \<le> 1000"
  by (auto simp: final_statuses_def)

lemma length_calculateHash [simp]: "length (calculateHash b) = 64"
  by (simp add: calculateHash_def)

lemma handle_delivery:
  assumes "sound_file file" "delivery_ok c (e, db, msg)"
  shows "case auditable c (e, db, msg) of
      None \<Rightarrow> \<exists>err. err \<noteq> ValPanic \<and> handleExecutedIntent c e db msg file = (Some err, file)
    | Some req \<Rightarrow> \<exists>b file'. handleExecutedIntent c e db msg file = (None, file') \<and> sound_file file'
        \<and> file_blocks file' = file_blocks file @ [b] \<and> block_request b = req"
proof (cases "auditable c (e, db, msg)")
  case None
  then show ?thesis
    by (auto simp: auditable_def handleExecutedIntent_def split: option.splits if_splits)
next
  case (Some req)
  then obtain i u r where row: "unmarshal c msg = Some i" "\<not> va_query_fails e" "uuid_in c (Id i) = Some u"
    "find_intent db u = Some r" "row_status r \<in> set final_statuses" "req = (Id i, row_type r, row_status r)"
    by (auto simp: auditable_def split: option.splits if_splits)
  let ?b = "block_after (file_blocks file) (va_ledger e) (Id i) (row_type r) (row_status r)"
  have h: "holds file (file_blocks file)" "complete_file file" using assms(1) by (simp_all add: sound_file_def)
  have ch: "chain genesis 0 (file_blocks file)" using h(1) by (simp add: holds_def)
  have prev: "length (PrevHash ?b) = 64"
    using length_chain_end [OF ch] by (auto simp: block_after_def chain_end_def genesis_def)
  have texts: "valid_utf8 (Id i)" "length (Id i) \<le> 1000" "valid_utf8 (row_type r)" "length (row_type r) \<le> 1000"
    "le_ok (va_ledger e)" "length (BTimestamp ?b) \<le> 40"
    using assms(2) row(1) find_intent_in [OF row(4)] by (auto simp: delivery_ok_def block_after_def)
  have "length (block_json ?b) < max_token"
    using texts prev final_status_text [OF row(5)] by (intro block_json_size) (simp_all add: block_after_def)
  note app = Append_holds [OF texts(5) h texts(1,3) _ this]
  have "valid_utf8 (row_status r)" using final_status_text [OF row(5)] by simp
  note app = app [OF this]
  have hash: "length (Hash ?b) = 64" by (simp add: block_after_def)
  have "handleExecutedIntent c e db msg file = (None, Some (file_data file @ block_line ?b))"
    using row(1-5) app(1) prev hash by (simp add: handleExecutedIntent_def)
  then show ?thesis
    using Some row(6) holds_blocks [OF app(2)] app(2,3) by (simp add: sound_file_def)
qed

text \<open>
  C17. The ledger is the list of what was audited.  In normal operation, over any deliveries with any
  contents of the database at each, the validator stays verifiable and adds exactly one block for each
  delivery whose intent is final in the database, with the identifier of the message and the type and
  status of the row, in the order of the deliveries; the others are refused and add nothing.
\<close>

theorem ledger_is_audit_list:
  assumes "sound_file file" "\<forall>d \<in> set ds. delivery_ok c d"
  shows "\<exists>file' bs. run_validator c ds file = (map (\<lambda>d. auditable c d \<noteq> None) ds, file') \<and> sound_file file'
    \<and> file_blocks file' = file_blocks file @ bs \<and> map block_request bs = List.map_filter (auditable c) ds"
  using assms
proof (induction ds arbitrary: "file")
  case Nil
  then show ?case by (simp add: map_filter_simps)
next
  case (Cons d ds)
  obtain e db msg where d: "d = (e, db, msg)" by (cases d) auto
  have ok: "delivery_ok c (e, db, msg)" using Cons.prems(2) d by simp
  show ?case
  proof (cases "auditable c (e, db, msg)")
    case None
    then obtain err where "err \<noteq> ValPanic" "handleExecutedIntent c e db msg file = (Some err, file)"
      using handle_delivery [OF Cons.prems(1) ok] by auto
    then show ?thesis
      using Cons.IH [OF Cons.prems(1)] Cons.prems(2) None by (cases err) (auto simp: d map_filter_simps)
  next
    case (Some req)
    then obtain b g where g: "handleExecutedIntent c e db msg file = (None, g)" "sound_file g"
      "file_blocks g = file_blocks file @ [b]" "block_request b = req"
      using handle_delivery [OF Cons.prems(1) ok] by auto
    obtain file' bs where "run_validator c ds g = (map (\<lambda>d. auditable c d \<noteq> None) ds, file')" "sound_file file'"
      "file_blocks file' = file_blocks g @ bs" "map block_request bs = List.map_filter (auditable c) ds"
      using Cons.IH [OF g(2)] Cons.prems(2) by auto
    then show ?thesis using g Some by (auto simp: d map_filter_simps simp del: not_None_eq intro!: exI [of _ "b # bs"])
  qed
qed

section \<open>Deliveries that are repeated\<close>

definition val_up :: "val_env" where
  "val_up = \<lparr>va_query_fails = False, va_ledger = ledger_up\<rparr>"

definition final_delivery :: "val_env \<times> intent_db \<times> bytes" where
  "final_delivery = (val_up, rows_db [row_with ''INTENT_STATUS_COMPLETED''], ''i'')"

lemma final_delivery_ok: "delivery_ok toy_codecs final_delivery"
  by (simp add: delivery_ok_def final_delivery_def val_up_def rows_db_def row_with_def)
     (simp add: ledger_up_def epoch_text toy_intent_def)

lemma final_delivery_auditable:
  "auditable toy_codecs final_delivery = Some (''i'', ''INTENT_TYPE_TRANSFER'', ''INTENT_STATUS_COMPLETED'')"
  by (simp add: auditable_def final_delivery_def val_up_def rows_db_def row_with_def find_intent_def
      final_statuses_def toy_intent_def)

lemma sound_empty: "sound_file None"
  by (simp add: sound_file_def complete_file_def complete_data_def holds_def file_blocks_def)

lemma ledger_is_audit_list_witness:
  "\<exists>file' b. run_validator toy_codecs [final_delivery] None = ([True], file') \<and> sound_file file'
     \<and> file_blocks file' = [b] \<and> block_request b = (''i'', ''INTENT_TYPE_TRANSFER'', ''INTENT_STATUS_COMPLETED'')"
  using ledger_is_audit_list [OF sound_empty, of "[final_delivery]" toy_codecs] final_delivery_ok
  by (auto simp: final_delivery_auditable map_filter_simps file_blocks_def)

text \<open>
  The ledger does not recognise a delivery it has recorded: whatever comes in between, an audited
  event that is delivered again, as the broker does when the acknowledgement is lost, adds a second
  block for the same execution, and the ledger with both verifies.
\<close>

theorem redelivered_event_is_recorded_twice:
  assumes "sound_file file" "delivery_ok c d" "auditable c d = Some req" "\<forall>x \<in> set between. delivery_ok c x"
    and "le_ok e"
  shows "\<exists>file' bs ms cs b b'. run_validator c (d # between @ [d]) file = (ms, file') \<and> Verify_ledger e file' = None
    \<and> file_blocks file' = bs @ b # cs @ [b'] \<and> block_request b = req \<and> block_request b' = req"
proof -
  have s1: "\<exists>file' b. run_validator c [d] f = ([True], file') \<and> sound_file file' \<and> file_blocks file' = file_blocks f @ [b]
      \<and> block_request b = req" if "sound_file f" for f
  proof -
    obtain x db msg where d: "d = (x, db, msg)" by (cases d) auto
    show ?thesis using handle_delivery [OF that, of c x db msg] assms(2,3) by (auto simp: d)
  qed
  have app: "snd (run_validator c (ds @ es) f) = snd (run_validator c es (snd (run_validator c ds f)))"
    if "sound_file f" "\<forall>x \<in> set ds. delivery_ok c x" for ds es f
    using that
  proof (induction ds arbitrary: f)
    case (Cons y ds)
    obtain x db msg where y: "y = (x, db, msg)" by (cases y) auto
    have "delivery_ok c (x, db, msg)" using Cons.prems(2) y by simp
    from handle_delivery [OF Cons.prems(1) this] show ?case
      using Cons.IH Cons.prems by (cases "auditable c (x, db, msg)") (auto simp: y split: val_error.splits)
  qed simp
  obtain f1 b where f1: "run_validator c [d] file = ([True], f1)" "sound_file f1" "file_blocks f1 = file_blocks file @ [b]"
    "block_request b = req" using s1 [OF assms(1)] by blast
  obtain f2 cs where f2: "snd (run_validator c between f1) = f2" "sound_file f2" "file_blocks f2 = file_blocks f1 @ cs"
  proof -
    have "\<exists>f2 cs. snd (run_validator c between f1) = f2 \<and> sound_file f2 \<and> file_blocks f2 = file_blocks f1 @ cs"
      using f1(2) assms(4)
    proof (induction between arbitrary: f1)
      case (Cons y ds)
      obtain x db msg where y: "y = (x, db, msg)" by (cases y) auto
      have "delivery_ok c (x, db, msg)" using Cons.prems(2) y by simp
      from handle_delivery [OF Cons.prems(1) this] show ?case
        using Cons.IH Cons.prems by (cases "auditable c (x, db, msg)") (fastforce simp: y split: val_error.splits)+
    qed auto
    then show ?thesis using that by blast
  qed
  obtain f3 b' where f3: "run_validator c [d] f2 = ([True], f3)" "sound_file f3" "file_blocks f3 = file_blocks f2 @ [b']"
    "block_request b' = req" using s1 [OF f2(2)] by blast
  have "snd (run_validator c ([d] @ between @ [d]) file) = f3"
    using app [of "file" "[d]"] app [OF f1(2) assms(4), of "[d]"] assms(1,2) f1(1) f2(1) f3(1) by simp
  moreover have "Verify_ledger e f3 = None" using f3(2) Verify_ledger_iff [OF assms(5)] by (auto simp: sound_file_def)
  ultimately show ?thesis
    using f1(3,4) f2(3) f3(3,4) by (cases "run_validator c (d # between @ [d]) file") auto
qed

lemma redelivered_event_is_recorded_twice_witness:
  "\<exists>file' b b' bs cs. snd (run_validator toy_codecs [final_delivery, final_delivery] None) = file'
     \<and> Verify_ledger ledger_up file' = None \<and> file_blocks file' = bs @ b # cs @ [b'] \<and> IntentID b = IntentID b'"
  using redelivered_event_is_recorded_twice [OF sound_empty final_delivery_ok final_delivery_auditable, of "[]" ledger_up]
  by (force simp: block_request_def)

end
