(* ===== verification/Http.thy ===== *)
theory Http imports IntentTypes JsonCodec begin

text \<open>
  Requests and responses of \<open>net/http\<close> as the gateway uses them, the cleaning of paths by \<open>ServeMux\<close>,
  \<open>net.SplitHostPort\<close>, and the Redis commands the gateway issues, with their expiry times.
\<close>

section \<open>Messages\<close>

record http_request =
  rq_method :: string
  rq_path :: string
  rq_query :: "(string \<times> string) list"
  rq_authorization :: string
  rq_remote :: string
  rq_body :: "bytes option"

type_synonym headers = "(string \<times> string) list"

record http_response =
  rs_status :: nat
  rs_headers :: headers
  rs_body :: bytes

definition set_header :: "string \<Rightarrow> string \<Rightarrow> headers \<Rightarrow> headers" where
  "set_header k v hs = filter (\<lambda>kv. fst kv \<noteq> k) hs @ [(k, v)]"

text \<open>\<open>r.URL.Query().Get\<close>: the first value of a name, or the empty string\<close>

definition query_get :: "http_request \<Rightarrow> string \<Rightarrow> string" where
  "query_get r k = (case map_of (rq_query r) k of None \<Rightarrow> [] | Some v \<Rightarrow> v)"

definition has_prefix :: "string \<Rightarrow> string \<Rightarrow> bool" where
  "has_prefix s p \<longleftrightarrow> take (length p) s = p"

text \<open>\<open>http.Error\<close>\<close>

definition http_Error :: "headers \<Rightarrow> string \<Rightarrow> nat \<Rightarrow> http_response" where
  "http_Error hs msg code =
     \<lparr>rs_status = code,
      rs_headers = set_header ''X-Content-Type-Options'' ''nosniff''
                     (set_header ''Content-Type'' ''text/plain; charset=utf-8'' hs),
      rs_body = msg @ [char_of (10 :: nat)]\<rparr>"

section \<open>Paths\<close>

fun split_slash :: "string \<Rightarrow> string list" where
  "split_slash [] = [[]]"
| "split_slash (c # s) =
     (if c = CHR ''/'' then [] # split_slash s
      else case split_slash s of [] \<Rightarrow> [[c]] | p # ps \<Rightarrow> (c # p) # ps)"

text \<open>The elements of a rooted path after the dots have been resolved, last element first\<close>

definition resolve :: "string list \<Rightarrow> string list" where
  "resolve ps =
     fold (\<lambda>p st. if p = [] \<or> p = ''.'' then st else if p = ''..'' then (case st of [] \<Rightarrow> [] | _ # t \<Rightarrow> t) else p # st) ps []"

definition clean_path :: "string \<Rightarrow> string" where
  "clean_path p =
     (let p' = (if p = [] \<or> hd p \<noteq> CHR ''/'' then CHR ''/'' # p else p);
          st = resolve (split_slash (tl p'));
          np = (if st = [] then ''/'' else concat (map (\<lambda>x. CHR ''/'' # x) (rev st)))
      in if last p' = CHR ''/'' \<and> np \<noteq> ''/'' then np @ ''/'' else np)"

section \<open>Addresses\<close>

definition last_index :: "char \<Rightarrow> string \<Rightarrow> nat option" where
  "last_index c s = (if c \<in> set s then Some (length s - 1 - length (takeWhile (\<lambda>x. x \<noteq> c) (rev s))) else None)"

text \<open>The host of \<open>net.SplitHostPort\<close>, \<open>None\<close> where it reports an error\<close>

definition SplitHost :: "string \<Rightarrow> string option" where
  "SplitHost addr =
     (case last_index CHR '':'' addr of
        None \<Rightarrow> None
      | Some i \<Rightarrow>
          if addr \<noteq> [] \<and> hd addr = CHR ''[''
          then (let e = length (takeWhile (\<lambda>x. x \<noteq> CHR '']'') addr)
                in if e = length addr \<or> e + 1 \<noteq> i then None
                   else let host = take (e - 1) (tl addr)
                   in if CHR ''['' \<in> set (tl addr) \<or> CHR '']'' \<in> set (drop (e + 1) addr) then None else Some host)
          else let host = take i addr
          in if CHR '':'' \<in> set host \<or> CHR ''['' \<in> set addr \<or> CHR '']'' \<in> set addr then None else Some host)"

section \<open>Redis\<close>

record redis_entry =
  re_value :: bytes
  re_expiry :: "time option"

type_synonym redis = "string \<rightharpoonup> redis_entry"

text \<open>A command is answered, fails, or takes effect while its answer is lost.\<close>

datatype redis_call = RedisAnswered | RedisFailed | RedisUnseen

definition redis_live :: "time \<Rightarrow> redis \<Rightarrow> string \<Rightarrow> redis_entry option" where
  "redis_live now db k =
     (case db k of
        None \<Rightarrow> None
      | Some en \<Rightarrow> (case re_expiry en of None \<Rightarrow> Some en | Some t \<Rightarrow> if t \<le> now then None else Some en))"

definition redis_GET :: "redis_call \<Rightarrow> time \<Rightarrow> string \<Rightarrow> redis \<Rightarrow> bytes option" where
  "redis_GET call now k db = (if call = RedisAnswered then map_option re_value (redis_live now db k) else None)"

definition redis_SET :: "redis_call \<Rightarrow> time \<Rightarrow> string \<Rightarrow> bytes \<Rightarrow> time \<Rightarrow> redis \<Rightarrow> redis" where
  "redis_SET call now k v ttl db =
     (if call = RedisFailed then db else db(k \<mapsto> \<lparr>re_value = v, re_expiry = Some (now + ttl)\<rparr>))"

text \<open>\<open>INCR\<close> keeps the expiry of a key; a value that is no integer, or would overflow, is an error.\<close>

definition redis_incr :: "time \<Rightarrow> string \<Rightarrow> redis \<Rightarrow> int option \<times> redis" where
  "redis_incr now k db =
     (case redis_live now db k of
        None \<Rightarrow> (Some 1, db(k \<mapsto> \<lparr>re_value = int_dec 1, re_expiry = None\<rparr>))
      | Some en \<Rightarrow>
          (case ParseInt_lit (2 ^ 63) (re_value en) of
             None \<Rightarrow> (None, db)
           | Some n \<Rightarrow>
               if n + 1 \<ge> 2 ^ 63 then (None, db)
               else (Some (n + 1), db(k \<mapsto> en\<lparr>re_value := int_dec (n + 1)\<rparr>))))"

definition redis_INCR :: "redis_call \<Rightarrow> time \<Rightarrow> string \<Rightarrow> redis \<Rightarrow> int option \<times> redis" where
  "redis_INCR call now k db =
     (case call of
        RedisAnswered \<Rightarrow> redis_incr now k db
      | RedisFailed \<Rightarrow> (None, db)
      | RedisUnseen \<Rightarrow> (None, snd (redis_incr now k db)))"

definition redis_EXPIRE :: "redis_call \<Rightarrow> time \<Rightarrow> string \<Rightarrow> time \<Rightarrow> redis \<Rightarrow> redis" where
  "redis_EXPIRE call now k ttl db =
     (if call = RedisFailed then db
      else case redis_live now db k of None \<Rightarrow> db | Some en \<Rightarrow> db(k \<mapsto> en\<lparr>re_expiry := Some (now + ttl)\<rparr>))"

end
