(* ===== verification/Base64.thy ===== *)
theory Base64 imports Utf8 begin

text \<open>
  \<open>base64.RawURLEncoding\<close>: the URL alphabet without padding.  The decoder skips line ends, refuses a
  single left-over character and ignores the unused bits of the last one.
\<close>

definition b64_char :: "nat \<Rightarrow> char" where
  "b64_char n =
     (if n < 26 then char_of (65 + n) else if n < 52 then char_of (71 + n)
      else if n < 62 then char_of (n - 4) else if n = 62 then CHR ''-'' else CHR ''_'')"

definition b64_value :: "char \<Rightarrow> nat option" where
  "b64_value c =
     (let n = byte c
      in if 65 \<le> n \<and> n \<le> 90 then Some (n - 65) else if 97 \<le> n \<and> n \<le> 122 then Some (n - 71)
         else if 48 \<le> n \<and> n \<le> 57 then Some (n + 4) else if n = 45 then Some 62
         else if n = 95 then Some 63 else None)"

fun RawURL_Encode :: "bytes \<Rightarrow> string" where
  "RawURL_Encode [] = []"
| "RawURL_Encode [a] = [b64_char (byte a div 4), b64_char (byte a mod 4 * 16)]"
| "RawURL_Encode [a, b] =
     [b64_char (byte a div 4), b64_char (byte a mod 4 * 16 + byte b div 16), b64_char (byte b mod 16 * 4)]"
| "RawURL_Encode (a # b # c # s) =
     b64_char (byte a div 4) # b64_char (byte a mod 4 * 16 + byte b div 16)
     # b64_char (byte b mod 16 * 4 + byte c div 64) # b64_char (byte c mod 64) # RawURL_Encode s"

fun decode_quads :: "nat option list \<Rightarrow> bytes option" where
  "decode_quads [] = Some []"
| "decode_quads [Some x, Some y] = Some [char_of (x * 4 + y div 16)]"
| "decode_quads [Some x, Some y, Some z] = Some [char_of (x * 4 + y div 16), char_of (y mod 16 * 16 + z div 4)]"
| "decode_quads (Some x # Some y # Some z # Some w # s) =
     map_option (\<lambda>r. char_of (x * 4 + y div 16) # char_of (y mod 16 * 16 + z div 4) # char_of (z mod 4 * 64 + w) # r)
       (decode_quads s)"
| "decode_quads _ = None"

definition RawURL_Decode :: "string \<Rightarrow> bytes option" where
  "RawURL_Decode s = decode_quads (map b64_value (filter (\<lambda>c. byte c \<noteq> 10 \<and> byte c \<noteq> 13) s))"

lemma b64_value_char [simp]: "n < 64 \<Longrightarrow> b64_value (b64_char n) = Some n"
  by (auto simp: b64_value_def b64_char_def Let_def)

lemma b64_char_no_line_end [simp]: "n < 64 \<Longrightarrow> byte (b64_char n) \<noteq> 10 \<and> byte (b64_char n) \<noteq> 13"
  by (auto simp: b64_char_def)

lemma b64_char_no_dot [simp]: "n < 64 \<Longrightarrow> b64_char n \<noteq> CHR ''.''"
proof -
  assume "n < 64"
  then have "b64_value (b64_char n) = Some n" by simp
  moreover have "b64_value CHR ''.'' = None" by (simp add: b64_value_def)
  ultimately show "b64_char n \<noteq> CHR ''.''" by auto
qed

lemma byte_parts [simp]:
  "byte c div 4 < 64" "byte c div 16 < 16" "byte c div 64 < 4" "byte c mod 4 * 16 < 64" "byte c mod 16 * 4 < 64"
  "byte a mod 4 * 16 + byte c div 16 < 64" "byte a mod 16 * 4 + byte c div 64 < 64"
proof -
  have c: "byte c < 256" by simp
  show d: "byte c div 4 < 64" "byte c div 16 < 16" "byte c div 64 < 4"
    using c by (auto intro!: less_mult_imp_div_less)
  have "byte a mod 4 < 4" "byte a mod 16 < 16" "byte c mod 4 < 4" "byte c mod 16 < 16" by simp_all
  with d show "byte c mod 4 * 16 < 64" "byte c mod 16 * 4 < 64" "byte a mod 4 * 16 + byte c div 16 < 64"
    "byte a mod 16 * 4 + byte c div 64 < 64" by linarith+
qed

lemma join_bytes:
  "byte a div 4 * 4 + (byte a mod 4 * 16) div 16 = byte a"
  "byte a div 4 * 4 + (byte a mod 4 * 16 + byte b div 16) div 16 = byte a"
  "(byte a mod 4 * 16 + byte b div 16) mod 16 * 16 + (byte b mod 16 * 4) div 4 = byte b"
  "(byte a mod 4 * 16 + byte b div 16) mod 16 * 16 + (byte b mod 16 * 4 + byte c div 64) div 4 = byte b"
  "(byte b mod 16 * 4 + byte c div 64) mod 4 * 64 + byte c mod 64 = byte c"
  by simp_all

lemma Encode_chars: "c \<in> set (RawURL_Encode s) \<Longrightarrow> \<exists>n < 64. c = b64_char n"
proof (induction s rule: RawURL_Encode.induct)
  case (4 a b c s)
  then show ?case by (auto intro: exI [of _ "byte c mod 64"]) (metis byte_parts)+
qed (auto, (metis byte_parts)+)

text \<open>The round trip\<close>

lemma Decode_Encode_RawURL [simp]: "RawURL_Decode (RawURL_Encode s) = Some s"
proof -
  have "filter (\<lambda>c. byte c \<noteq> 10 \<and> byte c \<noteq> 13) (RawURL_Encode s) = RawURL_Encode s"
    using Encode_chars by (fastforce intro: filter_True)
  moreover have "decode_quads (map b64_value (RawURL_Encode s)) = Some s"
    by (induction s rule: RawURL_Encode.induct) (simp_all add: join_bytes)
  ultimately show ?thesis by (simp add: RawURL_Decode_def)
qed

lemma Encode_no_dot: "CHR ''.'' \<notin> set (RawURL_Encode s)"
  using Encode_chars by (fastforce dest: b64_char_no_dot)

end
