(* ===== verification/Jwt.thy ===== *)
theory Jwt imports Base64 Sha256 JsonCodec IntentTypes begin

text \<open>
  The session tokens of the gateway, \<open>generateJWT\<close> and \<open>validateJWT\<close> of \<open>gateway/main.go\<close>: base64 of
  two JSON objects, signed with HMAC-SHA256 under the configured secret.
\<close>

section \<open>Tokens\<close>

record JWTClaims =
  Sub :: string
  Exp :: int

datatype jwt_error = InvalidFormat | InvalidSignature | DecodeClaims | UnmarshalClaims | TokenExpired

text \<open>\<open>time.Time.Unix\<close>, in seconds, and its arithmetic as an \<open>int64\<close>\<close>

definition Unix :: "time \<Rightarrow> int" where
  "Unix t = t div second"

definition day :: "time" where
  "day = 86400 * second"

definition claims_json :: "JWTClaims \<Rightarrow> json" where
  "claims_json cl = JObject [(''sub'', JString (Sub cl)), (''exp'', JNumber (int_dec (Exp cl)))]"

definition header_json :: "json" where
  "header_json = JObject [(''alg'', JString ''HS256''), (''typ'', JString ''JWT'')]"

definition put_claims :: "bytes \<Rightarrow> json \<Rightarrow> JWTClaims \<Rightarrow> JWTClaims option" where
  "put_claims f v cl =
     (if f = ''sub'' then map_option (\<lambda>s. cl\<lparr>Sub := s\<rparr>) (into_string v (Sub cl))
      else map_option (\<lambda>n. cl\<lparr>Exp := n\<rparr>) (into_int (2 ^ 63) v (Exp cl)))"

definition parse_claims :: "bytes \<Rightarrow> JWTClaims option" where
  "parse_claims data =
     (case json_parse data of
        None \<Rightarrow> None
      | Some v \<Rightarrow> decode_struct [''sub'', ''exp''] put_claims v \<lparr>Sub = [], Exp = 0\<rparr>)"

definition sign_token :: "string \<Rightarrow> string \<Rightarrow> string" where
  "sign_token secret signingInput = RawURL_Encode (hmac_sha256 secret signingInput)"

definition generateJWT :: "string \<Rightarrow> time \<Rightarrow> string \<Rightarrow> string" where
  "generateJWT secret now username =
     (let headerB64 = RawURL_Encode (jenc header_json);
          claims = \<lparr>Sub = username, Exp = Unix (now + day)\<rparr>;
          claimsB64 = RawURL_Encode (jenc (claims_json claims));
          signingInput = headerB64 @ ''.'' @ claimsB64
      in signingInput @ ''.'' @ sign_token secret signingInput)"

text \<open>\<open>strings.Split(s, ".")\<close>\<close>

fun split_dots :: "string \<Rightarrow> string list" where
  "split_dots [] = [[]]"
| "split_dots (c # s) =
     (if c = CHR ''.'' then [] # split_dots s
      else case split_dots s of [] \<Rightarrow> [[c]] | p # ps \<Rightarrow> (c # p) # ps)"

definition validateJWT :: "string \<Rightarrow> time \<Rightarrow> string \<Rightarrow> jwt_error + JWTClaims" where
  "validateJWT secret now tokenStr =
     (case split_dots tokenStr of
        [p0, p1, p2] \<Rightarrow>
          let signingInput = p0 @ ''.'' @ p1
          in if p2 \<noteq> sign_token secret signingInput then Inl InvalidSignature
          else (case RawURL_Decode p1 of
                  None \<Rightarrow> Inl DecodeClaims
                | Some claimsBytes \<Rightarrow>
                    (case parse_claims claimsBytes of
                       None \<Rightarrow> Inl UnmarshalClaims
                     | Some claims \<Rightarrow> if Unix now > Exp claims then Inl TokenExpired else Inr claims))
      | _ \<Rightarrow> Inl InvalidFormat)"

section \<open>Tokens that are accepted\<close>

lemma split_dots_no_dot: "CHR ''.'' \<notin> set p \<Longrightarrow> split_dots p = [p]"
  by (induction p) auto

lemma split_dots_append: "CHR ''.'' \<notin> set p \<Longrightarrow> split_dots (p @ CHR ''.'' # s) = p # split_dots s"
  by (induction p) auto

fun join_dots :: "string list \<Rightarrow> string" where
  "join_dots [] = []"
| "join_dots [p] = p"
| "join_dots (p # q # ps) = p @ CHR ''.'' # join_dots (q # ps)"

lemma join_split: "split_dots s \<noteq> [] \<and> join_dots (split_dots s) = s"
proof (induction s)
  case (Cons c s)
  obtain p ps where p: "split_dots s = p # ps" using Cons by (cases "split_dots s") auto
  show ?case
  proof (cases "c = CHR ''.''")
    case False
    with Cons p show ?thesis by (cases ps) auto
  qed (use Cons p in auto)
qed simp

lemma parse_claims_json:
  assumes "valid_utf8 (Sub cl)" "- (2 ^ 63) \<le> Exp cl" "Exp cl < 2 ^ 63"
  shows "parse_claims (jenc (claims_json cl)) = Some cl"
proof -
  have "json_parse (jenc (claims_json cl)) = Some (claims_json cl)"
    unfolding claims_json_def using assms(1) by (intro json_parse_object) auto
  then show ?thesis
    using assms(2,3) by (simp add: parse_claims_def claims_json_def decode_struct_def put_claims_def)
qed

lemma validate_generated:
  assumes "valid_utf8 u" "- (2 ^ 63) \<le> Unix (t + day)" "Unix (t + day) < 2 ^ 63"
  shows "validateJWT secret now (generateJWT secret t u) =
    (if Unix now > Unix (t + day) then Inl TokenExpired else Inr \<lparr>Sub = u, Exp = Unix (t + day)\<rparr>)"
proof -
  let ?cl = "\<lparr>Sub = u, Exp = Unix (t + day)\<rparr>"
  let ?h = "RawURL_Encode (jenc header_json)" and ?c = "RawURL_Encode (jenc (claims_json ?cl))"
  let ?sig = "sign_token secret (?h @ ''.'' @ ?c)"
  have "split_dots (?h @ CHR ''.'' # ?c @ CHR ''.'' # ?sig) = [?h, ?c, ?sig]"
    using Encode_no_dot by (simp add: split_dots_append split_dots_no_dot sign_token_def)
  moreover have "generateJWT secret t u = ?h @ CHR ''.'' # ?c @ CHR ''.'' # ?sig"
    by (simp add: generateJWT_def Let_def)
  moreover have "parse_claims (jenc (claims_json ?cl)) = Some ?cl" using assms by (intro parse_claims_json) simp_all
  ultimately show ?thesis by (simp add: validateJWT_def Let_def)
qed

lemma validate_accepts:
  assumes "validateJWT secret now token = Inr cl"
  shows "\<exists>p0 p1. token = p0 @ ''.'' @ p1 @ ''.'' @ sign_token secret (p0 @ ''.'' @ p1) \<and> Unix now \<le> Exp cl"
proof -
  obtain p0 p1 p2 where p: "split_dots token = [p0, p1, p2]" "p2 = sign_token secret (p0 @ ''.'' @ p1)" "Unix now \<le> Exp cl"
    using assms by (auto simp: validateJWT_def Let_def split: list.splits option.splits if_splits)
  then show ?thesis using join_split [of token] by auto
qed

end
