(* ===== verification/Gateway.thy ===== *)
theory Gateway imports Http Jwt Ledger IntentHandler Execution begin

text \<open>
  The API gateway, \<open>gateway/main.go\<close>: its handlers and middlewares over the Redis database, the ledger
  file it shows, and the intent service it calls, which is the handler of theory \<open>IntentHandler\<close> behind
  a gRPC client.  A handler takes the response headers set so far and the state, and returns the
  response and the new state.
\<close>

section \<open>Configuration, environment and state\<close>

text \<open>
  The configured secret, and the texts and responses the libraries produce: the texts of errors, the
  static dashboard, the metrics page and the redirects of the router.
\<close>

datatype route =
    RouteDashboard | RouteLedger | RouteLogin | RouteHealth | RouteMetrics | RouteIntents | RouteIntentByID
  | RouteRedirect string | RouteNotFound

record gw_config =
  jwtSecret :: string
  gw_status_text :: "intent_error message \<Rightarrow> string"
  gw_json_text :: "bytes \<Rightarrow> string"
  gw_token_text :: "jwt_error \<Rightarrow> string"
  gw_scan_text :: "scan_error \<Rightarrow> string"
  gw_open_text :: string
  gw_library :: "route \<Rightarrow> headers \<Rightarrow> http_request \<Rightarrow> http_response"

record 'e gw_env =
  ge_auth_now :: time
  ge_rate_now :: time
  ge_now :: time
  ge_zone :: int
  ge_redis_now :: time
  ge_get :: redis_call
  ge_set :: redis_call
  ge_incr :: redis_call
  ge_expire :: redis_call
  ge_rpc :: rpc
  ge_rpc_error :: "grpc_code \<times> string"
  ge_backend :: 'e
  ge_ledger :: ledger_file
  ge_ledger_env :: ledger_env
  ge_limiter_off :: bool

record 's gw_state =
  gs_redis :: redis
  gs_backend :: 's
  gs_observed :: "(string \<times> string \<times> nat) list"

section \<open>Responses\<close>

definition writeJSON :: "headers \<Rightarrow> nat \<Rightarrow> json \<Rightarrow> http_response" where
  "writeJSON hs code v =
     \<lparr>rs_status = code, rs_headers = set_header ''Content-Type'' ''application/json'' hs, rs_body = jencode_line v\<rparr>"

definition writeError :: "headers \<Rightarrow> nat \<Rightarrow> string \<Rightarrow> http_response" where
  "writeError hs code msg = writeJSON hs code (JObject [(''error'', JString msg)])"

text \<open>The statuses of gRPC by number, and what is not a status\<close>

definition http_code_of :: "grpc_code \<Rightarrow> nat" where
  "http_code_of code =
     (let n = code_number code
      in if n = 3 then 400 else if n = 5 then 404 else if n = 4 then 504 else if n = 14 then 503
         else if n = 16 then 401 else if n = 7 then 403 else 500)"

definition handleGRPCError :: "headers \<Rightarrow> grpc_code \<times> string \<Rightarrow> http_response" where
  "handleGRPCError hs st = writeError hs (http_code_of (fst st)) (snd st)"

text \<open>
  A call of the intent service through the gRPC client: strings that are not UTF-8 do not marshal; else
  the call is answered, lost, or carried out while the answer is lost.
\<close>

definition call_rpc ::
  "gw_config \<Rightarrow> rpc \<Rightarrow> grpc_code \<times> string \<Rightarrow> string list \<Rightarrow> (istatus + 'a) \<times> 's \<Rightarrow> 's
   \<Rightarrow> ((grpc_code \<times> string) + 'a) \<times> 's" where
  "call_rpc cfg call err strings result s =
     (if \<not> list_all valid_utf8 strings then (Inl (Internal, snd err), s)
      else case call of
             RpcLost \<Rightarrow> (Inl err, s)
           | RpcUnanswered \<Rightarrow> (Inl err, snd result)
           | RpcAnswered \<Rightarrow> (map_sum (\<lambda>(code, m). (code, gw_status_text cfg m)) id (fst result), snd result))"

section \<open>Submission\<close>

record ConstraintsHTTP =
  ch_Priority :: int
  ch_MaxRetries :: int
  ch_Idempotent :: bool
  ch_Deadline :: string

record SubmitIntentHTTPRequest =
  sh_Type :: string
  sh_Payload :: string
  sh_SubmitterID :: string
  sh_Signature :: string
  sh_SubmitterPublicKey :: string
  sh_Constraints :: "ConstraintsHTTP option"

definition put_constraints :: "bytes \<Rightarrow> json \<Rightarrow> ConstraintsHTTP \<Rightarrow> ConstraintsHTTP option" where
  "put_constraints f v c =
     (if f = ''priority'' then map_option (\<lambda>n. c\<lparr>ch_Priority := n\<rparr>) (into_int (2 ^ 31) v (ch_Priority c))
      else if f = ''max_retries'' then map_option (\<lambda>n. c\<lparr>ch_MaxRetries := n\<rparr>) (into_int (2 ^ 31) v (ch_MaxRetries c))
      else if f = ''idempotent'' then map_option (\<lambda>b. c\<lparr>ch_Idempotent := b\<rparr>) (into_bool v (ch_Idempotent c))
      else map_option (\<lambda>s. c\<lparr>ch_Deadline := s\<rparr>) (into_string v (ch_Deadline c)))"

text \<open>The pointer to the constraints: null clears it, an object is decoded into what it points to.\<close>

definition into_constraints :: "json \<Rightarrow> ConstraintsHTTP option \<Rightarrow> ConstraintsHTTP option option" where
  "into_constraints v old =
     (if v = JNull then Some None
      else map_option Some
        (decode_struct [''priority'', ''max_retries'', ''idempotent'', ''deadline''] put_constraints v
          (case old of
             None \<Rightarrow> \<lparr>ch_Priority = 0, ch_MaxRetries = 0, ch_Idempotent = False, ch_Deadline = []\<rparr>
           | Some c \<Rightarrow> c)))"

definition put_submit :: "bytes \<Rightarrow> json \<Rightarrow> SubmitIntentHTTPRequest \<Rightarrow> SubmitIntentHTTPRequest option" where
  "put_submit f v x =
     (if f = ''type'' then map_option (\<lambda>s. x\<lparr>sh_Type := s\<rparr>) (into_string v (sh_Type x))
      else if f = ''payload'' then map_option (\<lambda>s. x\<lparr>sh_Payload := s\<rparr>) (into_string v (sh_Payload x))
      else if f = ''submitter_id'' then map_option (\<lambda>s. x\<lparr>sh_SubmitterID := s\<rparr>) (into_string v (sh_SubmitterID x))
      else if f = ''signature'' then map_option (\<lambda>s. x\<lparr>sh_Signature := s\<rparr>) (into_string v (sh_Signature x))
      else if f = ''submitter_public_key''
      then map_option (\<lambda>s. x\<lparr>sh_SubmitterPublicKey := s\<rparr>) (into_string v (sh_SubmitterPublicKey x))
      else map_option (\<lambda>c. x\<lparr>sh_Constraints := c\<rparr>) (into_constraints v (sh_Constraints x)))"

definition parse_submit :: "bytes \<Rightarrow> SubmitIntentHTTPRequest option" where
  "parse_submit body =
     (case json_parse body of
        None \<Rightarrow> None
      | Some v \<Rightarrow>
          decode_struct [''type'', ''payload'', ''submitter_id'', ''signature'', ''submitter_public_key'', ''constraints'']
            put_submit v
            \<lparr>sh_Type = [], sh_Payload = [], sh_SubmitterID = [], sh_Signature = [], sh_SubmitterPublicKey = [],
             sh_Constraints = None\<rparr>)"

definition gw_parseIntentType :: "string \<Rightarrow> IntentType" where
  "gw_parseIntentType s =
     (if s = ''TRANSFER'' then INTENT_TYPE_TRANSFER else if s = ''COMPUTE'' then INTENT_TYPE_COMPUTE
      else if s = ''QUERY'' then INTENT_TYPE_QUERY else if s = ''SCHEDULED'' then INTENT_TYPE_SCHEDULED
      else INTENT_TYPE_UNSPECIFIED)"

text \<open>The translation to the protobuf request, which has no place for the deadline\<close>

definition to_grpc :: "IntentType \<Rightarrow> SubmitIntentHTTPRequest \<Rightarrow> SubmitIntentRequest" where
  "to_grpc t x =
     \<lparr>si_Type = t, si_Payload = sh_Payload x,
      si_Constraints = map_option (\<lambda>c. \<lparr>Deadline = None, Priority = ch_Priority c, MaxRetries = ch_MaxRetries c,
         Idempotent = ch_Idempotent c\<rparr>) (sh_Constraints x),
      si_SubmitterId = sh_SubmitterID x, si_Signature = sh_Signature x, si_SubmitterPublicKey = sh_SubmitterPublicKey x\<rparr>"

definition submit_json :: "SubmitIntentResponse \<Rightarrow> json" where
  "submit_json resp =
     JObject [(''created_at'', JString (Format_RFC3339 0 (AsTime (sr_CreatedAt resp)))),
       (''intent_id'', JString (sr_IntentId resp)), (''status'', JString (IntentStatus_String (sr_Status resp)))]"

definition idem_key :: "string \<Rightarrow> string" where
  "idem_key sig = ''idempotency:'' @ sig"

definition submitIntent ::
  "gw_config \<Rightarrow> ed25519 \<Rightarrow> ('e, 's) Store \<Rightarrow> 'e gw_env \<Rightarrow> headers \<Rightarrow> http_request \<Rightarrow> 's gw_state
   \<Rightarrow> http_response \<times> 's gw_state" where
  "submitIntent cfg ed S e hs r st =
     (case rq_body r of
        None \<Rightarrow> (writeError hs 400 ''failed to read request body'', st)
      | Some body \<Rightarrow>
      case parse_submit body of
        None \<Rightarrow> (writeError hs 400 (''invalid JSON: '' @ gw_json_text cfg body), st)
      | Some x \<Rightarrow>
      let intentType = gw_parseIntentType (sh_Type x)
      in if intentType = INTENT_TYPE_UNSPECIFIED
      then (writeError hs 400 (''invalid intent type: '' @ sh_Type x), st)
      else let cached = (if sh_Signature x = [] then None
                         else redis_GET (ge_get e) (ge_redis_now e) (idem_key (sh_Signature x)) (gs_redis st))
      in case (case cached of None \<Rightarrow> [] | Some c \<Rightarrow> c) of
           ch # cs \<Rightarrow>
             (\<lparr>rs_status = 200,
               rs_headers = set_header ''Content-Type'' ''application/json'' (set_header ''X-Cache'' ''HIT'' hs),
               rs_body = ch # cs\<rparr>, st)
         | [] \<Rightarrow>
      let grpcReq = to_grpc intentType x
      in case call_rpc cfg (ge_rpc e) (ge_rpc_error e)
                [sh_SubmitterID x, sh_Signature x, sh_SubmitterPublicKey x]
                (SubmitIntent ed S (ge_backend e) (gs_backend st) grpcReq) (gs_backend st) of
           (Inl err, b) \<Rightarrow> (handleGRPCError hs err, st\<lparr>gs_backend := b\<rparr>)
         | (Inr resp, b) \<Rightarrow>
             let respData = submit_json resp;
                 redis' = (if sh_Signature x = [] then gs_redis st
                           else redis_SET (ge_set e) (ge_redis_now e) (idem_key (sh_Signature x)) (jenc respData) day (gs_redis st))
             in (writeJSON (set_header ''X-Cache'' ''MISS'' hs) 201 respData, st\<lparr>gs_backend := b, gs_redis := redis'\<rparr>))"

section \<open>Queries\<close>

text \<open>Reading calls change nothing behind the client.\<close>

definition read_rpc ::
  "gw_config \<Rightarrow> rpc \<Rightarrow> grpc_code \<times> string \<Rightarrow> string list \<Rightarrow> istatus + 'a \<Rightarrow> (grpc_code \<times> string) + 'a" where
  "read_rpc cfg call err strings result = fst (call_rpc cfg call err strings (result, ()) ())"

definition time_json :: "Timestamp option \<Rightarrow> json" where
  "time_json t = JString (Format_RFC3339 0 (AsTime t))"

definition intent_json :: "Intent \<Rightarrow> json" where
  "intent_json i =
     JObject [(''created_at'', time_json (CreatedAt i)), (''id'', JString (Id i)), (''payload'', JString (Payload i)),
       (''status'', JString (IntentStatus_String (Status i))), (''submitter_id'', JString (SubmitterId i)),
       (''type'', JString (IntentType_String (Type i))), (''updated_at'', time_json (UpdatedAt i))]"

definition list_item_json :: "Intent \<Rightarrow> json" where
  "list_item_json i =
     JObject [(''created_at'', time_json (CreatedAt i)), (''id'', JString (Id i)),
       (''status'', JString (IntentStatus_String (Status i))), (''submitter_id'', JString (SubmitterId i)),
       (''type'', JString (IntentType_String (Type i)))]"

definition handleIntentByID ::
  "gw_config \<Rightarrow> ('e, 's) Store \<Rightarrow> 'e gw_env \<Rightarrow> headers \<Rightarrow> http_request \<Rightarrow> 's gw_state \<Rightarrow> http_response" where
  "handleIntentByID cfg S e hs r st =
     (if rq_method r \<noteq> ''GET'' then http_Error hs ''Method not allowed'' 405
      else let iid = drop (length ''/intents/'') (rq_path r)
      in if iid = [] then writeError hs 400 ''intent_id is required in path''
      else case read_rpc cfg (ge_rpc e) (ge_rpc_error e) [iid]
                  (GetIntent S (ge_backend e) (gs_backend st) \<lparr>gi_IntentId = iid\<rparr>) of
             Inl err \<Rightarrow> handleGRPCError hs err
           | Inr resp \<Rightarrow> writeJSON hs 200 (intent_json (gr_Intent resp)))"

definition listIntents ::
  "gw_config \<Rightarrow> ('e, 's) Store \<Rightarrow> 'e gw_env \<Rightarrow> headers \<Rightarrow> http_request \<Rightarrow> 's gw_state \<Rightarrow> http_response" where
  "listIntents cfg S e hs r st =
     (let sub = query_get r ''submitter_id''; tok = query_get r ''page_token''
      in case read_rpc cfg (ge_rpc e) (ge_rpc_error e) [sub, tok]
                (ListIntents S (ge_backend e) (gs_backend st)
                  \<lparr>li_StatusFilter = INTENT_STATUS_UNSPECIFIED, li_SubmitterIdFilter = sub, li_PageSize = 0,
                   li_PageToken = tok\<rparr>) of
           Inl err \<Rightarrow> handleGRPCError hs err
         | Inr resp \<Rightarrow>
             writeJSON hs 200
               (JObject [(''intents'', JArray (map list_item_json (lr_Intents resp))),
                  (''next_page_token'', JString (lr_NextPageToken resp)),
                  (''total_count'', JNumber (int_dec (lr_TotalCount resp)))]))"

definition handleIntents ::
  "gw_config \<Rightarrow> ed25519 \<Rightarrow> ('e, 's) Store \<Rightarrow> 'e gw_env \<Rightarrow> headers \<Rightarrow> http_request \<Rightarrow> 's gw_state
   \<Rightarrow> http_response \<times> 's gw_state" where
  "handleIntents cfg ed S e hs r st =
     (if rq_method r = ''POST'' then submitIntent cfg ed S e hs r st
      else if rq_method r = ''GET'' then (listIntents cfg S e hs r st, st)
      else (http_Error hs ''Method not allowed'' 405, st))"

definition handleHealth :: "'e gw_env \<Rightarrow> headers \<Rightarrow> http_request \<Rightarrow> http_response" where
  "handleHealth e hs r =
     (if rq_method r \<noteq> ''GET'' then http_Error hs ''Method not allowed'' 405
      else writeJSON hs 200 (JObject [(''service'', JString ''gateway''), (''status'', JString ''UP''),
             (''timestamp'', JString (Format_RFC3339 (ge_zone e) (ge_now e)))]))"

section \<open>The ledger page\<close>

text \<open>The loop that reverses the blocks in place\<close>

function reverse_loop :: "int \<Rightarrow> int \<Rightarrow> 'a list \<Rightarrow> 'a list" where
  "reverse_loop i j xs =
     (if i < j then reverse_loop (i + 1) (j - 1) (xs[nat i := xs ! nat j, nat j := xs ! nat i]) else xs)"
  by pat_completeness auto
termination
  by (relation "measure (\<lambda>(i, j, xs). nat (j - i))") auto

declare reverse_loop.simps [simp del]

text \<open>
  A raw message inside an encoded value is compacted: white space outside strings goes, HTML characters
  and the two line separators are escaped; text that is not JSON is an error.
\<close>

fun compact_text :: "bool \<Rightarrow> bool \<Rightarrow> bytes \<Rightarrow> bytes" where
  "compact_text instr esc [] = []"
| "compact_text instr esc (c # s) =
     (let n = byte c;
          instr' = (if instr then \<not> (n = 34 \<and> \<not> esc) else n = 34);
          esc' = (instr \<and> n = 92 \<and> \<not> esc)
      in if n = 60 \<or> n = 62 \<or> n = 38
         then backslash # ''u00'' @ [hex_low (n div 16), hex_low (n mod 16)] @ compact_text instr' esc' s
         else if n = 226 \<and> length s \<ge> 2 \<and> byte (s ! 0) = 128 \<and> byte (s ! 1) div 2 = 84
         then backslash # ''u202'' @ [hex_low (byte (s ! 1) mod 16)] @ compact_text instr' esc' (drop 2 s)
         else if \<not> instr \<and> is_space c then compact_text instr' esc' s
         else c # compact_text instr' esc' s)"

definition raw_message :: "bytes \<Rightarrow> bytes option" where
  "raw_message s = (case json_parse s of None \<Rightarrow> None | Some _ \<Rightarrow> Some (compact_text False False s))"

text \<open>The body of an encoded array of raw messages; when one is bad nothing is written.\<close>

definition encode_raw :: "bytes list \<Rightarrow> bytes" where
  "encode_raw blocks =
     (case those (map raw_message blocks) of
        None \<Rightarrow> []
      | Some bs \<Rightarrow> ''['' @ separated bs @ '']'' @ [char_of (10 :: nat)])"

definition handleAPILedger :: "gw_config \<Rightarrow> 'e gw_env \<Rightarrow> headers \<Rightarrow> http_request \<Rightarrow> http_response" where
  "handleAPILedger cfg e hs r =
     (if rq_method r \<noteq> ''GET'' then http_Error hs ''Method not allowed'' 405
      else let hs = set_header ''Content-Type'' ''application/json'' (set_header ''Access-Control-Allow-Origin'' ''*'' hs);
               empty = \<lparr>rs_status = 200, rs_headers = hs, rs_body = ''[]''\<rparr>
      in if le_open_fails (ge_ledger_env e)
      then writeError hs 500 (''failed to open ledger: '' @ gw_open_text cfg)
      else case ge_ledger e of
             None \<Rightarrow> empty
           | Some data \<Rightarrow>
               (case scan_file (le_read_fails (ge_ledger_env e)) data of
                  (ls, Some x) \<Rightarrow> writeError hs 500 (''failed to scan ledger: '' @ gw_scan_text cfg x)
                | (ls, None) \<Rightarrow>
                    let blocks = filter (\<lambda>l. l \<noteq> []) ls;
                        blocks = reverse_loop 0 (int (length blocks) - 1) blocks
                    in if blocks = [] then empty
                    else \<lparr>rs_status = 200, rs_headers = set_header ''Content-Type'' ''application/json'' hs,
                          rs_body = encode_raw blocks\<rparr>))"

section \<open>Login\<close>

definition put_login :: "bytes \<Rightarrow> json \<Rightarrow> string \<times> string \<Rightarrow> (string \<times> string) option" where
  "put_login f v x =
     (if f = ''username'' then map_option (\<lambda>s. (s, snd x)) (into_string v (fst x))
      else map_option (\<lambda>s. (fst x, s)) (into_string v (snd x)))"

definition parse_login :: "bytes \<Rightarrow> (string \<times> string) option" where
  "parse_login body =
     (case json_prefix body of
        None \<Rightarrow> None
      | Some (v, _) \<Rightarrow> decode_struct [''username'', ''password''] put_login v ([], []))"

definition handleLogin :: "gw_config \<Rightarrow> 'e gw_env \<Rightarrow> headers \<Rightarrow> http_request \<Rightarrow> http_response" where
  "handleLogin cfg e hs r =
     (if rq_method r \<noteq> ''POST'' then writeError hs 405 ''Method not allowed''
      else case Option.bind (rq_body r) parse_login of
             None \<Rightarrow> writeError hs 400 ''Invalid JSON body''
           | Some (user, password) \<Rightarrow>
               if user \<noteq> ''admin'' \<or> password \<noteq> ''aien-admin-2026''
               then writeError hs 401 ''Invalid username or password''
               else writeJSON hs 200 (JObject [(''token'', JString (generateJWT (jwtSecret cfg) (ge_now e) user))]))"

section \<open>Routing and middlewares\<close>

text \<open>The patterns of the mux: a pattern that ends in a slash covers the paths below it.\<close>

definition route_of :: "http_request \<Rightarrow> route" where
  "route_of r =
     (let p = (if rq_method r = ''CONNECT'' then rq_path r else clean_path (rq_path r))
      in if p = ''/dashboard'' then RouteRedirect ''/dashboard/''
         else if p \<noteq> rq_path r then RouteRedirect p
         else if p = ''/api/ledger'' then RouteLedger else if p = ''/api/login'' then RouteLogin
         else if p = ''/health'' then RouteHealth else if p = ''/metrics'' then RouteMetrics
         else if p = ''/intents'' then RouteIntents else if has_prefix p ''/intents/'' then RouteIntentByID
         else if has_prefix p ''/dashboard/'' then RouteDashboard else RouteNotFound)"

definition mux ::
  "gw_config \<Rightarrow> ed25519 \<Rightarrow> ('e, 's) Store \<Rightarrow> 'e gw_env \<Rightarrow> headers \<Rightarrow> http_request \<Rightarrow> 's gw_state
   \<Rightarrow> http_response \<times> 's gw_state" where
  "mux cfg ed S e hs r st =
     (case route_of r of
        RouteLedger \<Rightarrow> (handleAPILedger cfg e hs r, st)
      | RouteLogin \<Rightarrow> (handleLogin cfg e hs r, st)
      | RouteHealth \<Rightarrow> (handleHealth e hs r, st)
      | RouteIntents \<Rightarrow> handleIntents cfg ed S e hs r st
      | RouteIntentByID \<Rightarrow> (handleIntentByID cfg S e hs r st, st)
      | other \<Rightarrow> (gw_library cfg other hs r, st))"

text \<open>The Redis key of a client in a minute; Go's division truncates.\<close>

definition client_ip :: "http_request \<Rightarrow> string" where
  "client_ip r = (case SplitHost (rq_remote r) of None \<Rightarrow> rq_remote r | Some ip \<Rightarrow> ip)"

definition minute_of :: "time \<Rightarrow> int" where
  "minute_of t = (let s = Unix t in if s \<ge> 0 then s div 60 else - ((- s) div 60))"

definition rate_key :: "string \<Rightarrow> int \<Rightarrow> string" where
  "rate_key ip m = ''rate:'' @ ip @ '':'' @ int_dec m"

definition limited :: "http_request \<Rightarrow> bool" where
  "limited r \<longleftrightarrow> rq_method r = ''POST'' \<and> rq_path r = ''/intents''"

text \<open>
  The limiter: the count of the request, \<open>None\<close> when Redis reported an error, and the database after
  the increment and, for the first request, the expiry.
\<close>

definition count_request :: "'e gw_env \<Rightarrow> http_request \<Rightarrow> redis \<Rightarrow> int option \<times> redis" where
  "count_request e r db =
     (let key = rate_key (client_ip r) (minute_of (ge_rate_now e))
      in case redis_INCR (ge_incr e) (ge_redis_now e) key db of
           (None, db') \<Rightarrow> (None, db')
         | (Some cnt, db') \<Rightarrow>
             (Some cnt, if cnt = 1 then redis_EXPIRE (ge_expire e) (ge_redis_now e) key (60 * second) db' else db'))"

definition rateLimitMiddleware ::
  "'e gw_env \<Rightarrow> (headers \<Rightarrow> http_request \<Rightarrow> 's gw_state \<Rightarrow> http_response \<times> 's gw_state)
   \<Rightarrow> headers \<Rightarrow> http_request \<Rightarrow> 's gw_state \<Rightarrow> http_response \<times> 's gw_state" where
  "rateLimitMiddleware e next hs r st =
     (if ge_limiter_off e \<or> \<not> limited r then next hs r st
      else case count_request e r (gs_redis st) of
             (None, db) \<Rightarrow> next hs r (st\<lparr>gs_redis := db\<rparr>)
           | (Some cnt, db) \<Rightarrow>
               let remaining = (if 10 - cnt < 0 then 0 else 10 - cnt);
                   hs' = set_header ''X-RateLimit-Remaining'' (int_dec remaining) (set_header ''X-RateLimit-Limit'' ''10'' hs);
                   st' = st\<lparr>gs_redis := db\<rparr>
               in if cnt > 10
                  then (writeError (set_header ''Retry-After'' ''60'' hs') 429 ''Too many requests. Limit is 10 per minute.'', st')
                  else next hs' r st')"

definition exempt :: "string \<Rightarrow> bool" where
  "exempt path \<longleftrightarrow> path = ''/health'' \<or> path = ''/metrics'' \<or> path = ''/api/login'' \<or> has_prefix path ''/dashboard/''"

definition authMiddleware ::
  "gw_config \<Rightarrow> 'e gw_env \<Rightarrow> (headers \<Rightarrow> http_request \<Rightarrow> 's gw_state \<Rightarrow> http_response \<times> 's gw_state)
   \<Rightarrow> headers \<Rightarrow> http_request \<Rightarrow> 's gw_state \<Rightarrow> http_response \<times> 's gw_state" where
  "authMiddleware cfg e next hs r st =
     (if exempt (rq_path r) then next hs r st
      else if rq_authorization r = [] \<or> \<not> has_prefix (rq_authorization r) ''Bearer ''
      then (writeError hs 401 ''missing or malformed Authorization header'', st)
      else case validateJWT (jwtSecret cfg) (ge_auth_now e) (drop (length ''Bearer '') (rq_authorization r)) of
             Inl err \<Rightarrow> (writeError hs 401 (''unauthorized: '' @ gw_token_text cfg err), st)
           | Inr claims \<Rightarrow> next hs r st)"

text \<open>The logging middleware counts every request but those for metrics and health by its status.\<close>

definition loggingMiddleware ::
  "(headers \<Rightarrow> http_request \<Rightarrow> 's gw_state \<Rightarrow> http_response \<times> 's gw_state)
   \<Rightarrow> http_request \<Rightarrow> 's gw_state \<Rightarrow> http_response \<times> 's gw_state" where
  "loggingMiddleware next r st =
     (case next [] r st of
        (resp, st') \<Rightarrow>
          (resp, if rq_path r \<noteq> ''/metrics'' \<and> rq_path r \<noteq> ''/health''
                 then st'\<lparr>gs_observed := gs_observed st' @ [(rq_method r, rq_path r, rs_status resp)]\<rparr> else st'))"

definition serve_http ::
  "gw_config \<Rightarrow> ed25519 \<Rightarrow> ('e, 's) Store \<Rightarrow> 'e gw_env \<Rightarrow> http_request \<Rightarrow> 's gw_state \<Rightarrow> http_response \<times> 's gw_state" where
  "serve_http cfg ed S e r st =
     loggingMiddleware (authMiddleware cfg e (rateLimitMiddleware e (mux cfg ed S e))) r st"

fun serve_all ::
  "gw_config \<Rightarrow> ed25519 \<Rightarrow> ('e, 's) Store \<Rightarrow> ('e gw_env \<times> http_request) list \<Rightarrow> 's gw_state
   \<Rightarrow> http_response list \<times> 's gw_state" where
  "serve_all cfg ed S [] st = ([], st)"
| "serve_all cfg ed S ((e, r) # ers) st =
     (case serve_http cfg ed S e r st of
        (resp, st') \<Rightarrow> map_prod ((#) resp) id (serve_all cfg ed S ers st'))"

end
