(* ===== verification/GatewayProps.thy ===== *)
theory GatewayProps imports Gateway begin

text \<open>
  What the gateway promises about sessions: tokens work until they expire and only signed ones work, and
  a request without one learns and changes nothing.
\<close>

section \<open>Tokens\<close>

text \<open>
  C27. A token made at login is accepted, with its user, until a day has passed and never after; and
  whatever the gateway accepts, at whatever time, ends with the HMAC of what comes before under the
  configured secret and has not expired.
\<close>

theorem token_round_trip:
  assumes "valid_utf8 user" "- (2 ^ 63) \<le> Unix (t + day)" "Unix (t + day) < 2 ^ 63"
  shows "(validateJWT secret now (generateJWT secret t user) =
      (if Unix now \<le> Unix t + 86400 then Inr \<lparr>Sub = user, Exp = Unix t + 86400\<rparr> else Inl TokenExpired)) \<and>
    (validateJWT secret now token = Inr cl \<longrightarrow>
      (\<exists>p0 p1. token = p0 @ ''.'' @ p1 @ ''.'' @ sign_token secret (p0 @ ''.'' @ p1)) \<and> Unix now \<le> Exp cl)"
proof -
  have "Unix (t + day) = Unix t + 86400" by (simp add: Unix_def day_def second_def)
  then show ?thesis
    using validate_generated [OF assms, of secret now] validate_accepts [of secret now token cl] by auto
qed

lemma token_round_trip_witness:
  "validateJWT ''key'' (5 * second) (generateJWT ''key'' 0 ''admin'') = Inr \<lparr>Sub = ''admin'', Exp = 86400\<rparr>"
  using token_round_trip [of "''admin''" 0 "''key''" "5 * second"]
  by (simp add: Unix_def day_def second_def)

section \<open>Requests without a token\<close>

definition authorised :: "gw_config \<Rightarrow> 'e gw_env \<Rightarrow> http_request \<Rightarrow> bool" where
  "authorised cfg e r \<longleftrightarrow> (\<exists>token cl. rq_authorization r = ''Bearer '' @ token
     \<and> validateJWT (jwtSecret cfg) (ge_auth_now e) token = Inr cl)"

lemma has_prefix_append: "has_prefix s p \<longleftrightarrow> (\<exists>t. s = p @ t)"
  unfolding has_prefix_def by (metis append_eq_conv_conj append_take_drop_id)

lemma authMiddleware_cases:
  "authMiddleware cfg e next hs r st =
     (if exempt (rq_path r) \<or> authorised cfg e r then next hs r st
      else (writeError hs 401
             (if has_prefix (rq_authorization r) ''Bearer ''
              then ''unauthorized: '' @ gw_token_text cfg
                (case validateJWT (jwtSecret cfg) (ge_auth_now e) (drop 7 (rq_authorization r)) of Inl x \<Rightarrow> x | Inr _ \<Rightarrow> InvalidFormat)
              else ''missing or malformed Authorization header''), st))"
proof (cases "has_prefix (rq_authorization r) ''Bearer ''")
  case True
  then obtain t where t: "rq_authorization r = ''Bearer '' @ t" by (auto simp: has_prefix_append)
  then show ?thesis
    using True by (auto simp: authMiddleware_def authorised_def split: sum.splits)
next
  case False
  then have "\<not> authorised cfg e r" by (auto simp: authorised_def has_prefix_append)
  with False show ?thesis by (simp add: authMiddleware_def)
qed

lemma exempt_route:
  assumes "exempt (rq_path r)"
  shows "route_of r \<notin> {RouteLedger, RouteIntents, RouteIntentByID}" "\<not> limited r"
proof -
  have "\<not> has_prefix (rq_path r) ''/intents''" "rq_path r \<noteq> ''/api/ledger''"
    using assms by (auto simp: exempt_def has_prefix_append)
  then show "route_of r \<notin> {RouteLedger, RouteIntents, RouteIntentByID}" "\<not> limited r"
    by (auto simp: route_of_def limited_def has_prefix_append Let_def)
qed

lemma serve_exempt:
  assumes "exempt (rq_path r)"
  shows "authMiddleware cfg e (rateLimitMiddleware e (mux cfg ed S e)) hs r st = mux cfg ed S e hs r st"
    "gs_redis (snd (mux cfg ed S e hs r st)) = gs_redis st" "gs_backend (snd (mux cfg ed S e hs r st)) = gs_backend st"
  using assms exempt_route [OF assms]
  by (auto simp: authMiddleware_def rateLimitMiddleware_def mux_def split: route.splits)


section \<open>Instances\<close>

definition gw_cfg :: "gw_config" where
  "gw_cfg = \<lparr>jwtSecret = ''key'', gw_status_text = (\<lambda>_. ''error''), gw_json_text = (\<lambda>_. ''syntax''),
     gw_token_text = (\<lambda>_. ''token''), gw_scan_text = (\<lambda>_. ''scan''), gw_open_text = ''open'',
     gw_library = (\<lambda>_ hs _. \<lparr>rs_status = 200, rs_headers = hs, rs_body = []\<rparr>)\<rparr>"

definition gw_up :: "'e \<Rightarrow> time \<Rightarrow> 'e gw_env" where
  "gw_up b t = \<lparr>ge_auth_now = t, ge_rate_now = t, ge_now = t, ge_zone = 0, ge_redis_now = t, ge_get = RedisAnswered,
     ge_set = RedisAnswered, ge_incr = RedisAnswered, ge_expire = RedisAnswered, ge_rpc = RpcAnswered,
     ge_rpc_error = (Unavailable, ''unavailable''), ge_backend = b, ge_ledger = None,
     ge_ledger_env = \<lparr>le_open_fails = False, le_read_fails = None, le_create_fails = False, le_write_fails = None,
       le_sync_fails = False, le_now = t, le_zone = 0\<rparr>, ge_limiter_off = False\<rparr>"

definition get_request :: "string \<Rightarrow> http_request" where
  "get_request path = \<lparr>rq_method = ''GET'', rq_path = path, rq_query = [], rq_authorization = [],
     rq_remote = ''10.0.0.1:7'', rq_body = Some []\<rparr>"


end
