(* ===== verification/GatewayLimits.thy ===== *)
theory GatewayLimits imports GatewayProps begin

text \<open>
  The two uses the gateway makes of Redis: the limit of ten submissions a minute for a client, and the
  cache of answers by signature, which makes a repeated submission harmless as long as the text of the
  signature is the same.
\<close>

section \<open>The counter of a client\<close>

text \<open>The key \<open>k\<close> counts \<open>n\<close> requests and does not expire before \<open>T\<close>.\<close>

definition counts :: "string \<Rightarrow> time \<Rightarrow> nat \<Rightarrow> redis \<Rightarrow> bool" where
  "counts k T n db \<longleftrightarrow>
     (if n = 0 then db k = None
      else (\<exists>en. db k = Some en \<and> re_value en = int_dec (int n)
              \<and> (case re_expiry en of None \<Rightarrow> True | Some x \<Rightarrow> T \<le> x)))"

lemma counts_cong: "db' k = db k \<Longrightarrow> counts k T n db' \<longleftrightarrow> counts k T n db"
  by (simp add: counts_def)

lemma counts_live:
  assumes "counts k T n db" "0 < n" "t < T"
  shows "\<exists>en. redis_live t db k = Some en \<and> db k = Some en \<and> re_value en = int_dec (int n)"
  using assms by (auto simp: counts_def redis_live_def split: option.splits)

lemma incr_counts:
  assumes "counts k T n db" "t < T" "int n + 1 < 2 ^ 63"
  shows "\<exists>db'. redis_incr t k db = (Some (int n + 1), db') \<and> counts k T (Suc n) db'"
proof (cases "n = 0")
  case True
  with assms(1) show ?thesis by (simp add: counts_def redis_incr_def redis_live_def)
next
  case False
  then obtain en where en: "redis_live t db k = Some en" "db k = Some en" "re_value en = int_dec (int n)"
    using counts_live [OF assms(1) _ assms(2)] by auto
  have p: "ParseInt_lit (2 ^ 63) (re_value en) = Some (int n)" using assms(3) unfolding en(3) by (intro ParseInt_int_dec) simp_all
  have "redis_incr t k db = (Some (int n + 1), db(k \<mapsto> en\<lparr>re_value := int_dec (int n + 1)\<rparr>))"
    unfolding redis_incr_def en(1) option.case p using assms(3) by simp
  moreover have "counts k T (Suc n) (db(k \<mapsto> en\<lparr>re_value := int_dec (int n + 1)\<rparr>))"
    using assms(1) False en(2) by (simp add: counts_def algebra_simps)
  ultimately show ?thesis by blast
qed

lemma expire_counts:
  assumes "counts k T n db" "t < T" "T \<le> t + ttl" "0 < n"
  shows "counts k T n (redis_EXPIRE call t k ttl db)"
proof -
  obtain en where "redis_live t db k = Some en" "db k = Some en" "re_value en = int_dec (int n)"
    using counts_live [OF assms(1,4,2)] by blast
  with assms show ?thesis by (auto simp: redis_EXPIRE_def counts_def)
qed

text \<open>The key of a request in the limiter\<close>

definition key_of :: "'e gw_env \<Rightarrow> http_request \<Rightarrow> string" where
  "key_of e r = rate_key (client_ip r) (minute_of (ge_rate_now e))"

lemma count_request_counts:
  assumes "counts (key_of e r) T n db" "ge_incr e = RedisAnswered" "T - 60 * second \<le> ge_redis_now e" "ge_redis_now e < T"
    and "int n + 1 < 2 ^ 63"
  shows "\<exists>db'. count_request e r db = (Some (int n + 1), db') \<and> counts (key_of e r) T (Suc n) db'"
proof -
  obtain db1 where db1: "redis_incr (ge_redis_now e) (key_of e r) db = (Some (int n + 1), db1)" "counts (key_of e r) T (Suc n) db1"
    using incr_counts [OF assms(1,4,5)] by blast
  have "counts (key_of e r) T (Suc n) (redis_EXPIRE (ge_expire e) (ge_redis_now e) (key_of e r) (60 * second) db1)"
    using assms(3,4) by (intro expire_counts [OF db1(2)]) simp_all
  then show ?thesis
    using db1 assms(2)
    by (cases "int n + 1 = 1") (simp_all add: count_request_def redis_INCR_def key_of_def [symmetric] Let_def)
qed

lemma count_request_other: "key_of e r \<noteq> k \<Longrightarrow> snd (count_request e r db) k = db k"
  by (auto simp: count_request_def redis_INCR_def redis_incr_def redis_EXPIRE_def key_of_def Let_def
      split: redis_call.splits option.splits)

section \<open>What the handlers do to the counters\<close>

lemma idem_not_rate: "idem_key s \<noteq> rate_key ip m" "rate_key ip m \<noteq> idem_key s"
  by (simp_all add: idem_key_def rate_key_def)

lemma submit_keeps_counter:
  "gs_redis (snd (submitIntent cfg ed S e hs r st)) (rate_key ip m) = gs_redis st (rate_key ip m)"
  by (simp add: submitIntent_def redis_SET_def idem_not_rate Let_def split: option.splits list.splits prod.splits sum.splits)

lemma mux_keeps_counter: "gs_redis (snd (mux cfg ed S e hs r st)) (rate_key ip m) = gs_redis st (rate_key ip m)"
  by (auto simp: mux_def handleIntents_def submit_keeps_counter split: route.splits)

lemma http_code_not_429: "http_code_of c \<noteq> 429"
  by (simp add: http_code_of_def Let_def)

lemma submit_not_429: "rs_status (fst (submitIntent cfg ed S e hs r st)) \<noteq> 429"
  using http_code_not_429
  by (auto simp: submitIntent_def writeError_def writeJSON_def handleGRPCError_def Let_def
      split: option.splits list.splits prod.splits sum.splits)

lemma clean_intents: "clean_path ''/intents'' = ''/intents''"
  by code_simp

lemma limited_route: "limited r \<Longrightarrow> route_of r = RouteIntents"
  by (simp add: limited_def route_of_def clean_intents)

lemma mux_not_429: "limited r \<Longrightarrow> rs_status (fst (mux cfg ed S e hs r st)) \<noteq> 429"
  using submit_not_429 by (simp add: mux_def limited_route handleIntents_def limited_def)

section \<open>Ten a minute\<close>

definition counted :: "gw_config \<Rightarrow> string \<Rightarrow> 'e gw_env \<times> http_request \<Rightarrow> bool" where
  "counted cfg k er \<longleftrightarrow> limited (snd er) \<and> key_of (fst er) (snd er) = k \<and> authorised cfg (fst er) (snd er)"

lemma not_exempt_limited: "limited r \<Longrightarrow> \<not> exempt (rq_path r)"
  using exempt_route(2) by blast

lemma logging_passes:
  "fst (loggingMiddleware next r st) = fst (next [] r st)"
  "gs_redis (snd (loggingMiddleware next r st)) = gs_redis (snd (next [] r st))"
  "gs_backend (snd (loggingMiddleware next r st)) = gs_backend (snd (next [] r st))"
  by (simp_all add: loggingMiddleware_def split: prod.splits)

lemma serve_passed:
  assumes "exempt (rq_path r) \<or> authorised cfg e r"
  shows "fst (serve_http cfg ed S e r st) = fst (rateLimitMiddleware e (mux cfg ed S e) [] r st)"
    "gs_redis (snd (serve_http cfg ed S e r st)) = gs_redis (snd (rateLimitMiddleware e (mux cfg ed S e) [] r st))"
    "gs_backend (snd (serve_http cfg ed S e r st)) = gs_backend (snd (rateLimitMiddleware e (mux cfg ed S e) [] r st))"
  unfolding serve_http_def logging_passes authMiddleware_cases using assms by simp_all

lemma limit_uncounted:
  assumes "limited r \<longrightarrow> key_of e r \<noteq> rate_key ip m"
  shows "gs_redis (snd (rateLimitMiddleware e (mux cfg ed S e) [] r st)) (rate_key ip m) = gs_redis st (rate_key ip m)"
proof (cases "ge_limiter_off e \<or> \<not> limited r")
  case True
  then show ?thesis by (simp add: rateLimitMiddleware_def mux_keeps_counter)
next
  case False
  obtain c db where cr: "count_request e r (gs_redis st) = (c, db)" by (cases "count_request e r (gs_redis st)")
  have "db (rate_key ip m) = gs_redis st (rate_key ip m)"
    using count_request_other [of e r "rate_key ip m" "gs_redis st"] assms False by (simp add: cr)
  with False cr show ?thesis
    by (cases c) (simp_all add: rateLimitMiddleware_def mux_keeps_counter Let_def)
qed

lemma serve_uncounted:
  assumes "\<not> counted cfg (rate_key ip m) (e, r)"
  shows "gs_redis (snd (serve_http cfg ed S e r st)) (rate_key ip m) = gs_redis st (rate_key ip m)"
proof (cases "exempt (rq_path r) \<or> authorised cfg e r")
  case True
  then have "limited r \<longrightarrow> key_of e r \<noteq> rate_key ip m"
    using assms not_exempt_limited by (auto simp: counted_def)
  then show ?thesis unfolding serve_passed(2) [OF True] by (rule limit_uncounted)
next
  case False
  then show ?thesis unfolding serve_http_def logging_passes authMiddleware_cases by simp
qed

lemma serve_counted:
  assumes "counted cfg k (e, r)" "k = rate_key ip m" "counts k T n (gs_redis st)" "ge_incr e = RedisAnswered"
    and "\<not> ge_limiter_off e" "T - 60 * second \<le> ge_redis_now e" "ge_redis_now e < T" "int n + 1 < 2 ^ 63"
  shows "(rs_status (fst (serve_http cfg ed S e r st)) \<noteq> 429 \<longleftrightarrow> n < 10)
    \<and> counts k T (Suc n) (gs_redis (snd (serve_http cfg ed S e r st)))"
proof -
  have r: "limited r" "key_of e r = k" "authorised cfg e r" using assms(1) by (simp_all add: counted_def)
  obtain db where db: "count_request e r (gs_redis st) = (Some (int n + 1), db)" "counts k T (Suc n) db"
    using count_request_counts [of e r T n "gs_redis st"] assms(3-8) r(2) by auto
  have keep: "counts k T (Suc n) (gs_redis (snd (mux cfg ed S e hs r (st\<lparr>gs_redis := db\<rparr>))))" for hs
    using db(2) mux_keeps_counter [of cfg ed S e hs r "st\<lparr>gs_redis := db\<rparr>" ip m]
    unfolding assms(2) by (simp add: counts_def)
  define out where "out = rateLimitMiddleware e (mux cfg ed S e) [] r st"
  have "(rs_status (fst out) \<noteq> 429 \<longleftrightarrow> n < 10) \<and> counts k T (Suc n) (gs_redis (snd out))"
  proof (cases "n < 10")
    case True
    then have "\<not> int n + 1 > 10" by simp
    then obtain hs where hs: "out = mux cfg ed S e hs r (st\<lparr>gs_redis := db\<rparr>)"
      using assms(5) r(1) by (simp add: out_def rateLimitMiddleware_def db(1) Let_def)
    show ?thesis
      unfolding hs using True keep mux_not_429 [OF r(1)] by simp
  next
    case False
    then have "int n + 1 > 10" by simp
    then show ?thesis
      using assms(5) r(1) db False by (simp add: out_def rateLimitMiddleware_def Let_def writeError_def writeJSON_def)
  qed
  then show ?thesis
    using serve_passed(1,2) [of r cfg e ed S st] r(3) by (simp add: out_def)
qed

text \<open>The statuses other than 429 among the counted requests of a run\<close>

definition passed :: "gw_config \<Rightarrow> string \<Rightarrow> ('e gw_env \<times> http_request) list \<Rightarrow> http_response list \<Rightarrow> bool list" where
  "passed cfg k qs resps = map (\<lambda>x. rs_status (snd x) \<noteq> 429) (filter (\<lambda>x. counted cfg k (fst x)) (zip qs resps))"

lemma passed_Cons:
  "passed cfg k (q # qs) (resp # resps) =
     (if counted cfg k q then (rs_status resp \<noteq> 429) # passed cfg k qs resps else passed cfg k qs resps)"
  by (simp add: passed_def)

lemma serve_all_Cons:
  "fst (serve_all cfg ed S ((e, r) # qs) st) =
     fst (serve_http cfg ed S e r st) # fst (serve_all cfg ed S qs (snd (serve_http cfg ed S e r st)))"
  "snd (serve_all cfg ed S ((e, r) # qs) st) = snd (serve_all cfg ed S qs (snd (serve_http cfg ed S e r st)))"
  by (simp_all split: prod.splits)

definition redis_up :: "time \<Rightarrow> 'e gw_env \<Rightarrow> bool" where
  "redis_up T e \<longleftrightarrow> ge_incr e = RedisAnswered \<and> \<not> ge_limiter_off e
     \<and> T - 60 * second \<le> ge_redis_now e \<and> ge_redis_now e < T"

lemma passed_from:
  assumes "k = rate_key ip m" "\<forall>q \<in> set qs. counted cfg k q \<longrightarrow> redis_up T (fst q)"
    and "counts k T n (gs_redis st)" "int n + int (length qs) < 2 ^ 63"
  shows "passed cfg k qs (fst (serve_all cfg ed S qs st)) = map (\<lambda>i. i < 10) [n..<n + length (filter (counted cfg k) qs)]"
  using assms
proof (induction qs arbitrary: n st)
  case Nil
  then show ?case by (simp add: passed_def)
next
  case (Cons er qs)
  obtain e r where er: "er = (e, r)" by (cases er)
  let ?st = "snd (serve_http cfg ed S e r st)"
  have up: "\<forall>q \<in> set qs. counted cfg k q \<longrightarrow> redis_up T (fst q)" using Cons.prems(2) by simp
  show ?case
  proof (cases "counted cfg k (e, r)")
    case False
    have "gs_redis ?st k = gs_redis st k"
      using serve_uncounted [of cfg ip m e r ed S st] False unfolding Cons.prems(1) by blast
    then have "counts k T n (gs_redis ?st)" using Cons.prems(3) counts_cong by metis
    moreover have "int n + int (length qs) < 2 ^ 63" using Cons.prems(4) by simp
    ultimately have "passed cfg k qs (fst (serve_all cfg ed S qs ?st)) = map (\<lambda>i. i < 10) [n..<n + length (filter (counted cfg k) qs)]"
      using Cons.IH [OF Cons.prems(1) up] by blast
    then show ?thesis unfolding er serve_all_Cons passed_Cons using False by simp
  next
    case True
    then have "redis_up T e" using Cons.prems(2) er by simp
    then have e: "ge_incr e = RedisAnswered" "\<not> ge_limiter_off e" "T - 60 * second \<le> ge_redis_now e" "ge_redis_now e < T"
      by (simp_all add: redis_up_def)
    have "int n + 1 < 2 ^ 63" "int (Suc n) + int (length qs) < 2 ^ 63" using Cons.prems(4) by simp_all
    note s = serve_counted [OF True Cons.prems(1,3) e this(1), of ed S]
    have "passed cfg k qs (fst (serve_all cfg ed S qs ?st)) = map (\<lambda>i. i < 10) [Suc n..<Suc n + length (filter (counted cfg k) qs)]"
      by (rule Cons.IH [OF Cons.prems(1) up]) (use s \<open>int (Suc n) + int (length qs) < 2 ^ 63\<close> in blast)+
    moreover have "[n..<Suc n + length (filter (counted cfg k) qs)] = n # [Suc n..<Suc n + length (filter (counted cfg k) qs)]"
      by (rule upt_conv_Cons) simp
    ultimately show ?thesis unfolding er serve_all_Cons passed_Cons using True s by simp
  qed
qed

text \<open>
  C26. Ten submissions a minute.  Whatever else the gateway serves in between, of the submissions of one
  client in one minute that carry a token the first ten are passed on and every further one is refused
  with status 429, as long as Redis answers.
\<close>

theorem ten_submissions_a_minute:
  assumes "\<forall>q \<in> set qs. counted cfg (rate_key ip m) q \<longrightarrow> redis_up T (fst q)"
    and "gs_redis st (rate_key ip m) = None" "length qs < 2 ^ 62"
  shows "map (\<lambda>x. rs_status (snd x) \<noteq> 429)
      (filter (\<lambda>x. counted cfg (rate_key ip m) (fst x)) (zip qs (fst (serve_all cfg ed S qs st))))
    = map (\<lambda>i. i < 10) [0..<length (filter (counted cfg (rate_key ip m)) qs)]"
proof -
  have "counts (rate_key ip m) T 0 (gs_redis st)" using assms(2) by (simp add: counts_def)
  moreover have "int 0 + int (length qs) < 2 ^ 63" using assms(3) by simp
  ultimately have "passed cfg (rate_key ip m) qs (fst (serve_all cfg ed S qs st))
      = map (\<lambda>i. i < 10) [0..<0 + length (filter (counted cfg (rate_key ip m)) qs)]"
    using passed_from [OF refl assms(1)] by blast
  then show ?thesis by (simp add: passed_def)
qed

end
