(* ===== verification/GatewayCache.thy ===== *)
theory GatewayCache imports GatewayLimits begin

text \<open>
  Repeated submissions: the answer of a submission is kept for a day under the text of its signature,
  and whatever carries that text again is answered from there.
\<close>

section \<open>Cached answers\<close>

definition cached :: "string \<Rightarrow> bytes \<Rightarrow> time \<Rightarrow> redis \<Rightarrow> bool" where
  "cached k v T db \<longleftrightarrow> (\<exists>x. db k = Some \<lparr>re_value = v, re_expiry = Some x\<rparr> \<and> T \<le> x)"

lemma cached_cong: "db' k = db k \<Longrightarrow> cached k v T db' \<longleftrightarrow> cached k v T db"
  by (simp add: cached_def)

lemma cached_GET: "cached k v T db \<Longrightarrow> now < T \<Longrightarrow> redis_GET RedisAnswered now k db = Some v"
  by (auto simp: cached_def redis_GET_def redis_live_def)

lemma cached_SET: "call \<noteq> RedisFailed \<Longrightarrow> cached k v (now + ttl) (redis_SET call now k v ttl db)"
  by (simp add: cached_def redis_SET_def)

lemma cached_SET_other: "k' \<noteq> k \<Longrightarrow> cached k' v T (redis_SET call now k w ttl db) \<longleftrightarrow> cached k' v T db"
  by (simp add: cached_def redis_SET_def)

text \<open>The request is a submission the gateway passes on.\<close>

definition submits :: "http_request \<Rightarrow> SubmitIntentHTTPRequest \<Rightarrow> bool" where
  "submits r x \<longleftrightarrow> Option.bind (rq_body r) parse_submit = Some x \<and> gw_parseIntentType (sh_Type x) \<noteq> INTENT_TYPE_UNSPECIFIED"

lemma submit_refused:
  "\<forall>x. \<not> submits r x \<Longrightarrow> snd (submitIntent cfg ed S e hs r st) = st \<and> rs_status (fst (submitIntent cfg ed S e hs r st)) = 400"
  by (auto simp: submits_def submitIntent_def writeError_def writeJSON_def Let_def split: option.splits)

definition cached_text :: "'e gw_env \<Rightarrow> redis \<Rightarrow> string \<Rightarrow> bytes" where
  "cached_text e db sig =
     (if sig = [] then [] else case redis_GET (ge_get e) (ge_redis_now e) (idem_key sig) db of None \<Rightarrow> [] | Some c \<Rightarrow> c)"

lemma submit_hit:
  assumes "submits r x" "cached_text e (gs_redis st) (sh_Signature x) = v" "v \<noteq> []"
  shows "\<exists>hs'. submitIntent cfg ed S e hs r st = (\<lparr>rs_status = 200, rs_headers = hs', rs_body = v\<rparr>, st)"
proof -
  obtain b where b: "rq_body r = Some b" "parse_submit b = Some x" "gw_parseIntentType (sh_Type x) \<noteq> INTENT_TYPE_UNSPECIFIED"
    using assms(1) by (auto simp: submits_def bind_eq_Some_conv)
  obtain ch cs where v: "v = ch # cs" using assms(3) by (cases v) auto
  then have "sh_Signature x \<noteq> [] \<and> redis_GET (ge_get e) (ge_redis_now e) (idem_key (sh_Signature x)) (gs_redis st) = Some (ch # cs)"
    using assms(2) by (auto simp: cached_text_def split: if_splits option.splits)
  then show ?thesis using b by (simp add: submitIntent_def Let_def v)
qed

lemma submit_miss:
  assumes "submits r x" "cached_text e (gs_redis st) (sh_Signature x) = []"
    and "call_rpc cfg (ge_rpc e) (ge_rpc_error e) [sh_SubmitterID x, sh_Signature x, sh_SubmitterPublicKey x]
      (SubmitIntent ed S (ge_backend e) (gs_backend st) (to_grpc (gw_parseIntentType (sh_Type x)) x)) (gs_backend st) = (res, b)"
  shows "submitIntent cfg ed S e hs r st =
    (case res of
       Inl err \<Rightarrow> (handleGRPCError hs err, st\<lparr>gs_backend := b\<rparr>)
     | Inr resp \<Rightarrow>
         (writeJSON (set_header ''X-Cache'' ''MISS'' hs) 201 (submit_json resp),
          st\<lparr>gs_backend := b,
             gs_redis := if sh_Signature x = [] then gs_redis st
               else redis_SET (ge_set e) (ge_redis_now e) (idem_key (sh_Signature x)) (jenc (submit_json resp)) day (gs_redis st)\<rparr>))"
proof -
  obtain body where body: "rq_body r = Some body" "parse_submit body = Some x" "gw_parseIntentType (sh_Type x) \<noteq> INTENT_TYPE_UNSPECIFIED"
    using assms(1) by (auto simp: submits_def bind_eq_Some_conv)
  have "(case (if sh_Signature x = [] then None
         else redis_GET (ge_get e) (ge_redis_now e) (idem_key (sh_Signature x)) (gs_redis st)) of None \<Rightarrow> [] | Some c \<Rightarrow> c) = []"
    using assms(2) by (auto simp: cached_text_def split: if_splits)
  with body assms(3) show ?thesis by (simp add: submitIntent_def Let_def split: sum.splits)
qed

lemma cached_text_cached:
  "cached (idem_key sig) v T db \<Longrightarrow> ge_get e = RedisAnswered \<Longrightarrow> ge_redis_now e < T \<Longrightarrow> sig \<noteq> [] \<Longrightarrow> cached_text e db sig = v"
  by (simp add: cached_text_def cached_GET)

lemma idem_key_inj [simp]: "idem_key s = idem_key s' \<longleftrightarrow> s = s'"
  by (simp add: idem_key_def)

lemma submit_json_nonempty: "jenc (submit_json resp) \<noteq> []"
  by (simp add: submit_json_def)

text \<open>A cached answer survives whatever is submitted while it is alive and Redis answers.\<close>

lemma submit_keeps_cached:
  assumes "cached (idem_key sig) v T (gs_redis st)" "ge_get e = RedisAnswered" "ge_redis_now e < T" "sig \<noteq> []" "v \<noteq> []"
  shows "cached (idem_key sig) v T (gs_redis (snd (submitIntent cfg ed S e hs r st)))"
proof (cases "\<exists>x. submits r x")
  case False
  then show ?thesis using submit_refused [of r cfg ed S e hs st] assms(1) by simp
next
  case True
  then obtain x where x: "submits r x" by blast
  obtain res b where rpc: "call_rpc cfg (ge_rpc e) (ge_rpc_error e) [sh_SubmitterID x, sh_Signature x, sh_SubmitterPublicKey x]
      (SubmitIntent ed S (ge_backend e) (gs_backend st) (to_grpc (gw_parseIntentType (sh_Type x)) x)) (gs_backend st) = (res, b)"
    by (metis surj_pair)
  show ?thesis
  proof (cases "cached_text e (gs_redis st) (sh_Signature x) = []")
    case False
    then show ?thesis using submit_hit [OF x refl False, of cfg ed S hs] assms(1) by auto
  next
    case True
    then have "sh_Signature x \<noteq> sig" using cached_text_cached [OF assms(1-4)] assms(5) by auto
    then show ?thesis
      unfolding submit_miss [OF x True rpc]
      using assms(1) by (auto simp: cached_SET_other split: sum.splits)
  qed
qed

lemma limit_keeps_idem: "gs_redis st' = snd (count_request e r (gs_redis st)) \<Longrightarrow> gs_redis st' (idem_key sig) = gs_redis st (idem_key sig)"
  using count_request_other [of e r "idem_key sig" "gs_redis st"] by (simp add: key_of_def idem_not_rate)

lemma limit_cases:
  obtains (Through) hs' st' where "rateLimitMiddleware e next hs r st = next hs' r st'"
      "gs_backend st' = gs_backend st" "\<And>sig. gs_redis st' (idem_key sig) = gs_redis st (idem_key sig)"
  | (Refused) "rs_status (fst (rateLimitMiddleware e next hs r st)) = 429"
      "gs_backend (snd (rateLimitMiddleware e next hs r st)) = gs_backend st"
      "\<And>sig. gs_redis (snd (rateLimitMiddleware e next hs r st)) (idem_key sig) = gs_redis st (idem_key sig)"
proof (cases "ge_limiter_off e \<or> \<not> limited r")
  case True
  then show ?thesis using Through [of hs st] by (simp add: rateLimitMiddleware_def)
next
  case False
  obtain c db where cr: "count_request e r (gs_redis st) = (c, db)" by (cases "count_request e r (gs_redis st)")
  have keep: "db (idem_key sig) = gs_redis st (idem_key sig)" for sig
    using limit_keeps_idem [of "st\<lparr>gs_redis := db\<rparr>" e r st sig] by (simp add: cr)
  consider "c = None" | n where "c = Some n" "n > 10" | n where "c = Some n" "\<not> n > 10" by (cases c) auto
  then show ?thesis
  proof cases
    case 1
    then show ?thesis using Through [of hs "st\<lparr>gs_redis := db\<rparr>"] False cr keep by (simp add: rateLimitMiddleware_def)
  next
    case 2
    then show ?thesis
      using Refused False cr keep by (simp add: rateLimitMiddleware_def Let_def writeError_def writeJSON_def)
  next
    case 3
    then show ?thesis
      using Through [of "set_header ''X-RateLimit-Remaining'' (int_dec (if 10 - n < 0 then 0 else 10 - n)) (set_header ''X-RateLimit-Limit'' ''10'' hs)"
          "st\<lparr>gs_redis := db\<rparr>"] False cr keep
      by (simp add: rateLimitMiddleware_def Let_def)
  qed
qed

lemma mux_keeps_cached:
  assumes "cached (idem_key sig) v T (gs_redis st)" "ge_get e = RedisAnswered" "ge_redis_now e < T" "sig \<noteq> []" "v \<noteq> []"
  shows "cached (idem_key sig) v T (gs_redis (snd (mux cfg ed S e hs r st)))"
  using submit_keeps_cached [OF assms] assms(1) by (simp add: mux_def handleIntents_def split: route.splits)

lemma serve_keeps_cached:
  assumes "cached (idem_key sig) v T (gs_redis st)" "ge_get e = RedisAnswered" "ge_redis_now e < T" "sig \<noteq> []" "v \<noteq> []"
  shows "cached (idem_key sig) v T (gs_redis (snd (serve_http cfg ed S e r st)))"
proof (cases "exempt (rq_path r) \<or> authorised cfg e r")
  case True
  have "cached (idem_key sig) v T (gs_redis (snd (rateLimitMiddleware e (mux cfg ed S e) [] r st)))"
  proof (cases rule: limit_cases [of e "mux cfg ed S e" "[]" r st])
    case (Through hs' st')
    then have "cached (idem_key sig) v T (gs_redis st')" using assms(1) cached_cong by metis
    then show ?thesis unfolding Through(1) by (rule mux_keeps_cached) fact+
  next
    case Refused
    then show ?thesis using assms(1) cached_cong by metis
  qed
  then show ?thesis unfolding serve_passed(2) [OF True] .
next
  case False
  then show ?thesis unfolding serve_http_def logging_passes authMiddleware_cases using assms(1) by simp
qed

lemma serve_all_keeps_cached:
  assumes "cached (idem_key sig) v T (gs_redis st)" "sig \<noteq> []" "v \<noteq> []"
    and "\<forall>q \<in> set qs. ge_get (fst q) = RedisAnswered \<and> ge_redis_now (fst q) < T"
  shows "cached (idem_key sig) v T (gs_redis (snd (serve_all cfg ed S qs st)))"
  using assms(1,4)
proof (induction qs arbitrary: st)
  case (Cons q qs)
  obtain e r where q: "q = (e, r)" by (cases q)
  have "cached (idem_key sig) v T (gs_redis (snd (serve_http cfg ed S e r st)))"
    using serve_keeps_cached [OF Cons.prems(1) _ _ assms(2,3), of e] Cons.prems(2) q by simp
  then have "cached (idem_key sig) v T (gs_redis (snd (serve_all cfg ed S qs (snd (serve_http cfg ed S e r st)))))"
    using Cons.IH Cons.prems(2) by simp
  then show ?case unfolding q serve_all_Cons .
qed simp

section \<open>One answer for a signature\<close>

lemma mux_limited: "limited r \<Longrightarrow> mux cfg ed S e hs r st = submitIntent cfg ed S e hs r st"
  by (simp add: mux_def limited_route handleIntents_def limited_def)

lemma created_is_cached:
  assumes "limited r" "submits r x" "sh_Signature x \<noteq> []" "ge_set e \<noteq> RedisFailed"
    and "serve_http cfg ed S e r st = (resp, st1)" "rs_status resp = 201"
  shows "\<exists>v. v \<noteq> [] \<and> rs_body resp = v @ [newline] \<and> cached (idem_key (sh_Signature x)) v (ge_redis_now e + day) (gs_redis st1)"
proof -
  have auth: "exempt (rq_path r) \<or> authorised cfg e r"
  proof (rule ccontr)
    assume "\<not> ?thesis"
    then have "rs_status (fst (serve_http cfg ed S e r st)) = 401"
      unfolding serve_http_def logging_passes authMiddleware_cases by (simp add: writeError_def writeJSON_def)
    then show False using assms(5,6) by simp
  qed
  note through = serve_passed(1,2) [OF auth, of ed S st, unfolded assms(5) fst_conv snd_conv]
  show ?thesis
  proof (cases rule: limit_cases [of e "mux cfg ed S e" "[]" r st])
    case Refused
    then show ?thesis using through(1) assms(6) by simp
  next
    case (Through hs' st')
    obtain res b where rpc: "call_rpc cfg (ge_rpc e) (ge_rpc_error e) [sh_SubmitterID x, sh_Signature x, sh_SubmitterPublicKey x]
        (SubmitIntent ed S (ge_backend e) (gs_backend st') (to_grpc (gw_parseIntentType (sh_Type x)) x)) (gs_backend st') = (res, b)"
      by (metis surj_pair)
    note sub = through [unfolded Through(1) mux_limited [OF assms(1)]]
    have miss: "cached_text e (gs_redis st') (sh_Signature x) = []"
      using submit_hit [OF assms(2) refl, of e st' cfg ed S hs'] sub(1) assms(6) by fastforce
    note eq = sub [unfolded submit_miss [OF assms(2) miss rpc]]
    show ?thesis
    proof (cases res)
      case (Inl err)
      then show ?thesis using eq(1) assms(6) by (simp add: handleGRPCError_def writeError_def writeJSON_def http_code_of_def Let_def split: if_splits)
    next
      case (Inr y)
      then show ?thesis
        using eq assms(3,4) submit_json_nonempty [of y]
        by (intro exI [of _ "jenc (submit_json y)"]) (simp add: writeJSON_def jencode_line_def newline_def cached_SET)
    qed
  qed
qed


section \<open>Two spellings of a signature\<close>

text \<open>A submission that is not in the cache, is passed on and is well signed, with the in-memory store\<close>

lemma serve_fresh_submission:
  assumes "limited r" "authorised cfg e r" "submits r x" "ge_rpc e = RpcAnswered"
    and "list_all valid_utf8 [sh_SubmitterID x, sh_Signature x, sh_SubmitterPublicKey x]"
    and "well_signed ed (to_grpc (gw_parseIntentType (sh_Type x)) x)"
    and "gs_redis st (idem_key (sh_Signature x)) = None" "mem_inv (gs_backend st)" "mem_fresh (ge_backend e) (gs_backend st)"
    and "serve_http cfg ed memory_store e r st = (resp, st1)" "rs_status resp \<noteq> 429"
  shows "rs_status resp = 201 \<and> mem_inv (gs_backend st1)
    \<and> (\<exists>i. mem_contents (gs_backend st1) = mem_contents (gs_backend st) @ [i] \<and> Id i = mem_id (ge_backend e)
         \<and> intent_core i = request_core (to_grpc (gw_parseIntentType (sh_Type x)) x))
    \<and> (\<forall>sig. sig \<noteq> sh_Signature x \<longrightarrow> gs_redis st1 (idem_key sig) = gs_redis st (idem_key sig))"
proof -
  let ?q = "to_grpc (gw_parseIntentType (sh_Type x)) x"
  note through = serve_passed [OF disjI2 [OF assms(2)], of ed memory_store st, unfolded assms(10) fst_conv snd_conv]
  show ?thesis
  proof (cases rule: limit_cases [of e "mux cfg ed memory_store e" "[]" r st])
    case Refused
    then show ?thesis using through(1) assms(11) by simp
  next
    case (Through hs' st')
    obtain y m' where c: "mem_Create (ge_backend e) (gs_backend st) ?q = (y, m')" by (metis surj_pair)
    from mem_Create_contents [OF assms(8,9) c]
    obtain i where i: "y = Inr i" "mem_inv m'" "mem_contents m' = mem_contents (gs_backend st) @ [i]"
      "Id i = mem_id (ge_backend e)" "intent_core i = request_core ?q" by metis
    have sub: "SubmitIntent ed memory_store (ge_backend e) (gs_backend st') ?q =
        (Inr \<lparr>sr_IntentId = Id i, sr_Status = Status i, sr_CreatedAt = CreatedAt i\<rparr>, m')"
      unfolding SubmitIntent_signed [OF assms(6)] Through(2) by (simp add: memory_store_def c i(1))
    have rpc: "call_rpc cfg (ge_rpc e) (ge_rpc_error e) [sh_SubmitterID x, sh_Signature x, sh_SubmitterPublicKey x]
        (SubmitIntent ed memory_store (ge_backend e) (gs_backend st') ?q) (gs_backend st') =
        (Inr \<lparr>sr_IntentId = Id i, sr_Status = Status i, sr_CreatedAt = CreatedAt i\<rparr>, m')"
      using assms(4,5) unfolding sub by (simp add: call_rpc_def)
    have "cached_text e (gs_redis st') (sh_Signature x) = []"
      using assms(7) Through(3) by (simp add: cached_text_def redis_GET_def redis_live_def)
    note eq = submit_miss [OF assms(3) this rpc, of hs']
    show ?thesis
      using through i(2-5) Through(3) unfolding Through(1) mux_limited [OF assms(1)] eq
      by (auto simp: writeJSON_def redis_SET_def)
  qed
qed

definition respelled :: "SubmitIntentHTTPRequest \<Rightarrow> SubmitIntentHTTPRequest" where
  "respelled x = x\<lparr>sh_Signature := map upper_char (sh_Signature x)\<rparr>"

lemma respelled_simps [simp]:
  "sh_Signature (respelled x) = map upper_char (sh_Signature x)" "sh_Type (respelled x) = sh_Type x"
  "sh_SubmitterID (respelled x) = sh_SubmitterID x" "sh_SubmitterPublicKey (respelled x) = sh_SubmitterPublicKey x" "sh_Payload (respelled x) = sh_Payload x"
  "to_grpc t (respelled x) = (to_grpc t x)\<lparr>si_Signature := map upper_char (sh_Signature x)\<rparr>"
  by (simp_all add: respelled_def to_grpc_def)

lemma well_signed_respelled:
  "well_signed ed (to_grpc t x) \<Longrightarrow> well_signed ed (to_grpc t (respelled x))"
  using Decode_upper [of "sh_Signature x"]
  by (auto simp: well_signed_def Verify_def to_grpc_def split: option.splits if_splits)

text \<open>
  The filter compares the text of signatures, not signatures.  A client that sends a signed
  submission a second time with the hexadecimal digits of its signature in upper case gets past the
  filter: both requests are answered with status 201, and the store holds two intents that agree in
  everything that was signed.
\<close>

theorem respelled_signature_enters_twice:
  assumes "limited r" "limited r2" "authorised cfg e r" "authorised cfg e2 r2" "submits r x" "submits r2 (respelled x)"
    and "ge_rpc e = RpcAnswered" "ge_rpc e2 = RpcAnswered"
    and "list_all valid_utf8 [sh_SubmitterID x, sh_Signature x, map upper_char (sh_Signature x), sh_SubmitterPublicKey x]"
    and "well_signed ed (to_grpc (gw_parseIntentType (sh_Type x)) x)" "map upper_char (sh_Signature x) \<noteq> sh_Signature x"
    and "gs_redis st (idem_key (sh_Signature x)) = None" "gs_redis st (idem_key (map upper_char (sh_Signature x))) = None"
    and "mem_inv (gs_backend st)" "mem_fresh (ge_backend e) (gs_backend st)" "mem_fresh (ge_backend e2) (gs_backend st)"
    and "mem_id (ge_backend e2) \<noteq> mem_id (ge_backend e)"
    and "serve_http cfg ed memory_store e r st = (resp, st1)" "rs_status resp \<noteq> 429"
    and "serve_http cfg ed memory_store e2 r2 st1 = (resp2, st2)" "rs_status resp2 \<noteq> 429"
  shows "rs_status resp = 201 \<and> rs_status resp2 = 201
    \<and> (\<exists>i j. mem_contents (gs_backend st2) = mem_contents (gs_backend st) @ [i, j] \<and> Id i \<noteq> Id j
         \<and> Type i = Type j \<and> SubmitterId i = SubmitterId j \<and> Payload i = Payload j)"
proof -
  have utf: "list_all valid_utf8 [sh_SubmitterID x, sh_Signature x, sh_SubmitterPublicKey x]"
    "list_all valid_utf8 [sh_SubmitterID (respelled x), sh_Signature (respelled x), sh_SubmitterPublicKey (respelled x)]"
    using assms(9) by simp_all
  obtain i where i: "rs_status resp = 201" "mem_inv (gs_backend st1)"
    "mem_contents (gs_backend st1) = mem_contents (gs_backend st) @ [i]" "Id i = mem_id (ge_backend e)"
    "intent_core i = request_core (to_grpc (gw_parseIntentType (sh_Type x)) x)"
    "gs_redis st1 (idem_key (sh_Signature (respelled x))) = None"
    using serve_fresh_submission [OF assms(1,3,5,7) utf(1) assms(10,12,14,15,18,19)] assms(11,13) by auto
  have "ordered (gs_backend st1) = ordered (gs_backend st) @ [mem_id (ge_backend e)]"
    using mem_ids [OF assms(14)] mem_ids [OF i(2)] i(3,4) by simp
  then have fresh: "mem_fresh (ge_backend e2) (gs_backend st1)" using assms(16,17) by (simp add: mem_fresh_def)
  have signed: "well_signed ed (to_grpc (gw_parseIntentType (sh_Type (respelled x))) (respelled x))"
    using well_signed_respelled [OF assms(10)] by simp
  obtain j where "rs_status resp2 = 201" "mem_contents (gs_backend st2) = mem_contents (gs_backend st1) @ [j]"
    "Id j = mem_id (ge_backend e2)"
    "intent_core j = request_core (to_grpc (gw_parseIntentType (sh_Type (respelled x))) (respelled x))"
    using serve_fresh_submission [OF assms(2,4,6,8) utf(2) signed i(6,2) fresh assms(20,21)] by auto
  then show ?thesis using i assms(17) by (auto simp: intent_core_def request_core_def to_grpc_def)
qed

end
