(* ===== verification/GatewayRuns.thy ===== *)
theory GatewayRuns imports GatewayCache HandlerProps begin

text \<open>
  Concrete clients of the gateway: sessions, submissions as the bytes a client sends, and runs that
  meet the conditions of the theorems on limits and repeated submissions.
\<close>

section \<open>Clients\<close>

text \<open>The JSON text of a submission without constraints\<close>

definition client_body :: "SubmitIntentHTTPRequest \<Rightarrow> bytes" where
  "client_body x =
     jenc (JObject [(''type'', JString (sh_Type x)), (''payload'', JString (sh_Payload x)),
       (''submitter_id'', JString (sh_SubmitterID x)), (''signature'', JString (sh_Signature x)),
       (''submitter_public_key'', JString (sh_SubmitterPublicKey x))])"

lemma parse_client_body:
  assumes "list_all valid_utf8 [sh_Type x, sh_Payload x, sh_SubmitterID x, sh_Signature x, sh_SubmitterPublicKey x]"
    and "sh_Constraints x = None"
  shows "parse_submit (client_body x) = Some x"
proof -
  have "json_parse (client_body x) =
      Some (JObject [(''type'', JString (sh_Type x)), (''payload'', JString (sh_Payload x)),
       (''submitter_id'', JString (sh_SubmitterID x)), (''signature'', JString (sh_Signature x)),
       (''submitter_public_key'', JString (sh_SubmitterPublicKey x))])"
    unfolding client_body_def by (rule json_parse_object) (use assms(1) in simp_all)
  then show ?thesis
    using assms(2) by (simp add: parse_submit_def decode_struct_def put_submit_def)
qed

text \<open>A request that carries a token made at the epoch\<close>

definition post :: "string \<Rightarrow> string \<Rightarrow> bytes \<Rightarrow> http_request" where
  "post user path body = \<lparr>rq_method = ''POST'', rq_path = path, rq_query = [],
     rq_authorization = ''Bearer '' @ generateJWT ''key'' 0 user, rq_remote = ''10.0.0.1:7'', rq_body = Some body\<rparr>"

lemma post_authorised:
  assumes "valid_utf8 user" "t \<le> day"
  shows "authorised gw_cfg (gw_up b t) (post user path body)"
proof -
  have "Unix (0 + day) = 86400" "Unix t \<le> 86400"
    using assms(2) by (simp_all add: Unix_def day_def second_def)
  then have "validateJWT ''key'' t (generateJWT ''key'' 0 user) = Inr \<lparr>Sub = user, Exp = 86400\<rparr>"
    using validate_generated [OF assms(1), of 0 "''key''" t] by simp
  then show ?thesis by (auto simp: authorised_def post_def gw_cfg_def gw_up_def)
qed

lemma post_limited [simp]: "limited (post user ''/intents'' body)"
  by (simp add: limited_def post_def)

text \<open>A transfer signed with the sample key, and its respelling\<close>

definition sample_submission :: "SubmitIntentHTTPRequest" where
  "sample_submission = \<lparr>sh_Type = ''TRANSFER'', sh_Payload = ''p'', sh_SubmitterID = ''alice'',
     sh_Signature = si_Signature (signed_request INTENT_TYPE_TRANSFER ''p''),
     sh_SubmitterPublicKey = si_SubmitterPublicKey (signed_request INTENT_TYPE_TRANSFER ''p''), sh_Constraints = None\<rparr>"

lemma sample_signed: "to_grpc (gw_parseIntentType (sh_Type sample_submission)) sample_submission = signed_request INTENT_TYPE_TRANSFER ''p''"
  by (simp add: to_grpc_def sample_submission_def signed_request_def gw_parseIntentType_def)

lemma sample_signature:
  "sh_Signature sample_submission = EncodeToString (''INTENT_TYPE_TRANSFER|alice|p'' @ replicate 4 CHR ''0'' @ sample_key)"
proof -
  have "take 32 (sample_key @ sample_key) = sample_key" by (simp add: sample_key_def)
  moreover have "take 32 (''INTENT_TYPE_TRANSFER|alice|p'' @ replicate 32 CHR ''0'') = ''INTENT_TYPE_TRANSFER|alice|p'' @ replicate 4 CHR ''0''"
    by (simp only: take_append take_replicate) simp
  moreover have "GetSignBytes (IntentType_String INTENT_TYPE_TRANSFER) ''alice'' ''p'' = ''INTENT_TYPE_TRANSFER|alice|p''"
    by (simp add: GetSignBytes_def)
  ultimately show ?thesis
    by (simp only: sample_submission_def signed_request_def toy_ed_def SubmitIntentHTTPRequest.simps
        SubmitIntentRequest.simps ed25519.simps append_assoc)
qed

lemma hex_digit_ascii: "n < 16 \<Longrightarrow> byte (hex_digit n) < 128 \<and> byte (upper_char (hex_digit n)) < 128"
  by (auto simp: hex_digit_def upper_char_def Let_def)

lemma hex_text_ascii: "ascii (EncodeToString bs)" "ascii (map upper_char (EncodeToString bs))"
proof -
  have "(of_char b :: nat) div 16 < 16" for b :: char
    by (rule less_mult_imp_div_less) (use of_char_mod_256 [where 'a = nat, of b] in simp)
  then show "ascii (EncodeToString bs)" "ascii (map upper_char (EncodeToString bs))"
    using hex_digit_ascii by (induction bs) (simp_all add: ascii_def)
qed

lemma sample_valid:
  "list_all valid_utf8 [sh_Type x, sh_Payload x, sh_SubmitterID x, sh_Signature x, map upper_char (sh_Signature x), sh_SubmitterPublicKey x]"
  if "x = sample_submission"
  unfolding that by (simp add: sample_submission_def signed_request_def hex_text_ascii ascii_valid)

lemma sample_parses:
  "submits (post user path (client_body sample_submission)) sample_submission"
  "submits (post user path (client_body (respelled sample_submission))) (respelled sample_submission)"
proof -
  have "parse_submit (client_body sample_submission) = Some sample_submission"
    by (rule parse_client_body) (use sample_valid [OF refl] in simp, simp add: sample_submission_def)
  moreover have "parse_submit (client_body (respelled sample_submission)) = Some (respelled sample_submission)"
    by (rule parse_client_body) (use sample_valid [OF refl] in simp, simp add: respelled_def sample_submission_def)
  moreover have "gw_parseIntentType (sh_Type sample_submission) = INTENT_TYPE_TRANSFER"
    by (simp add: sample_submission_def gw_parseIntentType_def)
  ultimately show "submits (post user path (client_body sample_submission)) sample_submission"
    "submits (post user path (client_body (respelled sample_submission))) (respelled sample_submission)"
    by (simp_all add: submits_def post_def)
qed

lemma sample_respelled: "map upper_char (sh_Signature sample_submission) \<noteq> sh_Signature sample_submission"
  unfolding sample_signature by (simp add: hex_digit_def upper_char_def)

definition new_state :: "MemoryStore gw_state" where
  "new_state = \<lparr>gs_redis = Map.empty, gs_backend = NewMemoryStore, gs_observed = []\<rparr>"

lemma new_state_simps [simp]:
  "gs_redis new_state = Map.empty" "gs_backend new_state = NewMemoryStore" "mem_inv NewMemoryStore"
  "mem_fresh e NewMemoryStore"
  by (simp_all add: new_state_def mem_fresh_def NewMemoryStore_def mem_inv_def)

definition at_second :: "int \<Rightarrow> mem_env gw_env" where
  "at_second t = gw_up \<lparr>mem_now = t * second, mem_id = nat_dec (nat t)\<rparr> (t * second)"

lemma at_second_simps [simp]:
  "ge_get (at_second t) = RedisAnswered" "ge_set (at_second t) = RedisAnswered" "ge_incr (at_second t) = RedisAnswered"
  "ge_rpc (at_second t) = RpcAnswered" "\<not> ge_limiter_off (at_second t)" "ge_redis_now (at_second t) = t * second"
  "ge_rate_now (at_second t) = t * second" "ge_backend (at_second t) = \<lparr>mem_now = t * second, mem_id = nat_dec (nat t)\<rparr>"
  by (simp_all add: at_second_def gw_up_def)

definition sent :: "SubmitIntentHTTPRequest \<Rightarrow> http_request" where
  "sent x = post ''admin'' ''/intents'' (client_body x)"

lemma sent_authorised: "t \<le> 86400 \<Longrightarrow> authorised gw_cfg (at_second t) (sent x)"
  unfolding at_second_def sent_def by (rule post_authorised) (simp_all add: second_def day_def ascii_valid)

lemma sent_limited [simp]: "limited (sent x)"
  by (simp add: sent_def)

lemma sent_counted: "t \<in> {1, 2} \<Longrightarrow> counted gw_cfg (rate_key ''10.0.0.1'' 0) (at_second t, sent x)"
proof -
  assume t: "t \<in> {1, 2}"
  have "SplitHost ''10.0.0.1:7'' = Some ''10.0.0.1''" by code_simp
  then have "client_ip (sent x) = ''10.0.0.1''" by (simp add: client_ip_def sent_def post_def)
  moreover have "minute_of (ge_rate_now (at_second t)) = 0" using t by (auto simp: minute_of_def Unix_def second_def)
  ultimately show ?thesis using t by (auto simp: counted_def key_of_def intro: sent_authorised)
qed

lemma ten_submissions_a_minute_witness:
  "map (\<lambda>x. rs_status (snd x) \<noteq> 429)
     (filter (\<lambda>x. counted gw_cfg (rate_key ''10.0.0.1'' 0) (fst x))
       (zip (replicate 12 (at_second 1, sent sample_submission))
         (fst (serve_all gw_cfg toy_ed memory_store (replicate 12 (at_second 1, sent sample_submission)) new_state))))
   = replicate 10 True @ [False, False]"
proof -
  let ?qs = "replicate 12 (at_second 1, sent sample_submission)"
  have len: "length (filter (counted gw_cfg (rate_key ''10.0.0.1'' 0)) ?qs) = 12" using sent_counted [of 1 sample_submission] by simp
  have up: "\<forall>q \<in> set ?qs. counted gw_cfg (rate_key ''10.0.0.1'' 0) q \<longrightarrow> redis_up (2 * second) (fst q)"
    by (simp add: redis_up_def second_def)
  have count: "map (\<lambda>i. i < 10) [0..<(12::nat)] = replicate 10 True @ [False, False]" by code_simp
  show ?thesis
    by (rule ten_submissions_a_minute [OF up, of new_state toy_ed memory_store, unfolded len count]) simp_all
qed

text \<open>Two submissions of one client within a second of each other are both passed on.\<close>

lemma two_pass:
  assumes "serve_http gw_cfg toy_ed memory_store (at_second 1) (sent x) new_state = (resp, st1)"
    and "serve_http gw_cfg toy_ed memory_store (at_second 2) (sent x2) st1 = (resp2, st2)"
  shows "rs_status resp \<noteq> 429 \<and> rs_status resp2 \<noteq> 429"
proof -
  have now: "ge_redis_now (at_second t) < 3 * second \<and> 3 * second - 60 * second \<le> ge_redis_now (at_second t)" if "t \<in> {1, 2}" for t
    using that by (auto simp: second_def)
  have "counts (rate_key ''10.0.0.1'' 0) (3 * second) 0 (gs_redis new_state)" by (simp add: counts_def)
  from serve_counted [where ed = toy_ed and S = memory_store, OF sent_counted [of 1 x] refl this] assms(1) now [of 1]
  have one: "rs_status resp \<noteq> 429" "counts (rate_key ''10.0.0.1'' 0) (3 * second) 1 (gs_redis st1)" by simp_all
  from serve_counted [where ed = toy_ed and S = memory_store, OF sent_counted [of 2 x2] refl one(2)] assms(2) now [of 2]
  show ?thesis using one(1) by simp
qed

lemma sample_sent: "submits (sent sample_submission) sample_submission" "submits (sent (respelled sample_submission)) (respelled sample_submission)"
  unfolding sent_def by (rule sample_parses)+

lemma sample_signed_ok: "well_signed toy_ed (to_grpc (gw_parseIntentType (sh_Type sample_submission)) sample_submission)"
  unfolding sample_signed by (rule well_signed_sample) simp

lemma respelled_signature_enters_twice_witness:
  "\<exists>resp st1 resp2 st2 i j. serve_http gw_cfg toy_ed memory_store (at_second 1) (sent sample_submission) new_state = (resp, st1)
     \<and> serve_http gw_cfg toy_ed memory_store (at_second 2) (sent (respelled sample_submission)) st1 = (resp2, st2)
     \<and> rs_status resp2 = 201 \<and> mem_contents (gs_backend st2) = [i, j]"
proof -
  obtain resp st1 where s1: "serve_http gw_cfg toy_ed memory_store (at_second 1) (sent sample_submission) new_state = (resp, st1)"
    by (metis surj_pair)
  obtain resp2 st2 where s2: "serve_http gw_cfg toy_ed memory_store (at_second 2) (sent (respelled sample_submission)) st1 = (resp2, st2)"
    by (metis surj_pair)
  note passed = two_pass [OF s1 s2]
  have new: "mem_contents NewMemoryStore = []" by (simp add: mem_contents_def NewMemoryStore_def)
  have ids: "nat_dec (nat 2) \<noteq> nat_dec (nat 1)" by simp
  from respelled_signature_enters_twice [OF sent_limited sent_limited sent_authorised sent_authorised sample_sent
      at_second_simps(4) at_second_simps(4) _ sample_signed_ok sample_respelled _ _ _ _ _ _ s1 _ s2]
  show ?thesis using s1 s2 passed sample_valid [OF refl] new ids by auto
qed


end
