(* ===== verification/GatewayLedger.thy ===== *)
theory GatewayLedger imports GatewayRuns LedgerTorn begin

text \<open>
  The ledger page of the gateway over the file the validator writes: the blocks, newest first, each as
  the line the engine appended; and the empty page when one line is torn.
\<close>

section \<open>The reversal in place\<close>

lemma swap_ends:
  assumes "n = length a" "k = length a + length m + 1"
  shows "(a @ x # m @ y # b)[n := (a @ x # m @ y # b) ! k, k := (a @ x # m @ y # b) ! n] = a @ y # m @ x # b"
  unfolding assms by (simp add: nth_append list_update_append)

lemma reverse_loop_middle:
  "reverse_loop (int (length a)) (int (length a + length m) - 1) (a @ m @ b) = a @ rev m @ b"
proof (induction m arbitrary: a b rule: length_induct)
  case (1 m)
  consider "m = []" | x where "m = [x]" | x m' y where "m = x # m' @ [y]"
    by (cases m; cases "tl m" rule: rev_cases) auto
  then show ?case
  proof cases
    case (3 x m' y)
    have idx: "nat (int (length a)) = length a" "nat (int (length a + length m) - 1) = length a + length m' + 1"
      using 3 by simp_all
    have "reverse_loop (int (length a)) (int (length a + length m) - 1) (a @ m @ b) =
        reverse_loop (int (length a) + 1) (int (length a + length m) - 1 - 1) ((a @ [y]) @ m' @ (x # b))"
      by (subst reverse_loop.simps, unfold idx) (use swap_ends [of "length a" a "length a + length m' + 1" m' x y b] 3 in simp)
    also have "int (length a) + 1 = int (length (a @ [y]))" by simp
    also have "int (length a + length m) - 1 - 1 = int (length (a @ [y]) + length m') - 1" using 3 by simp
    also have "reverse_loop (int (length (a @ [y]))) \<dots> ((a @ [y]) @ m' @ (x # b)) = (a @ [y]) @ rev m' @ (x # b)"
      by (rule 1 [rule_format]) (simp add: 3)
    finally show ?thesis using 3 by simp
  qed (simp_all add: reverse_loop.simps)
qed

lemma reverse_loop_rev: "reverse_loop 0 (int (length xs) - 1) xs = rev xs"
  using reverse_loop_middle [of "[]" xs "[]"] by simp

section \<open>Blocks as raw messages\<close>

lemma compact_plain:
  "plain s \<Longrightarrow> compact_text True False (s @ dquote # r) = s @ dquote # compact_text False False r"
proof (induction s)
  case (Cons c s)
  then show ?case by (simp add: plain_char_def Let_def)
qed (simp add: Let_def)

lemma compact_token:
  assumes "\<forall>c \<in> set s. is_digit c \<or> c \<in> {CHR ''{'', CHR ''}'', CHR '','', CHR '':''}"
  shows "compact_text False False (s @ r) = s @ compact_text False False r"
  using assms
proof (induction s)
  case (Cons c s)
  then have "is_digit c \<or> c \<in> {CHR ''{'', CHR ''}'', CHR '','', CHR '':''}" by simp
  then have "byte c \<notin> {34, 60, 62, 38, 226, 92}" "\<not> is_space c" by (auto simp: is_digit_def is_space_def)
  with Cons show ?case by (simp add: Let_def)
qed simp

lemma compact_value:
  assumes "plain_value v"
  shows "compact_text False False (jenc v @ r) = jenc v @ compact_text False False r"
proof (cases v)
  case (JNumber l)
  then obtain n where "l = nat_dec n" using assms by auto
  then show ?thesis using JNumber nat_dec_digits by (simp add: compact_token)
next
  case (JString s)
  then have "compact_text True False (s @ dquote # r) = s @ dquote # compact_text False False r"
    using assms by (simp add: compact_plain)
  then show ?thesis using assms JString by (simp add: quote_def quote_plain Let_def)
qed (use assms in simp_all)

lemma compact_member:
  assumes "plain k" "plain_value v"
  shows "compact_text False False (member (k, v) @ r) = member (k, v) @ compact_text False False r"
proof -
  have "compact_text True False (k @ dquote # CHR '':'' # jenc v @ r) = k @ dquote # CHR '':'' # jenc v @ compact_text False False r"
    using compact_plain [OF assms(1), of "CHR '':'' # jenc v @ r"] compact_token [of "'':''" "jenc v @ r"] compact_value [OF assms(2)]
    by simp
  then show ?thesis by (simp add: member_plain [OF assms(1)] Let_def)
qed

lemma compact_members:
  assumes "\<forall>(k, v) \<in> set kvs. plain k \<and> plain_value v"
  shows "compact_text False False (separated (map member kvs) @ r) = separated (map member kvs) @ compact_text False False r"
  using assms
proof (induction kvs rule: induct_list012)
  case (3 kv kv' kvs)
  obtain k v where kv: "kv = (k, v)" "plain k" "plain_value v" using "3.prems" by (cases kv) auto
  have "separated (map member (kv # kv' # kvs)) = member kv @ '','' @ separated (map member (kv' # kvs))" by simp
  moreover have "compact_text False False ('','' @ s) = '','' @ compact_text False False s" for s
    by (rule compact_token) simp
  ultimately show ?case
    using compact_member [OF kv(2,3)] "3.IH"(2) "3.prems" unfolding kv(1) by simp
qed (auto simp: compact_member)

lemma raw_block:
  assumes "plain_block b"
  shows "raw_message (block_json b) = Some (block_json b)"
proof -
  have "compact_text False False (''{'' @ separated (map member (block_members b)) @ ''}'' @ []) = ''{'' @ separated (map member (block_members b)) @ ''}''"
    using compact_token [of "''{''"] compact_token [of "''}''" "[]"] compact_members [OF plain_members [OF assms]] by simp
  then have "compact_text False False (block_json b) = block_json b" unfolding block_json_def jenc_object by simp
  moreover have "\<forall>(k, v) \<in> set (block_members b). valid_utf8 k \<and> flat v"
    using plain_members [OF assms] plain_flat by (fastforce intro: ascii_valid plain_ascii)
  then have "json_parse (block_json b) = Some (JObject (block_members b))"
    unfolding block_json_def by (rule json_parse_object [rotated]) (simp add: block_members_def)
  ultimately show ?thesis by (simp add: raw_message_def)
qed

section \<open>The page\<close>

definition ledger_page :: "Block list \<Rightarrow> bytes" where
  "ledger_page bs = (if bs = [] then ''[]'' else ''['' @ separated (map block_json (rev bs)) @ '']'' @ [newline])"

lemma scan_ledger_text:
  assumes "\<forall>b \<in> set bs. fits b"
  shows "scan_lines (ledger_text bs @ s) = map_prod ((@) (map block_json bs)) id (scan_lines s)"
  using assms
proof (induction bs)
  case (Cons b bs)
  then have b: "text_block b" "length (block_json b) < max_token" by (simp_all add: fits_def)
  note shape = block_json_shape [OF b(1)]
  have "scan_lines (ledger_text (b # bs) @ s) = map_prod ((#) (block_json b)) id (scan_lines (ledger_text bs @ s))"
    using scan_line [OF shape(1) b(2), of "ledger_text bs @ s"] shape(2) by (simp add: ledger_text_def block_line_def)
  then show ?case using Cons by (cases "scan_lines s") simp
next
  case Nil
  then show ?case by (cases "scan_lines s") (simp add: ledger_text_def)
qed

lemma those_map_Some: "\<forall>x \<in> set xs. f x = Some (g x) \<Longrightarrow> those (map f xs) = Some (map g xs)"
  by (induction xs) simp_all

lemma those_None: "x \<in> set xs \<Longrightarrow> f x = None \<Longrightarrow> those (map f xs) = None"
  by (induction xs) (auto split: option.splits)

text \<open>A request for the page that gets as far as the handler\<close>

definition views_ledger :: "gw_config \<Rightarrow> 'e gw_env \<Rightarrow> http_request \<Rightarrow> bool" where
  "views_ledger cfg e r \<longleftrightarrow> rq_method r = ''GET'' \<and> rq_path r = ''/api/ledger'' \<and> authorised cfg e r
     \<and> \<not> le_open_fails (ge_ledger_env e) \<and> le_read_fails (ge_ledger_env e) = None"

lemma clean_ledger: "clean_path ''/api/ledger'' = ''/api/ledger''"
  by code_simp

lemma serve_ledger:
  assumes "views_ledger cfg e r" "ge_ledger e = Some d" "scan_lines d = (ls, False)"
  shows "\<exists>hs. fst (serve_http cfg ed S e r st) =
    (if nonempty ls = [] then \<lparr>rs_status = 200, rs_headers = hs, rs_body = ''[]''\<rparr>
     else \<lparr>rs_status = 200, rs_headers = hs, rs_body = encode_raw (rev (nonempty ls))\<rparr>)"
proof -
  have r: "rq_method r = ''GET''" "rq_path r = ''/api/ledger''" "exempt (rq_path r) \<or> authorised cfg e r"
    using assms(1) by (simp_all add: views_ledger_def)
  have "fst (serve_http cfg ed S e r st) = handleAPILedger cfg e [] r"
    unfolding serve_passed(1) [OF r(3)]
    by (simp add: rateLimitMiddleware_def limited_def r(1) mux_def route_of_def r(2) clean_ledger)
  moreover have "filter (\<lambda>l. l \<noteq> []) ls = nonempty ls" by (simp add: nonempty_def)
  ultimately show ?thesis
    using assms by (auto simp: handleAPILedger_def views_ledger_def scan_file_def Let_def reverse_loop_rev)
qed

lemma nonempty_blocks: "\<forall>b \<in> set bs. fits b \<Longrightarrow> nonempty (map block_json bs @ ls) = map block_json bs @ nonempty ls"
  by (induction bs) (auto simp: nonempty_def fits_def dest: block_json_shape(3))

text \<open>
  C28. The page shows the ledger.  For a file of blocks as the engine writes them, the page is the JSON
  array of exactly these blocks, newest first, each as the engine wrote it; for a file without blocks
  it is the empty array.
\<close>

theorem ledger_page_newest_first:
  assumes "views_ledger cfg e r" "ge_ledger e = Some (ledger_text bs)"
    and "\<forall>b \<in> set bs. plain_block b \<and> length (block_json b) < max_token"
  shows "rs_status (fst (serve_http cfg ed S e r st)) = 200 \<and> rs_body (fst (serve_http cfg ed S e r st)) = ledger_page bs"
proof -
  have fits: "\<forall>b \<in> set bs. fits b" using assms(3) plain_text by (simp add: fits_def)
  have "scan_lines (ledger_text bs) = (map block_json bs, False)" using scan_ledger_text [OF fits, of "[]"] by simp
  moreover have "nonempty (map block_json bs) = map block_json bs" using nonempty_blocks [OF fits, of "[]"] by (simp add: nonempty_def)
  moreover have "those (map raw_message (map block_json (rev bs))) = Some (map block_json (rev bs))"
    using those_map_Some [of "map block_json (rev bs)" raw_message id] assms(3) by (simp add: raw_block)
  then have "encode_raw (rev (map block_json bs)) = ''['' @ separated (map block_json (rev bs)) @ '']'' @ [newline]"
    by (simp add: encode_raw_def rev_map newline_def)
  ultimately show ?thesis
    using serve_ledger [OF assms(1,2), of "map block_json bs" ed S st] by (auto simp: ledger_page_def)
qed

text \<open>
  One torn line empties the page.  When the last write to the ledger was cut short, wherever in
  the block, the page is answered with status 200 and an empty body, which is not JSON: the encoder
  refuses the line after the status has been sent, and none of the other blocks is shown.
\<close>

theorem torn_line_empties_page:
  assumes "views_ledger cfg e r" "ge_ledger e = Some (ledger_text bs @ torn)"
    and "\<forall>b \<in> set bs. fits b" "plain_block b" "length (block_json b) < max_token"
    and "torn @ rest = block_json b" "torn \<noteq> []" "rest \<noteq> []"
  shows "rs_status (fst (serve_http cfg ed S e r st)) = 200 \<and> rs_body (fst (serve_http cfg ed S e r st)) = []"
proof -
  note shape = block_json_shape [OF plain_text [OF assms(4)]]
  have torn: "newline \<notin> set torn" "length torn < max_token" using shape(1) assms(5) unfolding assms(6) [symmetric] by simp_all
  have "dropCR torn = torn"
  proof -
    have "32 \<le> byte c" if "c \<in> set (block_json b)" for c
      using that plain_members [OF assms(4)] plain_flat object_printable unfolding block_json_def by blast
    moreover have "last torn \<in> set (block_json b)" unfolding assms(6) [symmetric] using assms(7) by simp
    ultimately have "32 \<le> byte (last torn)" by blast
    then show ?thesis by (auto simp: dropCR_def)
  qed
  then have "scan_lines torn = ([torn], False)" using scan_last_line [OF torn assms(7)] by simp
  then have scan: "scan_lines (ledger_text bs @ torn) = (map block_json bs @ [torn], False)"
    using scan_ledger_text [OF assms(3), of torn] by simp
  have ne: "nonempty (map block_json bs @ [torn]) = map block_json bs @ [torn]"
    unfolding nonempty_blocks [OF assms(3)] using assms(7) by (simp add: nonempty_def)
  have "raw_message torn = None"
    using json_parse_torn [OF assms(4,6,7,8), of "[]"] by (simp add: raw_message_def after_cut_def)
  then have "encode_raw (rev (map block_json bs @ [torn])) = []"
    using those_None [of torn "rev (map block_json bs @ [torn])" raw_message] by (simp add: encode_raw_def)
  then show ?thesis using serve_ledger [OF assms(1,2) scan, of ed S st] unfolding ne by auto
qed

section \<open>Instances\<close>

definition viewer :: "http_request" where
  "viewer = (get_request ''/api/ledger'')\<lparr>rq_authorization := ''Bearer '' @ generateJWT ''key'' 0 ''admin''\<rparr>"

definition with_ledger :: "bytes \<Rightarrow> mem_env gw_env" where
  "with_ledger d = (at_second 1)\<lparr>ge_ledger := Some d\<rparr>"

lemma viewer_views: "views_ledger gw_cfg (with_ledger d) viewer" "ge_ledger (with_ledger d) = Some d"
proof -
  have "authorised gw_cfg (with_ledger d) viewer"
    using sent_authorised [of 1 sample_submission]
    by (simp add: authorised_def with_ledger_def viewer_def sent_def post_def)
  then show "views_ledger gw_cfg (with_ledger d) viewer" "ge_ledger (with_ledger d) = Some d"
    by (simp_all add: views_ledger_def viewer_def with_ledger_def get_request_def at_second_def gw_up_def)
qed

lemma ledger_page_newest_first_witness:
  "rs_body (fst (serve_http gw_cfg toy_ed memory_store (with_ledger (ledger_text [first_block, first_block\<lparr>BType := ''U''\<rparr>])) viewer new_state))
   = ''['' @ block_json (first_block\<lparr>BType := ''U''\<rparr>) @ '','' @ block_json first_block @ '']'' @ [newline]"
proof -
  have "first_block\<lparr>BType := ''U''\<rparr> = first_block\<lparr>IntentID := ''i'', BType := ''U''\<rparr>" using first_block_fields(2) by simp
  then have size: "length (block_json (first_block\<lparr>BType := ''U''\<rparr>)) < max_token"
    using first_block_size [of "''i''" "''U''"] by (simp add: plain_char_def)
  have "plain_block (first_block\<lparr>BType := ''U''\<rparr>)" using plain_first by (simp add: plain_block_def plain_char_def)
  then have "\<forall>b \<in> set [first_block, first_block\<lparr>BType := ''U''\<rparr>]. plain_block b \<and> length (block_json b) < max_token"
    using plain_first first_block_line(1) size by simp
  from ledger_page_newest_first [where ed = toy_ed and S = memory_store and st = new_state, OF viewer_views this] show ?thesis by (simp add: ledger_page_def)
qed

lemma torn_line_empties_page_witness:
  "rs_body (fst (serve_http gw_cfg toy_ed memory_store (with_ledger (ledger_text [first_block] @ ''{'')) viewer new_state)) = []"
proof -
  obtain u where u: "''{'' @ dquote # CHR ''i'' # u = block_json first_block" using block_json_head by (metis append_Cons append_Nil)
  have "\<forall>b \<in> set [first_block]. fits b" using first_block_line(2) by simp
  from torn_line_empties_page [where ed = toy_ed and S = memory_store and st = new_state, OF viewer_views this plain_first first_block_line(1) u] show ?thesis by simp
qed

end
