(* ===== verification/WalletLocks.thy ===== *)
theory WalletLocks imports WalletStore begin

text \<open>
  Calls of the wallet store that run at the same time.  The transactions of \<open>wallet/store/postgres.go\<close>
  are interleaved statement by statement under the rules the program relies on: a transaction sees what
  is committed and its own writes; an insertion waits for a transaction that has inserted the same key
  and not ended, \<open>FOR UPDATE\<close> waits for one that has locked the same row, and the insertion of the log
  row waits for one with the same reference or primary key.  A transaction that ends releases what it
  holds; one that is aborted leaves nothing.
\<close>

section \<open>Calls and transactions\<close>

datatype wallet_call =
    CallCredit string float64 string
  | CallDebit string float64 string
  | CallTransfer string string float64 string

fun call_ref :: "wallet_call \<Rightarrow> string" where
  "call_ref (CallCredit acct amount ref) = ref"
| "call_ref (CallDebit acct amount ref) = ref"
| "call_ref (CallTransfer from to amount ref) = ref"

text \<open>What a call does alone: theory \<open>WalletStore\<close>\<close>

fun call_body :: "wenv \<Rightarrow> wallet_db \<Rightarrow> wallet_call \<Rightarrow> werror + wallet_db" where
  "call_body env db (CallCredit acct amount ref) = map_sum id snd (credit_body env db acct amount ref)"
| "call_body env db (CallDebit acct amount ref) = map_sum id snd (debit_body env db acct amount ref)"
| "call_body env db (CallTransfer from to amount ref) = map_sum id snd (transfer_body env db from to amount ref)"

text \<open>The account the call inserts when it is missing, and the rows it locks, in order\<close>

fun ensured :: "wallet_call \<Rightarrow> string option" where
  "ensured (CallCredit acct amount ref) = Some acct"
| "ensured (CallDebit acct amount ref) = None"
| "ensured (CallTransfer from to amount ref) = Some to"

fun locks :: "wallet_call \<Rightarrow> string list" where
  "locks (CallCredit acct amount ref) = [acct]"
| "locks (CallDebit acct amount ref) = [acct]"
| "locks (CallTransfer from to amount ref) = (case lock_order from to of (first, second) \<Rightarrow> [first, second])"

fun same_account :: "wallet_call \<Rightarrow> bool" where
  "same_account (CallTransfer from to amount ref) \<longleftrightarrow> from = to"
| "same_account _ \<longleftrightarrow> False"

text \<open>The computation between the locks and the updates: the balances to be written, or the refusal\<close>

fun new_balances :: "wallet_call \<Rightarrow> (string \<Rightarrow> float64) \<Rightarrow> werror + (string \<times> float64) list" where
  "new_balances (CallCredit acct amount ref) bal = Inr [(acct, f64_add (bal acct) amount)]"
| "new_balances (CallDebit acct amount ref) bal =
     (if f64_lt (bal acct) amount then Inl (InsufficientFunds (bal acct) amount)
      else Inr [(acct, f64_sub (bal acct) amount)])"
| "new_balances (CallTransfer from to amount ref) bal =
     (if f64_lt (bal from) amount then Inl (InsufficientFunds (bal from) amount)
      else Inr [(from, f64_sub (bal from) amount), (to, f64_add (bal to) amount)])"

fun log_insert :: "wenv \<Rightarrow> wallet_db \<Rightarrow> wallet_call \<Rightarrow> wallet_db option" where
  "log_insert env db (CallCredit acct amount ref) = insert_log env db None (Some acct) amount ref"
| "log_insert env db (CallDebit acct amount ref) = insert_log env db (Some acct) None amount ref"
| "log_insert env db (CallTransfer from to amount ref) = insert_log env db (Some from) (Some to) amount ref"

text \<open>The rows the updates write, over the rows they find; an update of a missing row writes nothing.\<close>

fun updated_rows :: "wenv \<Rightarrow> (string \<Rightarrow> account option) \<Rightarrow> (string \<times> float64) list \<Rightarrow> (string \<rightharpoonup> account) option" where
  "updated_rows env get [] = Some Map.empty"
| "updated_rows env get ((a, v) # ws) =
     (case numeric_write (wwire env) v of
        None \<Rightarrow> None
      | Some n \<Rightarrow>
          map_option (\<lambda>m. m(a := map_option (\<lambda>r. r\<lparr>balance := n, updated_at := wnow env\<rparr>) (get a)))
            (updated_rows env get ws))"

text \<open>
  A transaction between two statements: the next statement, the rows it has written and inserted, the
  rows it has locked, the balances it has read and the log row it has inserted.  \<open>Ended True\<close> is
  committed.
\<close>

datatype stage = AtCheck | AtEnsure | AtLock "string list" | AtUpdate | AtLog | AtCommit | Ended bool

record trans =
  tr_call :: wallet_call
  tr_env :: wenv
  tr_stage :: stage
  tr_rows :: "string \<rightharpoonup> account"
  tr_new :: "string set"
  tr_held :: "string set"
  tr_read :: "string \<Rightarrow> float64"
  tr_log :: "wtx list"

definition view :: "wallet_db \<Rightarrow> trans \<Rightarrow> wallet_db" where
  "view db t = \<lparr>accounts = accounts db ++ tr_rows t, transactions = transactions db @ tr_log t\<rparr>"

definition begun :: "wenv \<Rightarrow> wallet_call \<Rightarrow> trans" where
  "begun env c = \<lparr>tr_call = c, tr_env = env, tr_stage = AtCheck, tr_rows = Map.empty, tr_new = {}, tr_held = {},
     tr_read = (\<lambda>_. Fin 0), tr_log = []\<rparr>"

definition ended :: "bool \<Rightarrow> trans \<Rightarrow> trans" where
  "ended ok t = t\<lparr>tr_stage := Ended ok, tr_rows := Map.empty, tr_new := {}, tr_held := {}, tr_log := []\<rparr>"

section \<open>The next statement\<close>

datatype stmt_result = Blocks | Aborts werror | Moves trans | Commits

definition next_stmt :: "wallet_db \<Rightarrow> trans list \<Rightarrow> trans \<Rightarrow> stmt_result" where
  "next_stmt db others t =
     (let c = tr_call t; env = tr_env t
      in case tr_stage t of
        AtCheck \<Rightarrow>
          if same_account c then Aborts SameAccount
          else if ref_exists db (call_ref c) then Aborts (AlreadyProcessed (call_ref c))
          else Moves (t\<lparr>tr_stage := AtEnsure\<rparr>)
      | AtEnsure \<Rightarrow>
          (case ensured c of
             None \<Rightarrow> Moves (t\<lparr>tr_stage := AtLock (locks c)\<rparr>)
           | Some a \<Rightarrow>
               if accounts db a \<noteq> None then Moves (t\<lparr>tr_stage := AtLock (locks c)\<rparr>)
               else if \<exists>u \<in> set others. a \<in> tr_new u then Blocks
               else Moves (t\<lparr>tr_stage := AtLock (locks c), tr_new := {a},
                      tr_rows := [a \<mapsto> \<lparr>balance = Num 0, created_at = wnow env, updated_at = wnow env\<rparr>]\<rparr>))
      | AtLock [] \<Rightarrow> Moves (t\<lparr>tr_stage := AtUpdate\<rparr>)
      | AtLock (a # as) \<Rightarrow>
          (case lock_balance (view db t) a of
             None \<Rightarrow> Aborts (AccountNotFound a)
           | Some v \<Rightarrow>
               if \<exists>u \<in> set others. a \<in> tr_held u then Blocks
               else Moves (t\<lparr>tr_stage := AtLock as, tr_held := insert a (tr_held t), tr_read := (tr_read t)(a := v)\<rparr>))
      | AtUpdate \<Rightarrow>
          (case new_balances c (tr_read t) of
             Inl x \<Rightarrow> Aborts x
           | Inr ws \<Rightarrow>
               (case updated_rows env (accounts (view db t)) ws of
                  None \<Rightarrow> Aborts DbError
                | Some m \<Rightarrow> Moves (t\<lparr>tr_stage := AtLog, tr_rows := tr_rows t ++ m\<rparr>)))
      | AtLog \<Rightarrow>
          if ref_exists db (call_ref c) \<or> list_ex (\<lambda>x. wtx_id x = wuuid env) (transactions db) then Aborts DbError
          else if \<exists>u \<in> set others. \<exists>x \<in> set (tr_log u). reference_id x = call_ref c \<or> wtx_id x = wuuid env then Blocks
          else (case log_insert env (view db t) c of
                  None \<Rightarrow> Aborts DbError
                | Some db' \<Rightarrow> Moves (t\<lparr>tr_stage := AtCommit, tr_log := drop (length (transactions db)) (transactions db')\<rparr>))
      | AtCommit \<Rightarrow> Commits
      | Ended ok \<Rightarrow> Blocks)"

section \<open>Interleavings\<close>

type_synonym wallet_system = "wallet_db \<times> trans list"

definition others :: "trans list \<Rightarrow> nat \<Rightarrow> trans list" where
  "others ts i = map ((!) ts) (filter (\<lambda>j. j \<noteq> i) [0..<length ts])"

text \<open>A step: the next statement of one transaction, or its abortion by a failure, at any time.\<close>

inductive wallet_step :: "wallet_system \<Rightarrow> wallet_system \<Rightarrow> bool" where
  moves: "i < length ts \<Longrightarrow> next_stmt db (others ts i) (ts ! i) = Moves t \<Longrightarrow> wallet_step (db, ts) (db, ts[i := t])"
| aborts: "i < length ts \<Longrightarrow> next_stmt db (others ts i) (ts ! i) = Aborts x \<Longrightarrow>
     wallet_step (db, ts) (db, ts[i := ended False (ts ! i)])"
| commits: "i < length ts \<Longrightarrow> next_stmt db (others ts i) (ts ! i) = Commits \<Longrightarrow>
     wallet_step (db, ts) (view db (ts ! i), ts[i := ended True (ts ! i)])"
| fails: "i < length ts \<Longrightarrow> \<forall>ok. tr_stage (ts ! i) \<noteq> Ended ok \<Longrightarrow> wallet_step (db, ts) (db, ts[i := ended False (ts ! i)])"

inductive_cases wallet_stepE: "wallet_step (db, ts) s"

text \<open>The next statement of some transaction: a step that is not a failure\<close>

definition can_move :: "wallet_system \<Rightarrow> bool" where
  "can_move s \<longleftrightarrow> (\<exists>i < length (snd s). next_stmt (fst s) (others (snd s) i) (snd s ! i) \<noteq> Blocks)"

end
