(* ===== verification/WalletLocksProps.thy ===== *)
theory WalletLocksProps imports WalletLocks begin

text \<open>
  What the interleavings of theory \<open>WalletLocks\<close> promise: what they commit is what the same calls do
  one after the other, and they never deadlock.
\<close>

section \<open>The log row\<close>

fun log_row :: "wenv \<Rightarrow> wallet_call \<Rightarrow> wtx option" where
  "log_row env (CallCredit acct amount ref) =
     map_option (\<lambda>n. \<lparr>wtx_id = wuuid env, from_account = None, to_account = Some acct, wtx_amount = n,
        reference_id = ref, wtx_created_at = wnow env\<rparr>) (numeric_write (wwire env) amount)"
| "log_row env (CallDebit acct amount ref) =
     map_option (\<lambda>n. \<lparr>wtx_id = wuuid env, from_account = Some acct, to_account = None, wtx_amount = n,
        reference_id = ref, wtx_created_at = wnow env\<rparr>) (numeric_write (wwire env) amount)"
| "log_row env (CallTransfer from to amount ref) =
     map_option (\<lambda>n. \<lparr>wtx_id = wuuid env, from_account = Some from, to_account = Some to, wtx_amount = n,
        reference_id = ref, wtx_created_at = wnow env\<rparr>) (numeric_write (wwire env) amount)"

definition unlogged :: "wallet_db \<Rightarrow> wenv \<Rightarrow> wallet_call \<Rightarrow> bool" where
  "unlogged db env c \<longleftrightarrow> \<not> ref_exists db (call_ref c) \<and> \<not> list_ex (\<lambda>x. wtx_id x = wuuid env) (transactions db)"

lemma log_insert_row:
  "log_insert env db c =
     (if unlogged db env c then map_option (\<lambda>x. db\<lparr>transactions := transactions db @ [x]\<rparr>) (log_row env c) else None)"
  by (cases c) (auto simp: insert_log_def unlogged_def split: option.splits)

lemma log_row_fields: "log_row env c = Some x \<Longrightarrow> reference_id x = call_ref c \<and> wtx_id x = wuuid env"
  by (cases c) auto

section \<open>A transaction alone\<close>

definition fresh_row :: "wenv \<Rightarrow> account" where
  "fresh_row env = \<lparr>balance = Num 0, created_at = wnow env, updated_at = wnow env\<rparr>"

definition base_rows :: "trans \<Rightarrow> (string \<rightharpoonup> account)" where
  "base_rows t = (\<lambda>a. if a \<in> tr_new t then Some (fresh_row (tr_env t)) else None)"

text \<open>What the transaction sees before its updates\<close>

definition base :: "wallet_db \<Rightarrow> trans \<Rightarrow> wallet_db" where
  "base db t = db\<lparr>accounts := accounts db ++ base_rows t\<rparr>"

definition reliable :: "wenv \<Rightarrow> bool" where
  "reliable env \<longleftrightarrow> (\<forall>x. \<not> wfails env x)"

definition idle :: "trans \<Rightarrow> bool" where
  "idle t \<longleftrightarrow> tr_rows t = Map.empty \<and> tr_new t = {} \<and> tr_held t = {} \<and> tr_log t = []"

text \<open>The account to be ensured exists, and nothing else was inserted; locked rows were read.\<close>

definition secured :: "wallet_db \<Rightarrow> trans \<Rightarrow> bool" where
  "secured db t \<longleftrightarrow> \<not> same_account (tr_call t) \<and> tr_new t \<subseteq> set_option (ensured (tr_call t))
     \<and> set_option (ensured (tr_call t)) \<subseteq> dom (accounts db) \<union> tr_new t
     \<and> (\<forall>a \<in> tr_held t. lock_balance (base db t) a = Some (tr_read t a))"

definition prepared :: "wallet_db \<Rightarrow> trans \<Rightarrow> string list \<Rightarrow> bool" where
  "prepared db t as \<longleftrightarrow> secured db t \<and> tr_rows t = base_rows t \<and> tr_log t = []
     \<and> (\<exists>taken. locks (tr_call t) = taken @ as \<and> tr_held t = set taken)"

definition computed :: "wallet_db \<Rightarrow> trans \<Rightarrow> bool" where
  "computed db t \<longleftrightarrow> secured db t \<and> tr_held t = set (locks (tr_call t))
     \<and> (\<exists>ws m. new_balances (tr_call t) (tr_read t) = Inr ws
          \<and> updated_rows (tr_env t) (accounts (base db t)) ws = Some m \<and> tr_rows t = base_rows t ++ m)"

definition stage_ok :: "wallet_db \<Rightarrow> trans \<Rightarrow> bool" where
  "stage_ok db t \<longleftrightarrow> reliable (tr_env t) \<and>
     (case tr_stage t of
        AtCheck \<Rightarrow> idle t
      | AtEnsure \<Rightarrow> idle t \<and> \<not> same_account (tr_call t)
      | AtLock as \<Rightarrow> prepared db t as
      | AtUpdate \<Rightarrow> prepared db t []
      | AtLog \<Rightarrow> computed db t \<and> tr_log t = []
      | AtCommit \<Rightarrow> computed db t \<and> (\<exists>x. log_row (tr_env t) (tr_call t) = Some x \<and> tr_log t = [x])
      | Ended ok \<Rightarrow> idle t)"

lemma base_simps:
  "accounts (base db t) = accounts db ++ base_rows t" "transactions (base db t) = transactions db"
  by (simp_all add: base_def)

lemma base_ensured:
  assumes "secured db t" "tr_new t \<inter> dom (accounts db) = {}"
  shows "base db t = (case ensured (tr_call t) of None \<Rightarrow> db | Some a \<Rightarrow> ensure_account (tr_env t) db a)"
proof (cases "ensured (tr_call t)")
  case None
  then have "base_rows t = Map.empty" using assms by (auto simp: secured_def base_rows_def)
  with None show ?thesis by (simp add: base_def)
next
  case (Some a)
  show ?thesis
  proof (cases "accounts db a")
    case None
    then have "base_rows t = [a \<mapsto> fresh_row (tr_env t)]"
      using assms Some by (auto simp: secured_def base_rows_def fun_eq_iff)
    with None Some show ?thesis by (simp add: base_def ensure_account_def fresh_row_def)
  next
    case (Some r)
    then have "tr_new t = {}" using assms \<open>ensured (tr_call t) = Some a\<close> by (auto simp: secured_def)
    then have "base_rows t = Map.empty" by (simp add: base_rows_def)
    with Some show ?thesis by (simp add: base_def ensure_account_def \<open>ensured (tr_call t) = Some a\<close>)
  qed
qed

lemma lock_order_less: "x \<noteq> y \<Longrightarrow> fst (lock_order x y) < snd (lock_order x y)"
  unfolding lock_order_def by (rule linorder_cases [of x y]) (simp_all add: not_less_iff_gr_or_eq)

lemma locks_set:
  shows "\<not> same_account c \<Longrightarrow> sorted_wrt (<) (locks c)" and "same_account c \<or> distinct (locks c)"
proof -
  show s: "\<not> same_account c \<Longrightarrow> sorted_wrt (<) (locks c)"
    using lock_order_less by (cases c) (simp_all add: split_beta)
  show "same_account c \<or> distinct (locks c)"
    using s strict_sorted_iff by blast
qed

lemma commit_is_call:
  assumes "computed db t" "reliable (tr_env t)" "log_row (tr_env t) (tr_call t) = Some x" "tr_log t = [x]"
    and "tr_new t \<inter> dom (accounts db) = {}" "unlogged db (tr_env t) (tr_call t)"
  shows "call_body (tr_env t) db (tr_call t) = Inr (view db t)"
proof -
  have sec: "secured db t" using assms(1) by (simp add: computed_def)
  note base = base_ensured [OF sec assms(5)]
  obtain ws m where wm: "new_balances (tr_call t) (tr_read t) = Inr ws"
    "updated_rows (tr_env t) (accounts (base db t)) ws = Some m" "tr_rows t = base_rows t ++ m"
    using assms(1) by (auto simp: computed_def)
  have reads: "\<exists>r. accounts (base db t) a = Some r \<and> numeric_read (balance r) = tr_read t a"
    if "a \<in> set (locks (tr_call t))" for a
  proof -
    have "lock_balance (base db t) a = Some (tr_read t a)" using sec that assms(1) by (simp add: secured_def computed_def)
    then show ?thesis unfolding lock_balance_def by auto
  qed
  have view: "view db t = (base db t)\<lparr>accounts := accounts (base db t) ++ m, transactions := transactions db @ [x]\<rparr>"
    using wm(3) assms(4) by (simp add: view_def base_def)
  have free: "wfails (tr_env t) y \<longleftrightarrow> False" for y using assms(2) by (simp add: reliable_def)
  have new: "\<not> ref_exists db (call_ref (tr_call t))" using assms(6) by (simp add: unlogged_def)
  have log: "log_insert (tr_env t) d (tr_call t) = Some (d\<lparr>transactions := transactions db @ [x]\<rparr>)"
    if "transactions d = transactions db" for d
    using assms(3,6) that by (simp add: log_insert_row unlogged_def ref_exists_def)
  show ?thesis
  proof (cases "tr_call t")
    case (CallCredit acct amount ref)
    obtain r where r: "accounts (base db t) acct = Some r" "numeric_read (balance r) = tr_read t acct"
      using reads [of acct] CallCredit by auto
    obtain n where n: "numeric_write (wwire (tr_env t)) (f64_add (tr_read t acct) amount) = Some n"
      "m = [acct \<mapsto> r\<lparr>balance := n, updated_at := wnow (tr_env t)\<rparr>]"
      using wm(1,2) CallCredit r(1) by (auto split: option.splits)
    have b: "ensure_account (tr_env t) db acct = base db t" using base CallCredit by simp
    show ?thesis
      using log [of "base db t\<lparr>accounts := (accounts (base db t))(acct \<mapsto> r\<lparr>balance := n, updated_at := wnow (tr_env t)\<rparr>)\<rparr>"] new r n(1)
      by (simp add: CallCredit credit_body_def free b lock_balance_def update_balance_def view n(2) base_simps(2) Let_def)
  next
    case (CallDebit acct amount ref)
    obtain r where r: "accounts (base db t) acct = Some r" "numeric_read (balance r) = tr_read t acct"
      using reads [of acct] CallDebit by auto
    obtain n where n: "\<not> f64_lt (tr_read t acct) amount"
      "numeric_write (wwire (tr_env t)) (f64_sub (tr_read t acct) amount) = Some n"
      "m = [acct \<mapsto> r\<lparr>balance := n, updated_at := wnow (tr_env t)\<rparr>]"
      using wm(1,2) CallDebit r(1) by (auto split: option.splits if_splits)
    have b: "base db t = db" using base CallDebit by simp
    show ?thesis
      using log [of "db\<lparr>accounts := (accounts db)(acct \<mapsto> r\<lparr>balance := n, updated_at := wnow (tr_env t)\<rparr>)\<rparr>"] new r n(1,2)
      by (simp add: CallDebit debit_body_def free b lock_balance_def update_balance_def view n(3) base_simps(2) Let_def)
  next
    case (CallTransfer frm dest amount ref)
    have ne: "frm \<noteq> dest" using sec by (simp add: secured_def CallTransfer)
    have "frm \<in> set (locks (tr_call t))" "dest \<in> set (locks (tr_call t))" by (simp_all add: CallTransfer lock_order_def)
    note rd = reads [OF this(1)] reads [OF this(2)]
    obtain r r' where r: "accounts (base db t) frm = Some r" "numeric_read (balance r) = tr_read t frm"
      "accounts (base db t) dest = Some r'" "numeric_read (balance r') = tr_read t dest"
      using rd by auto
    obtain n n' where n: "\<not> f64_lt (tr_read t frm) amount"
      "numeric_write (wwire (tr_env t)) (f64_sub (tr_read t frm) amount) = Some n"
      "numeric_write (wwire (tr_env t)) (f64_add (tr_read t dest) amount) = Some n'"
      "m = [dest \<mapsto> r'\<lparr>balance := n', updated_at := wnow (tr_env t)\<rparr>, frm \<mapsto> r\<lparr>balance := n, updated_at := wnow (tr_env t)\<rparr>]"
      using wm(1,2) CallTransfer r(1,3) by (auto split: option.splits if_splits)
    have b: "ensure_account (tr_env t) db dest = base db t" using base CallTransfer by simp
    show ?thesis
      using log [of "base db t\<lparr>accounts := (accounts (base db t))
          (frm \<mapsto> r\<lparr>balance := n, updated_at := wnow (tr_env t)\<rparr>, dest \<mapsto> r'\<lparr>balance := n', updated_at := wnow (tr_env t)\<rparr>)\<rparr>"] new r n(1-3) ne
      by (simp add: CallTransfer transfer_body_def free b lock_balance_def update_balance_def view n(4) lock_order_def base_simps(2) Let_def
          fun_upd_twist [OF ne])
  qed
qed

section \<open>Transactions side by side\<close>

definition apart :: "trans \<Rightarrow> trans \<Rightarrow> bool" where
  "apart t u \<longleftrightarrow> tr_new t \<inter> tr_new u = {} \<and> tr_held t \<inter> tr_held u = {}
     \<and> (\<forall>x \<in> set (tr_log t). \<forall>y \<in> set (tr_log u). reference_id x \<noteq> reference_id y \<and> wtx_id x \<noteq> wtx_id y)"

definition trans_ok :: "wallet_db \<Rightarrow> trans \<Rightarrow> bool" where
  "trans_ok db t \<longleftrightarrow> stage_ok db t \<and> tr_new t \<inter> dom (accounts db) = {}
     \<and> (tr_log t \<noteq> [] \<longrightarrow> unlogged db (tr_env t) (tr_call t))"

definition system_ok :: "wallet_system \<Rightarrow> bool" where
  "system_ok s \<longleftrightarrow> (case s of (db, ts) \<Rightarrow>
     (\<forall>t \<in> set ts. trans_ok db t) \<and> (\<forall>i < length ts. \<forall>j < length ts. i \<noteq> j \<longrightarrow> apart (ts ! i) (ts ! j)))"

lemma set_others: "set (others ts i) = {ts ! j | j. j < length ts \<and> j \<noteq> i}"
  by (auto simp: others_def)

lemma apart_sym: "apart t u \<longleftrightarrow> apart u t"
  unfolding apart_def by (metis inf_commute)

lemma ended_simps [simp]:
  "tr_call (ended b t) = tr_call t" "tr_env (ended b t) = tr_env t" "tr_stage (ended b t) = Ended b"
  "apart (ended b t) u"
  by (simp_all add: ended_def apart_def)

lemma trans_ok_ended: "reliable (tr_env t) \<Longrightarrow> trans_ok db (ended b t)"
  by (simp add: trans_ok_def stage_ok_def ended_def idle_def)

lemma system_ok_update:
  assumes "system_ok (db, ts)" "i < length ts" "trans_ok db' t"
    and "\<forall>u \<in> set (others ts i). trans_ok db' u \<and> apart t u"
  shows "system_ok (db', ts[i := t])"
proof -
  have ok: "trans_ok db' (ts ! j) \<and> apart t (ts ! j)" if "j < length ts" "j \<noteq> i" for j
    using assms(4) that by (auto simp: set_others)
  have "trans_ok db' (ts[i := t] ! j)" if "j < length ts" for j
    using ok [of j] assms(2,3) that by (cases "j = i") simp_all
  moreover have "apart (ts[i := t] ! j) (ts[i := t] ! k)" if "j < length ts" "k < length ts" "j \<noteq> k" for j k
    using ok [of j] ok [of k] assms(1,2) that apart_sym by (auto simp: nth_list_update system_ok_def)
  ultimately show ?thesis by (auto simp: system_ok_def in_set_conv_nth)
qed

lemma view_base: "tr_rows t = base_rows t \<Longrightarrow> tr_log t = [] \<Longrightarrow> view db t = base db t"
  by (simp add: view_def base_def)

lemma base_update [simp]:
  "base db (t\<lparr>tr_stage := s\<rparr>) = base db t" "base db (t\<lparr>tr_held := h\<rparr>) = base db t"
  "base db (t\<lparr>tr_read := f\<rparr>) = base db t" "base db (t\<lparr>tr_rows := r\<rparr>) = base db t" "base db (t\<lparr>tr_log := l\<rparr>) = base db t"
  "base_rows (t\<lparr>tr_stage := s\<rparr>) = base_rows t" "base_rows (t\<lparr>tr_held := h\<rparr>) = base_rows t"
  "base_rows (t\<lparr>tr_read := f\<rparr>) = base_rows t" "base_rows (t\<lparr>tr_rows := r\<rparr>) = base_rows t"
  "base_rows (t\<lparr>tr_log := l\<rparr>) = base_rows t"
  by (simp_all add: base_def base_rows_def cong: if_cong)

lemma apart_update [simp]:
  "apart (t\<lparr>tr_stage := s\<rparr>) u \<longleftrightarrow> apart t u" "apart (t\<lparr>tr_read := f\<rparr>) u \<longleftrightarrow> apart t u"
  "apart (t\<lparr>tr_rows := r\<rparr>) u \<longleftrightarrow> apart t u"
  by (simp_all add: apart_def)

lemma apart_claims:
  "apart (t\<lparr>tr_held := insert a (tr_held t)\<rparr>) u \<longleftrightarrow> a \<notin> tr_held u \<and> apart t u"
  "tr_new t = {} \<Longrightarrow> apart (t\<lparr>tr_new := {a}\<rparr>) u \<longleftrightarrow> a \<notin> tr_new u \<and> apart t u"
  "tr_log t = [] \<Longrightarrow> apart (t\<lparr>tr_log := [x]\<rparr>) u \<longleftrightarrow>
     (\<forall>y \<in> set (tr_log u). reference_id y \<noteq> reference_id x \<and> wtx_id y \<noteq> wtx_id x) \<and> apart t u"
  by (auto simp: apart_def)

text \<open>The next statement keeps a transaction sound and apart from the others.\<close>

lemma moves_ok:
  assumes "trans_ok db t" "next_stmt db us t = Moves t'" "\<forall>u \<in> set us. apart t u"
  shows "trans_ok db t' \<and> (\<forall>u \<in> set us. apart t' u) \<and> tr_call t' = tr_call t \<and> tr_env t' = tr_env t"
proof (cases "tr_stage t")
  case AtCheck
  then have "t' = t\<lparr>tr_stage := AtEnsure\<rparr>" "\<not> same_account (tr_call t)"
    using assms(2) by (simp_all add: next_stmt_def Let_def split: if_splits)
  with AtCheck assms(1,3) show ?thesis by (simp add: trans_ok_def stage_ok_def idle_def)
next
  case AtEnsure
  then have t: "reliable (tr_env t)" "idle t" "\<not> same_account (tr_call t)" "tr_new t = {}"
    using assms(1) by (simp_all add: trans_ok_def stage_ok_def idle_def)
  show ?thesis
  proof (cases "\<exists>a. ensured (tr_call t) = Some a \<and> accounts db a = None")
    case False
    then have "t' = t\<lparr>tr_stage := AtLock (locks (tr_call t))\<rparr>"
      using assms(2) AtEnsure by (auto simp: next_stmt_def Let_def split: option.splits if_splits)
    with t False assms(3) show ?thesis
      by (auto simp: trans_ok_def stage_ok_def idle_def prepared_def secured_def base_rows_def fun_eq_iff)
  next
    case True
    then obtain a where a: "ensured (tr_call t) = Some a" "accounts db a = None" by blast
    define t0 where "t0 = t\<lparr>tr_new := {a}\<rparr>"
    have t': "t' = t0\<lparr>tr_stage := AtLock (locks (tr_call t)), tr_rows := [a \<mapsto> fresh_row (tr_env t)]\<rparr>"
      "\<forall>u \<in> set us. a \<notin> tr_new u"
      using assms(2) AtEnsure a by (auto simp: next_stmt_def t0_def fresh_row_def Let_def split: if_splits)
    have "\<forall>u \<in> set us. apart t0 u" using t'(2) assms(3) apart_claims(2) [OF t(4)] by (simp add: t0_def)
    moreover have "prepared db t' (locks (tr_call t))"
      using t a by (auto simp: t'(1) t0_def idle_def prepared_def secured_def base_rows_def fun_eq_iff)
    moreover have "tr_new t' \<inter> dom (accounts db) = {}" using a(2) by (auto simp: t'(1) t0_def)
    ultimately show ?thesis using t(1,2) by (simp add: t'(1) t0_def trans_ok_def stage_ok_def idle_def)
  qed
next
  case (AtLock as)
  then have t: "reliable (tr_env t)" "prepared db t as" "tr_new t \<inter> dom (accounts db) = {}"
    using assms(1) by (simp_all add: trans_ok_def stage_ok_def)
  show ?thesis
  proof (cases as)
    case Nil
    with AtLock have "t' = t\<lparr>tr_stage := AtUpdate\<rparr>" using assms(2) by (simp add: next_stmt_def)
    with Nil t assms(3) show ?thesis
      by (simp add: trans_ok_def stage_ok_def prepared_def secured_def)
  next
    case (Cons a bs)
    define t0 where "t0 = t\<lparr>tr_held := insert a (tr_held t)\<rparr>"
    obtain v where v: "lock_balance (view db t) a = Some v"
      and t': "t' = t0\<lparr>tr_stage := AtLock bs, tr_read := (tr_read t)(a := v)\<rparr>"
      and free: "\<forall>u \<in> set us. a \<notin> tr_held u"
      using assms(2) AtLock Cons by (auto simp: next_stmt_def t0_def split: option.splits if_splits)
    have sec: "secured db t" "tr_rows t = base_rows t" "tr_log t = []" using t(2) by (simp_all add: prepared_def)
    obtain taken where taken: "locks (tr_call t) = taken @ a # bs" "tr_held t = set taken"
      using t(2) Cons by (auto simp: prepared_def)
    then have "\<exists>taken. locks (tr_call t) = taken @ bs \<and> insert a (tr_held t) = set taken"
      by (intro exI [of _ "taken @ [a]"]) simp
    moreover have "a \<notin> tr_held t" using locks_set(2) [of "tr_call t"] sec(1) taken by (auto simp: secured_def)
    moreover have "lock_balance (base db t) a = Some v" using v view_base [OF sec(2,3)] by simp
    ultimately have "prepared db t' bs"
      using sec unfolding t' t0_def by (auto simp: prepared_def secured_def)
    moreover have "\<forall>u \<in> set us. apart t0 u" using free assms(3) apart_claims(1) by (simp add: t0_def)
    ultimately show ?thesis using t(1,3) sec(3) by (simp add: t' t0_def trans_ok_def stage_ok_def)
  qed
next
  case AtUpdate
  then have t: "reliable (tr_env t)" "prepared db t []" "tr_new t \<inter> dom (accounts db) = {}"
    using assms(1) by (simp_all add: trans_ok_def stage_ok_def)
  obtain ws m where wm: "new_balances (tr_call t) (tr_read t) = Inr ws"
    "updated_rows (tr_env t) (accounts (view db t)) ws = Some m" "t' = t\<lparr>tr_stage := AtLog, tr_rows := tr_rows t ++ m\<rparr>"
    using assms(2) AtUpdate by (auto simp: next_stmt_def Let_def split: sum.splits option.splits)
  have "view db t = base db t" using t(2) by (intro view_base) (simp_all add: prepared_def)
  then have "computed db t'" using t(2) wm by (auto simp: prepared_def computed_def secured_def)
  then show ?thesis using t assms(3) wm(3) by (simp add: trans_ok_def stage_ok_def prepared_def)
next
  case AtLog
  then have t: "reliable (tr_env t)" "computed db t" "tr_log t = []" "tr_new t \<inter> dom (accounts db) = {}"
    using assms(1) by (simp_all add: trans_ok_def stage_ok_def)
  have new: "unlogged db (tr_env t) (tr_call t)"
    using assms(2) AtLog by (auto simp: next_stmt_def Let_def unlogged_def split: if_splits)
  have free: "\<forall>u \<in> set us. \<forall>x \<in> set (tr_log u). reference_id x \<noteq> call_ref (tr_call t) \<and> wtx_id x \<noteq> wuuid (tr_env t)"
    using assms(2) AtLog by (auto simp: next_stmt_def Let_def split: if_splits)
  have tv: "transactions (view db t) = transactions db" using t(3) by (simp add: view_def)
  then have un: "unlogged (view db t) (tr_env t) (tr_call t)" using new by (simp add: unlogged_def ref_exists_def)
  define t0 where "t0 x = t\<lparr>tr_log := [x]\<rparr>" for x
  obtain x where x: "log_row (tr_env t) (tr_call t) = Some x" "t' = (t0 x)\<lparr>tr_stage := AtCommit\<rparr>"
    using assms(2) AtLog un new tv
    by (auto simp: next_stmt_def t0_def Let_def log_insert_row unlogged_def split: if_splits option.splits)
  have "\<forall>u \<in> set us. apart (t0 x) u"
    using free assms(3) log_row_fields [OF x(1)] apart_claims(3) [OF t(3)] by (simp add: t0_def)
  moreover have "computed db t'" using t(2) by (simp add: x(2) t0_def computed_def secured_def)
  ultimately show ?thesis using t new x(1) by (simp add: x(2) t0_def trans_ok_def stage_ok_def)
qed (use assms in \<open>simp_all add: next_stmt_def\<close>)

section \<open>A commit beside other transactions\<close>

lemma updated_rows_cong:
  "\<forall>w \<in> set ws. get (fst w) = get' (fst w) \<Longrightarrow> updated_rows env get ws = updated_rows env get' ws"
  by (induction ws) (auto split: option.splits)

lemma updated_rows_dom: "updated_rows env get ws = Some m \<Longrightarrow> dom m \<subseteq> fst ` set ws"
proof (induction ws arbitrary: m)
  case (Cons w ws)
  obtain a v where w: "w = (a, v)" by (cases w)
  obtain z m' where m: "updated_rows env get ws = Some m'" "m = m'(a := z)"
    using Cons.prems by (auto simp: w split: option.splits)
  have "dom (m'(a := z)) \<subseteq> insert a (dom m')" by auto
  with Cons.IH [OF m(1)] have "dom (m'(a := z)) \<subseteq> insert a (fst ` set ws)" by blast
  then show ?case by (simp only: w m(2) list.set image_insert fst_conv)
qed auto

lemma new_balances_locked: "new_balances c bal = Inr ws \<Longrightarrow> fst ` set ws \<subseteq> set (locks c)"
  by (cases c) (auto simp: lock_order_def split: if_splits)

lemma dom_base_rows: "dom (base_rows t) = tr_new t"
  by (auto simp: base_rows_def split: if_splits)

lemma rows_owned: "computed db t \<Longrightarrow> dom (tr_rows t) \<subseteq> tr_new t \<union> tr_held t"
proof -
  assume c: "computed db t"
  obtain ws m where m: "new_balances (tr_call t) (tr_read t) = Inr ws"
    "updated_rows (tr_env t) (accounts (base db t)) ws = Some m" "tr_rows t = base_rows t ++ m"
    using c by (auto simp: computed_def)
  have "dom m \<subseteq> tr_held t"
    using updated_rows_dom [OF m(2)] new_balances_locked [OF m(1)] c by (simp add: computed_def)
  then show ?thesis by (auto simp only: m(3) dom_map_add dom_base_rows)
qed

lemma held_exists: "secured db t \<Longrightarrow> tr_held t \<subseteq> dom (accounts db) \<union> tr_new t"
proof
  fix a assume "secured db t" "a \<in> tr_held t"
  then have "lock_balance (base db t) a = Some (tr_read t a)" by (simp add: secured_def)
  then have "a \<in> dom (accounts (base db t))" unfolding lock_balance_def by auto
  then show "a \<in> dom (accounts db) \<union> tr_new t" using dom_base_rows [of t] by (auto simp: base_simps)
qed

lemma base_cong: "accounts db' a = accounts db a \<Longrightarrow> accounts (base db' u) a = accounts (base db u) a"
  by (cases "base_rows u a") (simp_all add: base_def map_add_def)

lemma commit_keeps_others:
  assumes "trans_ok db t" "tr_stage t = AtCommit" "trans_ok db u" "apart t u"
  shows "trans_ok (view db t) u"
proof -
  have t: "computed db t" "secured db t" "tr_new t \<inter> dom (accounts db) = {}"
    using assms(1,2) by (simp_all add: trans_ok_def stage_ok_def computed_def)
  have same: "accounts (view db t) a = accounts db a" if "a \<notin> tr_new t" "a \<notin> tr_held t" for a
  proof -
    have "a \<notin> dom (tr_rows t)" using rows_owned [OF t(1)] that by blast
    then show ?thesis by (simp add: view_def map_add_dom_app_simps)
  qed
  have grows: "dom (accounts db) \<subseteq> dom (accounts (view db t))" by (auto simp: view_def)
  have dom: "dom (accounts (view db t)) \<subseteq> dom (accounts db) \<union> tr_new t"
    using rows_owned [OF t(1)] held_exists [OF t(2)] by (auto simp: view_def)
  have disj: "tr_new t \<inter> tr_new u = {}" "tr_held t \<inter> tr_held u = {}" using assms(4) by (simp_all add: apart_def)
  have new: "tr_new u \<inter> dom (accounts (view db t)) = {}" using dom disj(1) assms(3) by (auto simp: trans_ok_def)
  have keep: "accounts (base (view db t) u) a = accounts (base db u) a" if "secured db u" "a \<in> tr_held u" for a
  proof -
    have "a \<notin> tr_new t" "a \<notin> tr_held t" using that held_exists [OF that(1)] disj t(3) by blast+
    then show ?thesis by (intro base_cong same)
  qed
  have sec: "secured (view db t) u" if s: "secured db u"
  proof -
    have "set_option (ensured (tr_call u)) \<subseteq> dom (accounts (view db t)) \<union> tr_new u"
      using s grows unfolding secured_def by blast
    moreover have "lock_balance (base (view db t) u) a = lock_balance (base db u) a" if "a \<in> tr_held u" for a
      using keep [OF s that] by (simp add: lock_balance_def)
    ultimately show ?thesis using s by (simp add: secured_def)
  qed
  have comp: "computed (view db t) u" if c: "computed db u"
  proof -
    have s: "secured db u" "tr_held u = set (locks (tr_call u))" using c by (simp_all add: computed_def)
    obtain ws m where wm: "new_balances (tr_call u) (tr_read u) = Inr ws"
      "updated_rows (tr_env u) (accounts (base db u)) ws = Some m" "tr_rows u = base_rows u ++ m"
      using c by (auto simp: computed_def)
    have "\<forall>w \<in> set ws. accounts (base (view db t) u) (fst w) = accounts (base db u) (fst w)"
      using keep [OF s(1)] new_balances_locked [OF wm(1)] s(2) by blast
    from updated_rows_cong [OF this] show ?thesis using wm sec [OF s(1)] s(2) by (auto simp: computed_def)
  qed
  have log: "unlogged (view db t) (tr_env u) (tr_call u)" if l: "tr_log u \<noteq> []"
  proof -
    obtain y where y: "log_row (tr_env u) (tr_call u) = Some y" "tr_log u = [y]"
      using assms(3) l by (auto simp: trans_ok_def stage_ok_def idle_def prepared_def split: stage.splits)
    have "unlogged db (tr_env u) (tr_call u)" using assms(3) l by (simp add: trans_ok_def)
    with assms(4) y log_row_fields [OF y(1)] show ?thesis
      by (auto simp: unlogged_def ref_exists_def apart_def view_def list_ex_iff)
  qed
  have "stage_ok (view db t) u"
    using assms(3) sec comp by (auto simp: trans_ok_def stage_ok_def prepared_def split: stage.splits)
  with new log show ?thesis by (simp add: trans_ok_def)
qed

lemma commits_stage: "next_stmt db us t = Commits \<Longrightarrow> tr_stage t = AtCommit"
  by (auto simp: next_stmt_def Let_def split: stage.splits list.splits option.splits sum.splits if_splits)

lemma commit_body:
  assumes "trans_ok db t" "tr_stage t = AtCommit"
  shows "call_body (tr_env t) db (tr_call t) = Inr (view db t)"
  using assms commit_is_call [of db t] by (auto simp: trans_ok_def stage_ok_def)

section \<open>Every interleaving is sequential\<close>

fun run_calls :: "wallet_db \<Rightarrow> (wenv \<times> wallet_call) list \<Rightarrow> wallet_db option" where
  "run_calls db [] = Some db"
| "run_calls db ((env, c) # cs) = (case call_body env db c of Inl _ \<Rightarrow> None | Inr db' \<Rightarrow> run_calls db' cs)"

lemma run_calls_snoc:
  "run_calls db cs = Some db' \<Longrightarrow> run_calls db (cs @ [(env, c)]) = (case call_body env db' c of Inl _ \<Rightarrow> None | Inr d \<Rightarrow> Some d)"
  by (induction db cs rule: run_calls.induct) (auto split: sum.splits)

definition started :: "wallet_db \<Rightarrow> (wenv \<times> wallet_call) list \<Rightarrow> wallet_system" where
  "started db cs = (db, map (\<lambda>(env, c). begun env c) cs)"

lemma started_ok:
  assumes "\<forall>(env, c) \<in> set cs. reliable env"
  shows "system_ok (started db cs)"
  using assms
  by (auto simp: started_def system_ok_def begun_def trans_ok_def stage_ok_def idle_def apart_def nth_append)
     (auto simp: split_beta)

text \<open>What a step does: it goes on inside a transaction, ends one without effect, or commits one.\<close>

lemma wallet_step_cases:
  assumes "wallet_step (db, ts) (db', ts')" "system_ok (db, ts)"
  obtains (Goes) i t where "i < length ts" "next_stmt db (others ts i) (ts ! i) = Moves t" "ts' = ts[i := t]" "db' = db"
      "trans_ok db t" "\<forall>u \<in> set (others ts i). apart t u" "tr_call t = tr_call (ts ! i)" "tr_env t = tr_env (ts ! i)"
  | (Stops) i where "i < length ts" "\<forall>ok. tr_stage (ts ! i) \<noteq> Ended ok" "ts' = ts[i := ended False (ts ! i)]" "db' = db"
  | (Commits) i where "i < length ts" "tr_stage (ts ! i) = AtCommit" "ts' = ts[i := ended True (ts ! i)]" "db' = view db (ts ! i)"
proof -
  have ok: "trans_ok db (ts ! i)" "\<forall>u \<in> set (others ts i). apart (ts ! i) u" if "i < length ts" for i
    using assms(2) that by (auto simp: system_ok_def set_others)
  show ?thesis
    using assms(1)
  proof (rule wallet_stepE)
    fix i t
    assume "i < length ts" "next_stmt db (others ts i) (ts ! i) = Moves t" "(db', ts') = (db, ts[i := t])"
    with moves_ok [OF ok(1) _ ok(2), of i t] show ?thesis by (intro Goes [of i t]) auto
  next
    fix i x
    assume a: "i < length ts" "next_stmt db (others ts i) (ts ! i) = Aborts x" "(db', ts') = (db, ts[i := ended False (ts ! i)])"
    then have "\<forall>ok. tr_stage (ts ! i) \<noteq> Ended ok" by (auto simp: next_stmt_def)
    with a show ?thesis by (intro Stops [of i]) auto
  next
    fix i
    assume "i < length ts" "next_stmt db (others ts i) (ts ! i) = Commits" "(db', ts') = (view db (ts ! i), ts[i := ended True (ts ! i)])"
    then show ?thesis by (intro Commits [of i] commits_stage) auto
  next
    fix i
    assume "i < length ts" "\<forall>ok. tr_stage (ts ! i) \<noteq> Ended ok" "(db', ts') = (db, ts[i := ended False (ts ! i)])"
    then show ?thesis by (intro Stops [of i]) auto
  qed
qed

fun weight :: "stage \<Rightarrow> nat" where
  "weight AtCheck = 8"
| "weight AtEnsure = 7"
| "weight (AtLock as) = 4 + length as"
| "weight AtUpdate = 3"
| "weight AtLog = 2"
| "weight AtCommit = 1"
| "weight (Ended ok) = 0"

lemma weight_pos: "0 < weight s \<longleftrightarrow> (\<forall>ok. s \<noteq> Ended ok)"
  by (cases s) simp_all

lemma moves_weight:
  assumes "next_stmt db us t = Moves t'"
  shows "weight (tr_stage t') < weight (tr_stage t) \<and> 0 < weight (tr_stage t')"
proof -
  have "length (locks (tr_call t)) \<le> 2" by (cases "tr_call t") (simp_all add: lock_order_def)
  with assms show ?thesis
    by (auto simp: next_stmt_def Let_def split: stage.splits list.splits option.splits sum.splits if_splits)
qed

lemma system_ok_step:
  assumes "wallet_step (db, ts) (db', ts')" "system_ok (db, ts)"
  shows "system_ok (db', ts')"
proof -
  have ok: "trans_ok db (ts ! i)" "\<forall>u \<in> set (others ts i). trans_ok db u \<and> apart (ts ! i) u" if "i < length ts" for i
    using assms(2) that by (auto simp: system_ok_def set_others)
  have reliable: "reliable (tr_env (ts ! i))" if "i < length ts" for i
    using ok(1) [OF that] by (simp add: trans_ok_def stage_ok_def)
  show ?thesis
    using assms
  proof (cases rule: wallet_step_cases)
    case (Goes i t)
    with ok(2) [of i] show ?thesis by (auto intro: system_ok_update [OF assms(2)])
  next
    case (Stops i)
    with ok(2) [of i] reliable [of i] show ?thesis by (auto intro!: system_ok_update [OF assms(2)] trans_ok_ended)
  next
    case (Commits i)
    with ok [of i] reliable [of i] show ?thesis
      by (auto intro!: system_ok_update [OF assms(2)] trans_ok_ended commit_keeps_others)
  qed
qed

definition serial :: "wallet_db \<Rightarrow> (wenv \<times> wallet_call) list \<Rightarrow> wallet_system \<Rightarrow> bool" where
  "serial db0 cs s \<longleftrightarrow> (case s of (db, ts) \<Rightarrow>
     map (\<lambda>t. (tr_env t, tr_call t)) ts = cs
     \<and> (\<exists>order. distinct order \<and> set order = {i. i < length ts \<and> tr_stage (ts ! i) = Ended True}
          \<and> run_calls db0 (map ((!) cs) order) = Some db))"

lemma serial_step:
  assumes "wallet_step (db, ts) (db', ts')" "system_ok (db, ts)" "serial db0 cs (db, ts)"
  shows "serial db0 cs (db', ts')"
proof -
  obtain order where cs: "map (\<lambda>t. (tr_env t, tr_call t)) ts = cs"
    and order: "distinct order" "set order = {i. i < length ts \<and> tr_stage (ts ! i) = Ended True}"
      "run_calls db0 (map ((!) cs) order) = Some db"
    using assms(3) by (auto simp: serial_def)
  have same: "map (\<lambda>t. (tr_env t, tr_call t)) (ts[i := t]) = cs"
    if "i < length ts" "tr_call t = tr_call (ts ! i)" "tr_env t = tr_env (ts ! i)" for i t
    using that by (simp add: map_update cs [symmetric] list_update_same_conv)
  have quiet: "serial db0 cs (db, ts[i := t])"
    if "i < length ts" "tr_call t = tr_call (ts ! i)" "tr_env t = tr_env (ts ! i)"
      "tr_stage t \<noteq> Ended True" "tr_stage (ts ! i) \<noteq> Ended True" for i t
  proof -
    have "tr_stage (ts[i := t] ! j) = Ended True \<longleftrightarrow> tr_stage (ts ! j) = Ended True" for j
      using that(1,4,5) by (cases "j = i") simp_all
    then show ?thesis using same [OF that(1-3)] order by (auto simp: serial_def)
  qed
  show ?thesis
    using assms(1,2)
  proof (cases rule: wallet_step_cases)
    case (Goes i t)
    then have "tr_stage t \<noteq> Ended True" "tr_stage (ts ! i) \<noteq> Ended True"
      using moves_weight [OF Goes(2)] by (metis less_numeral_extra(3) weight.simps(7), metis not_less_zero weight.simps(7))
    with Goes show ?thesis using quiet [of i t] by simp
  next
    case (Stops i)
    then show ?thesis using quiet [of i "ended False (ts ! i)"] by auto
  next
    case (Commits i)
    have "cs ! i = (tr_env (ts ! i), tr_call (ts ! i))" using cs Commits(1) by auto
    moreover have "trans_ok db (ts ! i)" using assms(2) Commits(1) by (auto simp: system_ok_def)
    ultimately have "run_calls db0 (map ((!) cs) (order @ [i])) = Some db'"
      using run_calls_snoc [OF order(3)] commit_body [of db "ts ! i"] Commits(2,4) by simp
    moreover have "set (order @ [i]) = {j. j < length ts' \<and> tr_stage (ts' ! j) = Ended True}"
      using order(2) Commits(1,3) by (auto simp: nth_list_update)
    moreover have "distinct (order @ [i])" using order(1,2) Commits(2) by auto
    moreover have "map (\<lambda>t. (tr_env t, tr_call t)) ts' = cs"
      using same [of i "ended True (ts ! i)"] Commits(1,3) by simp
    ultimately show ?thesis unfolding serial_def by blast
  qed
qed

lemma reached_serial:
  assumes "wallet_step\<^sup>*\<^sup>* (started db0 cs) s" "\<forall>(env, c) \<in> set cs. reliable env"
  shows "system_ok s \<and> serial db0 cs s"
  using assms(1)
proof (induction rule: rtranclp_induct)
  case base
  have "serial db0 cs (started db0 cs)"
    by (auto simp: serial_def started_def begun_def split_beta comp_def intro!: exI [of _ "[]"])
  then show ?case using started_ok [OF assms(2)] by simp
next
  case (step s s')
  obtain db ts db' ts' where "s = (db, ts)" "s' = (db', ts')" by (cases s; cases s')
  with step show ?case using system_ok_step serial_step by blast
qed

section \<open>No deadlock\<close>

lemma next_stmt_blocks:
  assumes "next_stmt db us t = Blocks"
  obtains (Over) ok where "tr_stage t = Ended ok"
  | (Ensures) a u where "tr_stage t = AtEnsure" "u \<in> set us" "a \<in> tr_new u"
  | (Locks) a as u where "tr_stage t = AtLock (a # as)" "u \<in> set us" "a \<in> tr_held u"
  | (Logs) u x where "tr_stage t = AtLog" "u \<in> set us" "x \<in> set (tr_log u)"
  using assms
  by (auto simp: next_stmt_def Let_def split: stage.splits list.splits option.splits sum.splits if_splits)

lemma holder_stage:
  assumes "trans_ok db u"
  shows "tr_log u \<noteq> [] \<Longrightarrow> tr_stage u = AtCommit"
    and "tr_new u \<noteq> {} \<or> tr_held u \<noteq> {} \<Longrightarrow>
      tr_stage u \<in> {AtUpdate, AtLog, AtCommit} \<or> (\<exists>as. tr_stage u = AtLock as \<and> prepared db u as)"
  using assms by (auto simp: trans_ok_def stage_ok_def idle_def prepared_def split: stage.splits)

text \<open>A transaction that waits for one row and holds another holds the smaller of the two.\<close>

lemma held_below:
  assumes "prepared db u (b # bs)" "a \<in> tr_held u"
  shows "a < b"
proof -
  obtain taken where t: "locks (tr_call u) = taken @ b # bs" "tr_held u = set taken" "\<not> same_account (tr_call u)"
    using assms(1) by (auto simp: prepared_def secured_def)
  with locks_set(1) [OF t(3)] assms(2) show ?thesis by (simp add: sorted_wrt_append)
qed

lemma wallet_progress:
  assumes "system_ok (db, ts)" "\<not> can_move (db, ts)" "t \<in> set ts"
  shows "\<exists>ok. tr_stage t = Ended ok"
proof (rule ccontr)
  assume t: "\<nexists>ok. tr_stage t = Ended ok"
  have ok: "trans_ok db u" if "u \<in> set ts" for u using assms(1) that by (simp add: system_ok_def)
  have stuck: "\<exists>us. set us \<subseteq> set ts \<and> next_stmt db us u = Blocks" if u: "u \<in> set ts" for u
  proof -
    obtain i where i: "i < length ts" "u = ts ! i" using u by (auto simp: in_set_conv_nth)
    have "set (others ts i) \<subseteq> set ts" by (auto simp: set_others)
    with i assms(2) show ?thesis by (auto simp: can_move_def)
  qed
  have no_commit: "tr_stage u \<noteq> AtCommit" if "u \<in> set ts" for u
    using stuck [OF that] by (auto simp: next_stmt_def)
  have waits: "\<exists>a as v. tr_stage u = AtLock (a # as) \<and> v \<in> set ts \<and> a \<in> tr_held v"
    if u: "u \<in> set ts" "tr_new u \<noteq> {} \<or> tr_held u \<noteq> {} " for u
  proof -
    obtain us where us: "set us \<subseteq> set ts" "next_stmt db us u = Blocks" using stuck [OF u(1)] by blast
    from us(2) show ?thesis
    proof (cases rule: next_stmt_blocks)
      case (Logs v x)
      then have "tr_log v \<noteq> []" "v \<in> set ts" using us(1) by auto
      then show ?thesis using holder_stage(1) [OF ok [of v]] no_commit [of v] by simp
    qed (use holder_stage(2) [OF ok [OF u(1)] u(2)] us(1) in auto)
  qed
  define W where "W = {a. \<exists>u as. u \<in> set ts \<and> tr_stage u = AtLock (a # as) \<and> (\<exists>v \<in> set ts. a \<in> tr_held v)}"
  have "finite W"
  proof (rule finite_subset)
    show "W \<subseteq> (\<lambda>u. case tr_stage u of AtLock as \<Rightarrow> hd as | _ \<Rightarrow> []) ` set ts" by (force simp: W_def)
  qed simp
  obtain us where us: "set us \<subseteq> set ts" "next_stmt db us t = Blocks" using stuck [OF assms(3)] by blast
  from us(2) have "W \<noteq> {}"
  proof (cases rule: next_stmt_blocks)
    case (Ensures a u)
    with us(1) waits [of u] show ?thesis by (auto simp: W_def)
  next
    case (Locks a as u)
    with us(1) assms(3) show ?thesis by (auto simp: W_def)
  next
    case (Logs v x)
    then have "tr_log v \<noteq> []" "v \<in> set ts" using us(1) by auto
      then show ?thesis using holder_stage(1) [OF ok [of v]] no_commit [of v] by simp
  qed (use t in simp)
  obtain u where u: "u \<in> set ts" "Max W \<in> tr_held u" using Max_in [OF \<open>finite W\<close> \<open>W \<noteq> {}\<close>] by (auto simp: W_def)
  obtain b bs v where b: "tr_stage u = AtLock (b # bs)" "v \<in> set ts" "b \<in> tr_held v" using waits [of u] u by auto
  have "prepared db u (b # bs)" using ok [OF u(1)] b(1) by (simp add: trans_ok_def stage_ok_def)
  from held_below [OF this u(2)] have "Max W < b" .
  moreover have "b \<in> W" using u(1) b by (auto simp: W_def)
  then have "b \<le> Max W" using \<open>finite W\<close> by simp
  ultimately show False by simp
qed

section \<open>Runs end\<close>

definition steps_left :: "trans list \<Rightarrow> nat" where
  "steps_left ts = sum_list (map (weight \<circ> tr_stage) ts)"

lemma steps_left_update:
  assumes "i < length ts" "weight (tr_stage t) < weight (tr_stage (ts ! i))"
  shows "steps_left (ts[i := t]) < steps_left ts"
proof -
  have "weight (tr_stage (ts ! i)) \<le> sum_list (map (weight \<circ> tr_stage) ts)"
    using elem_le_sum_list [of i "map (weight \<circ> tr_stage) ts"] assms(1) by simp
  with assms show ?thesis by (simp add: steps_left_def map_update sum_list_update)
qed

lemma step_lowers:
  assumes "wallet_step (db, ts) (db', ts')" "system_ok (db, ts)"
  shows "steps_left ts' < steps_left ts"
  using assms
proof (cases rule: wallet_step_cases)
  case (Goes i t)
  then show ?thesis using moves_weight [OF Goes(2)] by (simp add: steps_left_update)
next
  case (Stops i)
  then have "0 < weight (tr_stage (ts ! i))" by (simp add: weight_pos)
  with Stops show ?thesis by (simp add: steps_left_update)
next
  case (Commits i)
  then show ?thesis by (simp add: steps_left_update)
qed

lemma steps_bounded:
  assumes "(wallet_step ^^ n) (db, ts) (db', ts')" "system_ok (db, ts)"
  shows "n + steps_left ts' \<le> steps_left ts \<and> system_ok (db', ts')"
  using assms
proof (induction n arbitrary: db' ts')
  case (Suc n)
  then obtain db1 ts1 where s: "(wallet_step ^^ n) (db, ts) (db1, ts1)" "wallet_step (db1, ts1) (db', ts')" by auto
  with Suc show ?case using step_lowers [OF s(2)] system_ok_step [OF s(2)] by fastforce
qed simp

lemma steps_left_started: "steps_left (snd (started db cs)) = 8 * length cs"
  by (induction cs) (auto simp: steps_left_def started_def begun_def)

section \<open>What the interleavings promise\<close>

text \<open>
  C9. Concurrent calls are sequential.  Whatever the interleaving of credits, debits and transfers, and
  whichever of them fail on the way, the tables are those that the committed calls, run alone one after
  the other in some order, leave: no update is lost, no money is seen twice, and a call that did not
  commit has no effect.
\<close>

theorem concurrent_calls_are_sequential:
  assumes "wallet_step\<^sup>*\<^sup>* (started db0 cs) (db, ts)" "\<forall>(env, c) \<in> set cs. reliable env"
  shows "\<exists>order. distinct order \<and> set order = {i. i < length cs \<and> tr_stage (ts ! i) = Ended True}
    \<and> run_calls db0 (map ((!) cs) order) = Some db"
proof -
  have s: "serial db0 cs (db, ts)" using reached_serial [OF assms] by simp
  then have "map (\<lambda>t. (tr_env t, tr_call t)) ts = cs" by (simp add: serial_def)
  then have "length cs = length ts" by (metis length_map)
  then show ?thesis using s by (simp only: serial_def prod.case)
qed

text \<open>
  C11. No deadlock.  Concurrent calls make at most eight statements each, and as long as one of them has
  not ended, some call can go on: the rows are locked in the order of the account names, so the calls
  that wait for each other never form a circle.
\<close>

theorem calls_never_deadlock:
  assumes "(wallet_step ^^ n) (started db cs) (db', ts)" "\<forall>(env, c) \<in> set cs. reliable env"
  shows "n \<le> 8 * length cs \<and> (can_move (db', ts) \<or> (\<forall>t \<in> set ts. \<exists>ok. tr_stage t = Ended ok))"
proof -
  obtain ts0 where s0: "started db cs = (db, ts0)" by (simp add: started_def)
  have "n + steps_left ts \<le> steps_left ts0 \<and> system_ok (db', ts)"
    using steps_bounded [of n db ts0 db' ts] assms(1) started_ok [OF assms(2), of db] by (simp add: s0)
  moreover have "steps_left ts0 = 8 * length cs" using steps_left_started [of db cs] by (simp add: s0)
  ultimately show ?thesis using wallet_progress [of db' ts] by auto
qed

end
