(* ===== verification/WalletLocksRuns.thy ===== *)
theory WalletLocksRuns imports WalletLocksProps WalletProps begin

text \<open>
  Interleavings of theory \<open>WalletLocks\<close> that are run: two transfers that cross each other.
\<close>

section \<open>Schedules\<close>

text \<open>The next statement of the chosen transaction; None when it waits.\<close>

definition advance :: "wallet_system \<Rightarrow> nat \<Rightarrow> wallet_system option" where
  "advance s i = (case s of (db, ts) \<Rightarrow>
     if i < length ts
     then (case next_stmt db (others ts i) (ts ! i) of
             Blocks \<Rightarrow> None
           | Aborts x \<Rightarrow> Some (db, ts[i := ended False (ts ! i)])
           | Moves t \<Rightarrow> Some (db, ts[i := t])
           | Commits \<Rightarrow> Some (view db (ts ! i), ts[i := ended True (ts ! i)]))
     else None)"

fun schedule :: "wallet_system \<Rightarrow> nat list \<Rightarrow> wallet_system option" where
  "schedule s [] = Some s"
| "schedule s (i # is) = (case advance s i of None \<Rightarrow> None | Some s' \<Rightarrow> schedule s' is)"

lemma advance_step: "advance s i = Some s' \<Longrightarrow> wallet_step s s'"
  by (auto simp: advance_def intro: wallet_step.intros split: prod.splits if_splits stmt_result.splits)

lemma schedule_steps: "schedule s is = Some s' \<Longrightarrow> (wallet_step ^^ length is) s s'"
proof (induction s "is" rule: schedule.induct)
  case (2 s i rest)
  then obtain s1 where s1: "advance s i = Some s1" "schedule s1 rest = Some s'" by (auto split: option.splits)
  with 2 have "(wallet_step ^^ length rest) s1 s'" by blast
  with advance_step [OF s1(1)] show ?case by (simp only: list.size add_Suc_right add_0_right relpowp_Suc_I2)
qed simp

definition crossing :: "(wenv \<times> wallet_call) list" where
  "crossing =
     [(healthy_env, CallTransfer ''alice'' ''bob'' (f64_of_rat (units 200)) ''r1''),
      (healthy_env\<lparr>wuuid := ''u2''\<rparr>, CallTransfer ''bob'' ''alice'' (f64_of_rat (units 100)) ''r2'')]"

lemma crossing_reliable: "\<forall>(env, c) \<in> set crossing. reliable env"
  by (simp add: crossing_def reliable_def healthy_env_def)

lemma crossing_amounts:
  "numeric_write (\<lambda>x. x) (f64_sub (f64_of_rat (units 500)) (f64_of_rat (units 200))) = Some (Num 300)"
  "numeric_write (\<lambda>x. x) (f64_add (f64_of_rat (units 7)) (f64_of_rat (units 200))) = Some (Num 207)"
  "numeric_write (\<lambda>x. x) (f64_sub (f64_of_rat (units 207)) (f64_of_rat (units 100))) = Some (Num 107)"
  "numeric_write (\<lambda>x. x) (f64_add (f64_of_rat (units 300)) (f64_of_rat (units 100))) = Some (Num 400)"
  "numeric_write (\<lambda>x. x) (f64_of_rat (units 200)) = Some (Num 200)"
  "numeric_write (\<lambda>x. x) (f64_of_rat (units 100)) = Some (Num 100)"
  "f64_lt (f64_of_rat (units 500)) (f64_of_rat (units 200)) \<longleftrightarrow> False"
  "f64_lt (f64_of_rat (units 207)) (f64_of_rat (units 100)) \<longleftrightarrow> False"
proof -
  have w: "wire_ok (\<lambda>x. x)" by (simp add: wire_ok_def)
  note lim = exact_limit_def
  show "numeric_write (\<lambda>x. x) (f64_sub (f64_of_rat (units 500)) (f64_of_rat (units 200))) = Some (Num 300)"
    using numeric_sub_exact [OF w, of 500 200] by (auto simp: lim)
  show "numeric_write (\<lambda>x. x) (f64_add (f64_of_rat (units 7)) (f64_of_rat (units 200))) = Some (Num 207)"
    using numeric_add_exact [OF w, of 7 200] by (auto simp: lim)
  show "numeric_write (\<lambda>x. x) (f64_sub (f64_of_rat (units 207)) (f64_of_rat (units 100))) = Some (Num 107)"
    using numeric_sub_exact [OF w, of 207 100] by (auto simp: lim)
  show "numeric_write (\<lambda>x. x) (f64_add (f64_of_rat (units 300)) (f64_of_rat (units 100))) = Some (Num 400)"
    using numeric_add_exact [OF w, of 300 100] by (auto simp: lim)
qed (simp_all add: write_units f64_lt_units wire_ok_def exact_limit_def)

definition crossed :: "wallet_db" where
  "crossed = \<lparr>accounts = [''alice'' \<mapsto> \<lparr>balance = Num 400, created_at = 0, updated_at = 0\<rparr>,
                          ''bob'' \<mapsto> \<lparr>balance = Num 107, created_at = 0, updated_at = 0\<rparr>],
     transactions =
       [\<lparr>wtx_id = ''u1'', from_account = Some ''alice'', to_account = Some ''bob'', wtx_amount = Num 200,
         reference_id = ''r1'', wtx_created_at = 0\<rparr>,
        \<lparr>wtx_id = ''u2'', from_account = Some ''bob'', to_account = Some ''alice'', wtx_amount = Num 100,
         reference_id = ''r2'', wtx_created_at = 0\<rparr>]\<rparr>"

lemmas run_simps = advance_def started_def crossing_def others_def next_stmt_def begun_def healthy_env_def
  two_accounts_def view_def lock_order_def lock_balance_def ref_exists_def insert_log_def ended_def Let_def upt_rec crossing_amounts

text \<open>Both read the references; the first locks both rows, and the second waits until it has committed.\<close>

lemma crossing_blocked:
  "map_option (\<lambda>s. (map tr_stage (snd s), advance s 1)) (schedule (started (two_accounts 500 7) crossing) [0, 0, 1, 1, 0])
     = Some ([AtLock [''bob''], AtLock [''alice'', ''bob'']], None)"
  by (simp add: run_simps)

lemma crossing_runs:
  "\<exists>ts. schedule (started (two_accounts 500 7) crossing) [0, 0, 1, 1, 0, 0, 0, 0, 0, 0, 1, 1, 1, 1, 1, 1] = Some (crossed, ts)
     \<and> map tr_stage ts = [Ended True, Ended True]"
  by (simp add: run_simps crossed_def fun_eq_iff)

section \<open>Instances\<close>

lemma concurrent_calls_are_sequential_witness:
  "\<exists>order. distinct order \<and> set order = {0, 1}
     \<and> run_calls (two_accounts 500 7) (map ((!) crossing) order) = Some crossed"
proof -
  obtain ts where ts: "schedule (started (two_accounts 500 7) crossing) [0, 0, 1, 1, 0, 0, 0, 0, 0, 0, 1, 1, 1, 1, 1, 1]
      = Some (crossed, ts)" "map tr_stage ts = [Ended True, Ended True]"
    using crossing_runs by (elim exE conjE)
  obtain t u where "ts = [t, u]" "tr_stage t = Ended True" "tr_stage u = Ended True" using ts(2) by auto
  moreover have "{i. i < length crossing \<and> tr_stage ([t, u] ! i) = Ended True} = {0, 1}"
    using calculation by (auto simp: crossing_def less_Suc_eq nth_Cons')
  ultimately show ?thesis
    using concurrent_calls_are_sequential [OF relpowp_imp_rtranclp [OF schedule_steps [OF ts(1)]] crossing_reliable] by simp
qed

lemma calls_never_deadlock_witness:
  "\<exists>db ts. (wallet_step ^^ 5) (started (two_accounts 500 7) crossing) (db, ts)
     \<and> next_stmt db (others ts 1) (ts ! 1) = Blocks \<and> can_move (db, ts)"
proof -
  obtain s where s: "schedule (started (two_accounts 500 7) crossing) [0, 0, 1, 1, 0] = Some s"
    "map tr_stage (snd s) = [AtLock [''bob''], AtLock [''alice'', ''bob'']]" "advance s 1 = None"
    using crossing_blocked unfolding map_option_eq_Some prod.inject by (elim exE conjE)
  obtain db ts where dt: "s = (db, ts)" by (cases s)
  obtain t u where tu: "ts = [t, u]" "tr_stage t = AtLock [''bob'']" using s(2) by (auto simp: dt)
  have five: "length [0, 0, 1, 1, 0 :: nat] = 5" by simp
  have "next_stmt db (others ts 1) (ts ! 1) = Blocks"
    using s(3) by (auto simp: advance_def dt tu(1) split: stmt_result.splits)
  moreover have run: "(wallet_step ^^ 5) (started (two_accounts 500 7) crossing) (db, ts)"
    using schedule_steps [OF s(1)] unfolding five dt .
  moreover have "can_move (db, ts)"
    using calls_never_deadlock [OF run crossing_reliable] tu by auto
  ultimately show ?thesis by blast
qed

end
