(* ===== verification/Config.thy ===== *)
theory Config imports IntentStore begin

text \<open>
  What every service does first: \<open>shared/config/config.go\<close>, the connection loop of
  \<open>shared/db/postgres.go\<close>, the address of \<open>shared/metrics/metrics.go\<close> and the pool size of
  \<open>execution-engine/main.go\<close>.  Durations are in nanoseconds.
\<close>

section \<open>Environment variables\<close>

type_synonym environ = "string \<rightharpoonup> string"

definition GetEnv :: "environ \<Rightarrow> string \<Rightarrow> string \<Rightarrow> string" where
  "GetEnv env key fallback =
     (case env key of
        Some v \<Rightarrow> if v \<noteq> [] then v else fallback
      | None \<Rightarrow> fallback)"

text \<open>\<open>strconv.Atoi\<close> on a 64-bit machine: an optional sign and digits, nothing else, within the range\<close>

definition Atoi :: "string \<Rightarrow> int option" where
  "Atoi s =
     (let (neg, ds) = (case s of
            [] \<Rightarrow> (False, [])
          | c # t \<Rightarrow> if c = CHR ''-'' then (True, t) else if c = CHR ''+'' then (False, t) else (False, s))
      in if ds = [] \<or> \<not> list_all is_digit ds then None else ParseInt64 neg (dec_val ds))"

definition pool_size :: "environ \<Rightarrow> int" where
  "pool_size env =
     (case Atoi (GetEnv env ''WORKER_POOL_SIZE'' ''3'') of
        None \<Rightarrow> 3
      | Some n \<Rightarrow> if n \<le> 0 then 3 else n)"

definition metrics_addr :: "string \<Rightarrow> string" where
  "metrics_addr port = '':'' @ port"

section \<open>Connecting to the database\<close>

text \<open>What an attempt meets: \<open>sql.Open\<close> refuses, the ping fails, or the database answers.\<close>

datatype probe = OpenFails | PingFails | PingAnswers

datatype pool_event = SqlOpen | SqlPing | ClosePool | LimitPool nat nat int | SleepFor int

datatype connected = Connected | GaveUp int "probe option"

function connect_loop :: "(int \<Rightarrow> probe) \<Rightarrow> int \<Rightarrow> int \<Rightarrow> int \<Rightarrow> probe option \<Rightarrow> pool_event list \<times> connected" where
  "connect_loop attempt maxRetries retryInterval i err =
     (if i \<le> maxRetries
      then let pause = (if i < maxRetries then [SleepFor retryInterval] else []);
               again = connect_loop attempt maxRetries retryInterval (i + 1) (Some (attempt i))
           in case attempt i of
                PingAnswers \<Rightarrow> ([SqlOpen, SqlPing, LimitPool 10 5 300000000000], Connected)
              | PingFails \<Rightarrow> ([SqlOpen, SqlPing, ClosePool] @ pause @ fst again, snd again)
              | OpenFails \<Rightarrow> ([SqlOpen] @ pause @ fst again, snd again)
      else ([], GaveUp maxRetries err))"
  by pat_completeness auto

termination
  by (relation "measure (\<lambda>(attempt, maxRetries, retryInterval, i, err). nat (maxRetries + 1 - i))") auto

declare connect_loop.simps [simp del]

definition ConnectPostgres :: "(int \<Rightarrow> probe) \<Rightarrow> int \<Rightarrow> int \<Rightarrow> pool_event list \<times> connected" where
  "ConnectPostgres attempt maxRetries retryInterval = connect_loop attempt maxRetries retryInterval 1 None"

section \<open>What the loop does\<close>

fun slept :: "pool_event list \<Rightarrow> int" where
  "slept [] = 0"
| "slept (SleepFor d # es) = d + slept es"
| "slept (_ # es) = slept es"

text \<open>The pools that were opened by a successful \<open>sql.Open\<close>, pinged and not closed\<close>

fun pools_left :: "pool_event list \<Rightarrow> int" where
  "pools_left [] = 0"
| "pools_left (SqlPing # es) = 1 + pools_left es"
| "pools_left (ClosePool # es) = pools_left es - 1"
| "pools_left (_ # es) = pools_left es"

definition attempts :: "pool_event list \<Rightarrow> nat" where
  "attempts es = length (filter (\<lambda>e. e = SqlOpen) es)"

lemma event_simps [simp]:
  "slept (es @ es') = slept es + slept es'"
  "pools_left (es @ es') = pools_left es + pools_left es'"
  "attempts (es @ es') = attempts es + attempts es'" "attempts [] = 0" "attempts (e # es) = (if e = SqlOpen then Suc (attempts es) else attempts es)"
  by (induction es rule: slept.induct; simp add: attempts_def)
     (induction es rule: pools_left.induct; simp add: attempts_def)+

definition failed_attempt :: "probe \<Rightarrow> pool_event list" where
  "failed_attempt p = (if p = PingFails then [SqlOpen, SqlPing, ClosePool] else [SqlOpen])"

lemma failed_attempt_simps [simp]:
  "attempts (failed_attempt p) = 1" "slept (failed_attempt p) = 0" "pools_left (failed_attempt p) = 0"
  by (simp_all add: failed_attempt_def)

lemma connect_loop_cases:
  obtains (Stop) "n < i" "connect_loop attempt n d i err = ([], GaveUp n err)"
  | (Answered) "i \<le> n" "attempt i = PingAnswers"
      "connect_loop attempt n d i err = ([SqlOpen, SqlPing, LimitPool 10 5 300000000000], Connected)"
  | (Again) "i \<le> n" "attempt i \<noteq> PingAnswers"
      "connect_loop attempt n d i err =
         (failed_attempt (attempt i) @ (if i < n then [SleepFor d] else []) @ fst (connect_loop attempt n d (i + 1) (Some (attempt i))),
          snd (connect_loop attempt n d (i + 1) (Some (attempt i))))"
  by (cases "i \<le> n"; cases "attempt i") (auto simp: connect_loop.simps [of _ _ _ i] failed_attempt_def Let_def)

text \<open>The first attempt from \<open>i\<close> on that the database answers decides.\<close>

lemma connect_loop_result:
  "snd (connect_loop attempt n d i err) =
     (if \<exists>k \<in> {i..n}. attempt k = PingAnswers then Connected
      else GaveUp n (if i \<le> n then Some (attempt n) else err))"
proof (induction "nat (n + 1 - i)" arbitrary: i err)
  case (Suc m)
  have step: "{i..n} = insert i {i + 1..n}" using Suc.hyps(2) by auto
  have "snd (connect_loop attempt n d (i + 1) (Some (attempt i))) =
     (if \<exists>k \<in> {i + 1..n}. attempt k = PingAnswers then Connected
      else GaveUp n (if i + 1 \<le> n then Some (attempt n) else Some (attempt i)))"
    using Suc.hyps by (intro Suc.hyps(1)) simp
  moreover have "i \<le> n" "\<not> i + 1 \<le> n \<Longrightarrow> attempt i = attempt n"

  proof -
    show "i \<le> n" using Suc.hyps(2) by simp
    moreover assume "\<not> i + 1 \<le> n"
    ultimately have "i = n" by simp
    then show "attempt i = attempt n" by simp
  qed
  ultimately show ?case
    by (cases rule: connect_loop_cases [of n i attempt d err]) (auto simp: step)
qed (simp add: connect_loop.simps [of _ _ _ i for i])

lemma connect_loop_bounds:
  assumes "0 \<le> d"
  shows "int (attempts (fst (connect_loop attempt n d i err))) \<le> max 0 (n + 1 - i)
    \<and> slept (fst (connect_loop attempt n d i err)) \<le> max 0 (n - i) * d
    \<and> pools_left (fst (connect_loop attempt n d i err)) = (if snd (connect_loop attempt n d i err) = Connected then 1 else 0)"
proof (induction "nat (n + 1 - i)" arbitrary: i err)
  case (Suc m)
  have "m = nat (n + 1 - (i + 1))" using Suc.hyps(2) by simp
  note IH = Suc.hyps(1) [OF this, of "Some (attempt i)"]
  have "i \<le> n" using Suc.hyps(2) by simp
  then have pause: "(if i < n then d else 0) + max 0 (n - (i + 1)) * d = max 0 (n - i) * d" by (simp add: algebra_simps max_def)
  have count: "max 0 (n + 1 - (i + 1)) + 1 = max 0 (n + 1 - i)" using \<open>i \<le> n\<close> by simp
  show ?case
  proof (cases rule: connect_loop_cases [of n i attempt d err])
    case Again
    show ?thesis
    proof (cases "i < n")
      case True
      then show ?thesis using Again IH pause count by auto
    next
      case False
      then have "n = i" using \<open>i \<le> n\<close> by simp
      then show ?thesis using Again IH by auto
    qed
  qed (use assms in auto)
qed (simp add: connect_loop.simps [of _ _ _ i for i] assms)



end
