(* ===== verification/StartupProps.thy ===== *)
theory StartupProps imports Startup LedgerTorn begin

text \<open>
  What the services promise about their start: which credentials they use, which ledger the validator
  accepts, and in which order they come up.
\<close>

section \<open>Credentials\<close>

fun tls_of :: "act \<Rightarrow> tls_mode option" where
  "tls_of (ServeGrpc m) = Some m"
| "tls_of (Dial addr m) = Some m"
| "tls_of _ = None"

definition tls_used :: "act list \<times> 'b \<times> 'a option \<Rightarrow> tls_mode set" where
  "tls_used r = {m. \<exists>a \<in> set (fst r). tls_of a = Some m}"

definition expected_tls :: "environ \<Rightarrow> string \<Rightarrow> string \<Rightarrow> string \<Rightarrow> tls_mode" where
  "expected_tls env cert key name =
     (if tls_configured env cert key
      then MutualTLS (GetEnv env ''TLS_CA_CERT'' []) (GetEnv env cert []) (GetEnv env key []) name
      else Insecure)"

lemmas start_defs = and_then_def doing_def with_broker_def deferring_def or_else_def perform_def open_assets_def

lemma and_then_tls:
  assumes "tls_used (m b) \<subseteq> M" "\<And>t b' x. m b = (t, b', Some x) \<Longrightarrow> tls_used (f x b') \<subseteq> M"
  shows "tls_used (and_then m f b) \<subseteq> M"
  using assms by (force simp: and_then_def tls_used_def split: prod.splits option.splits)

lemma step_tls [simp]:
  "tls_of a = None \<Longrightarrow> tls_used (doing a ok b) = {}" "tls_of a = None \<Longrightarrow> tls_used (perform a b) = {}"
  "tls_used (doing (ServeGrpc mode) ok b) = {mode}" "tls_used (doing (Dial addr mode) ok b) = {mode}"
  "tls_used (open_database w b) = {}" "tls_used (spawn_workers n b) = {}" "tls_used (load_tls w cert key name b) = {}"
  "tls_used (open_assets w b) = {}" "tls_used (add_stream w name ss b) = {}" "tls_used (queue_subscribe w s q d b) = {}"
  "tls_of a = None \<Longrightarrow> tls_used (deferring a m b) = tls_used (m b)" "tls_of a = None \<Longrightarrow> tls_used (or_else m a b) = tls_used (m b)"
  by (auto simp: tls_used_def start_defs open_database_def spawn_workers_def load_tls_def add_stream_def queue_subscribe_def Let_def
      split: prod.splits option.splits connected.splits)

lemma load_tls_expected: "load_tls w cert key name b = (t, b', Some m) \<Longrightarrow> m = expected_tls (w_env w) cert key name"
  by (auto simp: load_tls_def expected_tls_def Let_def split: if_splits option.splits)

lemma or_else_Some: "or_else m a b = (t, b', Some x) \<Longrightarrow> m b = (t, b', Some x)"
  by (auto simp: or_else_def split: prod.splits option.splits)

lemmas startup_defs = start_metrics_def migrate_def open_nats_def server_tls_def client_tls_def Let_def


section \<open>The ledger at the start\<close>

text \<open>
  The validator only starts on a ledger that verifies.  When the verification of the file fails,
  whatever else holds, the process ends with an error before it has connected to the database or the
  broker: no event reaches it.  A line that was torn by a crash is enough, and nothing in the program
  repairs the file, so every later start ends in the same way.
\<close>

theorem altered_ledger_stops_validator:
  assumes "Verify_ledger (w_ledger_env w) (w_ledger w path) \<noteq> None" "path = GetEnv (w_env w) ''LEDGER_PATH'' ''./data/ledger.log''"
  shows "\<exists>port t. validator_main w b = (t, b, None)
    \<and> t \<in> {[Metrics port, MakeLedgerDir path], [Metrics port, MakeLedgerDir path, VerifyLedger path]}"
  using assms by (auto simp: validator_main_def start_defs startup_defs)

section \<open>The order of the starts\<close>

text \<open>
  Everything but the broker's streams works: the database answers in time, the files load and the
  addresses are free.
\<close>

definition all_works :: "'b world \<Rightarrow> bool" where
  "all_works w \<longleftrightarrow> (\<forall>dsn. \<exists>k \<in> {1..10}. w_probe w dsn k = PingAnswers)
     \<and> (\<forall>path. \<exists>content. w_file w path = Some content \<and> w_ddl w content \<and> w_pem w content)
     \<and> (\<forall>cert key. w_keypair w cert key) \<and> (\<forall>url. w_nats w url) \<and> w_jetstream w \<and> (\<forall>port. w_listen w port)
     \<and> (\<forall>addr. w_client w addr) \<and> (\<forall>path. w_ledger_dir w path) \<and> w_serve w
     \<and> (\<forall>path. Verify_ledger (w_ledger_env w) (w_ledger w path) = None)"

text \<open>
  What JetStream documents: \<open>AddStream\<close> creates the stream or finds it, and then it captures the
  subjects; a subscription needs a stream that captures its subject, and changes no stream.
\<close>

definition jetstream :: "'b world \<Rightarrow> ('b \<Rightarrow> string \<Rightarrow> bool) \<Rightarrow> bool" where
  "jetstream w offers \<longleftrightarrow>
     (\<forall>name ss b. \<exists>b'. w_add_stream w name ss b = Some b' \<and> (\<forall>s. offers b' s \<longleftrightarrow> offers b s \<or> s \<in> set ss))
     \<and> (\<forall>s q d b. if offers b s then \<exists>b'. w_subscribe w s q d b = Some b' \<and> offers b' = offers b
          else w_subscribe w s q d b = None)"

definition comes_up :: "act list \<times> 'b \<times> unit option \<Rightarrow> bool" where
  "comes_up r \<longleftrightarrow> (\<exists>a \<in> set (fst r). a = AwaitSignal \<or> (\<exists>mode. a = ServeGrpc mode))"

definition broker_after :: "act list \<times> 'b \<times> unit option \<Rightarrow> 'b" where
  "broker_after r = fst (snd r)"

lemma database_opens:
  assumes "all_works w"
  obtains es where "\<And>b. open_database w b = (map Pool es, b, Some ())"
proof -
  let ?run = "ConnectPostgres (w_probe w (GetEnv (w_env w) ''DATABASE_URL'' default_database)) 10 3000000000"
  have "snd ?run = Connected"
    using assms by (simp add: ConnectPostgres_def connect_loop_result all_works_def)
  then obtain es where "?run = (es, Connected)" by (cases ?run) simp
  then have "open_database w b = (map Pool es, b, Some ())" for b by (simp add: open_database_def)
  then show thesis by (rule that)
qed

lemma file_loads:
  assumes "all_works w"
  obtains content where "w_file w path = Some content" "w_ddl w content" "w_pem w content"
  using assms unfolding all_works_def by blast

lemma tls_loads:
  assumes "all_works w"
  shows "load_tls w cert key name b = ([], b, Some (expected_tls (w_env w) cert key name))"
proof -
  obtain c where "w_file w (GetEnv (w_env w) ''TLS_CA_CERT'' []) = Some c" "w_pem w c" using assms by (rule file_loads)
  moreover have "w_keypair w f g" for f g using assms by (simp add: all_works_def)
  ultimately show ?thesis by (simp add: load_tls_def expected_tls_def Let_def)
qed

lemma migrates:
  assumes "all_works w"
  shows "(case w_file w path of None \<Rightarrow> False | Some content \<Rightarrow> w_ddl w content)"
proof -
  obtain c where "w_file w path = Some c" "w_ddl w c" using assms by (rule file_loads)
  then show ?thesis by simp
qed

lemma works:
  assumes "all_works w"
  shows "w_nats w url" "w_jetstream w" "w_listen w port" "w_client w addr" "w_ledger_dir w path" "w_serve w"
    "Verify_ledger (w_ledger_env w) (w_ledger w path) = None"
  using assms by (simp_all add: all_works_def)

definition reaches :: "('b \<Rightarrow> string \<Rightarrow> bool) \<Rightarrow> act list \<times> 'b \<times> unit option \<Rightarrow> (string \<Rightarrow> bool) \<Rightarrow> bool" where
  "reaches offers r subjects \<longleftrightarrow> comes_up r \<and> (\<forall>s. offers (broker_after r) s \<longleftrightarrow> subjects s)"

lemma stream_added:
  assumes "jetstream w offers"
  obtains b' where "w_add_stream w name [x] b = Some b'" "\<forall>s. offers b' s \<longleftrightarrow> offers b s \<or> s = x"
proof -
  obtain b' where "w_add_stream w name [x] b = Some b'" "\<forall>s. offers b' s \<longleftrightarrow> offers b s \<or> s \<in> set [x]"
    using assms unfolding jetstream_def by blast
  then show thesis by (intro that) simp_all
qed

lemma subscribed:
  assumes "jetstream w offers"
  obtains "\<not> offers b s" "w_subscribe w s q d b = None"
  | b' where "offers b s" "w_subscribe w s q d b = Some b'" "offers b' = offers b"
  using assms unfolding jetstream_def by meson

lemmas run_defs = start_defs startup_defs add_stream_def queue_subscribe_def reaches_def comes_up_def broker_after_def

lemma intent_up:
  assumes "all_works w" "jetstream w offers"
  shows "reaches offers (intent_main w b) (\<lambda>s. offers b s \<or> s = ''intents.submitted.*'')"
proof -
  obtain es where db: "\<And>b. open_database w b = (map Pool es, b, Some ())" using assms(1) by (rule database_opens) auto
  obtain b' where b': "w_add_stream w ''INTENTS'' [''intents.submitted.*''] b = Some b'"
    "\<forall>s. offers b' s \<longleftrightarrow> offers b s \<or> s = ''intents.submitted.*''"
    using assms(2) by (rule stream_added)
  then show ?thesis
    by (simp add: intent_main_def run_defs db tls_loads [OF assms(1)] works [OF assms(1)] migrates [OF assms(1)])
qed

lemma scheduler_up:
  assumes "all_works w" "jetstream w offers"
  shows "if offers b ''intents.submitted.*''
    then reaches offers (scheduler_main w b) (\<lambda>s. offers b s \<or> s = ''tasks.scheduled.*'')
    else \<not> comes_up (scheduler_main w b) \<and> snd (snd (scheduler_main w b)) = None"
proof -
  obtain es where db: "\<And>b. open_database w b = (map Pool es, b, Some ())" using assms(1) by (rule database_opens) auto
  obtain b' where b': "w_add_stream w ''TASKS'' [''tasks.scheduled.*''] b = Some b'"
    "\<forall>s. offers b' s \<longleftrightarrow> offers b s \<or> s = ''tasks.scheduled.*''"
    using assms(2) by (rule stream_added)
  show ?thesis
    using assms(2)
  proof (cases rule: subscribed [of _ _ b' "''intents.submitted.*''" "''scheduler-group''" "''scheduler''"])
  qed (use b' in \<open>auto simp: scheduler_main_def run_defs db works [OF assms(1)]\<close>)
qed

lemma validator_up:
  assumes "all_works w" "jetstream w offers"
  shows "reaches offers (validator_main w b) (\<lambda>s. offers b s \<or> s = ''intents.executed.*'')"
proof -
  obtain es where db: "\<And>b. open_database w b = (map Pool es, b, Some ())" using assms(1) by (rule database_opens) auto
  obtain b' where b': "w_add_stream w ''EXECUTIONS'' [''intents.executed.*''] b = Some b'"
    "\<forall>s. offers b' s \<longleftrightarrow> offers b s \<or> s = ''intents.executed.*''"
    using assms(2) by (rule stream_added)
  show ?thesis
    using assms(2)
  proof (cases rule: subscribed [of _ _ b' "''intents.executed.*''" "''validator-group''" "''validator''"])
  qed (use b' in \<open>auto simp: validator_main_def run_defs db works [OF assms(1)]\<close>)
qed

lemma execution_up:
  assumes "all_works w" "jetstream w offers"
  shows "if offers b ''tasks.scheduled.*'' then reaches offers (execution_main w b) (offers b)
    else \<not> comes_up (execution_main w b) \<and> snd (snd (execution_main w b)) = None"
proof -
  obtain es where db: "\<And>b. open_database w b = (map Pool es, b, Some ())" using assms(1) by (rule database_opens) auto
  show ?thesis
    using assms(2)
  proof (cases rule: subscribed [of _ _ b "''tasks.scheduled.*''" "''execution-engine-group''" "''execution-engine''"])
  qed (auto simp: execution_main_def run_defs spawn_workers_def db tls_loads [OF assms(1)] works [OF assms(1)])
qed

fun start_all :: "'b \<Rightarrow> ('b, unit) start list \<Rightarrow> bool list" where
  "start_all b [] = []"
| "start_all b (m # ms) = comes_up (m b) # start_all (broker_after (m b)) ms"


section \<open>Instances\<close>

text \<open>A broker as the list of the subjects its streams capture\<close>

definition sample_world :: "string list world" where
  "sample_world = \<lparr>w_env = Map.empty, w_probe = (\<lambda>_ k. if k = 2 then PingAnswers else PingFails), w_file = (\<lambda>_. Some []),
     w_keypair = (\<lambda>_ _. True), w_pem = (\<lambda>_. True), w_ddl = (\<lambda>_. True), w_nats = (\<lambda>_. True), w_jetstream = True,
     w_add_stream = (\<lambda>name ss b. Some (ss @ b)), w_subscribe = (\<lambda>s q d b. if s \<in> set b then Some b else None),
     w_listen = (\<lambda>_. True), w_client = (\<lambda>_. True), w_redis = (\<lambda>_. True), w_assets = True, w_serve = True,
     w_ledger_dir = (\<lambda>_. True),
     w_ledger_env = \<lparr>le_open_fails = False, le_read_fails = None, le_create_fails = False, le_write_fails = None,
       le_sync_fails = False, le_now = 0, le_zone = 0\<rparr>,
     w_ledger = (\<lambda>_. None)\<rparr>"


lemma altered_ledger_stops_validator_witness:
  "snd (snd (validator_main (sample_world\<lparr>w_ledger := (\<lambda>_. Some ''x'')\<rparr>) [])) = None"
proof -
  let ?w = "sample_world\<lparr>w_ledger := (\<lambda>_. Some ''x'')\<rparr>"
  have e: "le_ok (w_ledger_env ?w)" by (simp add: le_ok_def sample_world_def)
  have "holds None []" by (simp add: holds_def)
  moreover have "parse_block ''x'' = None" "newline \<noteq> CHR ''x''" by code_simp+
  ultimately have "Verify_ledger (w_ledger_env ?w) (Some ''x'') = Some ParseFailed"
    using Verify_bad_line [OF e, of None "[]" "''x''" "''x''"] by (simp add: complete_file_def complete_data_def max_token_def dropCR_def)
  then show ?thesis using altered_ledger_stops_validator [of ?w "''./data/ledger.log''" "[]"]
    by (auto simp: sample_world_def GetEnv_def)
qed

end
