(* ===== verification/Certs.thy ===== *)
theory Certs imports Startup begin

text \<open>
  The certificates of the mutual TLS between the services: \<open>scripts/generate_certs.go\<close>, which makes them,
  and what the \<open>tls.Config\<close> of the four \<open>main\<close> functions requires of a handshake.  Keys are numbers, the
  public half of a key in a certificate is that number, and a signature is the number of the signing key:
  the primitives of RSA are taken to be ideal.  The offset of the local zone is constant.
\<close>

section \<open>Certificates\<close>

datatype key_usage = DigitalSignature | CertSign | KeyEncipherment

datatype ext_usage = ServerAuth | ClientAuth

record template =
  ct_serial :: int
  ct_organization :: "string list"
  ct_common_name :: string
  ct_not_before :: time
  ct_not_after :: time
  ct_key_usage :: "key_usage list"
  ct_ext_usage :: "ext_usage list"
  ct_is_ca :: bool
  ct_basic_constraints :: bool
  ct_dns :: "string list"
  ct_ips :: "string list"

record certificate =
  cert_template :: template
  cert_issuer :: "string list \<times> string"
  cert_key :: nat
  cert_signer :: nat

datatype der = CertDer certificate | KeyDer nat

datatype pem_file = Pem string der | TornFile

type_synonym cert_dir = "string \<rightharpoonup> pem_file"

text \<open>\<open>Time.AddDate(years, 0, 0)\<close>: the same day and time of the later year; a 29th of February may become a 1st of March.\<close>

definition civil_days :: "int \<Rightarrow> int \<Rightarrow> int \<Rightarrow> int" where
  "civil_days y m d =
     (let y' = (if m \<le> 2 then y - 1 else y); era = y' div 400; yoe = y' mod 400;
          mp = (if m > 2 then m - 3 else m + 9);
          doy = (153 * mp + 2) div 5 + d - 1
      in era * 146097 + yoe * 365 + yoe div 4 - yoe div 100 + doy - 719468)"

definition AddDate_years :: "int \<Rightarrow> int \<Rightarrow> time \<Rightarrow> time" where
  "AddDate_years offset years t =
     (let s = t div second + offset
      in case civil_date (s div 86400) of
           (y, m, d) \<Rightarrow> (civil_days (y + years) m d * 86400 + s mod 86400 - offset) * second + t mod second)"

text \<open>\<open>x509.CreateCertificate\<close>: the times are stored in whole seconds, the issuer is the parent's subject.\<close>

definition whole_second :: "time \<Rightarrow> time" where
  "whole_second t = t div second * second"

definition CreateCertificate :: "template \<Rightarrow> template \<Rightarrow> nat \<Rightarrow> nat \<Rightarrow> der" where
  "CreateCertificate tpl parent pub key =
     CertDer \<lparr>cert_template = tpl\<lparr>ct_not_before := whole_second (ct_not_before tpl), ct_not_after := whole_second (ct_not_after tpl)\<rparr>,
       cert_issuer = (ct_organization parent, ct_common_name parent), cert_key = pub, cert_signer = key\<rparr>"

fun ParseCertificate :: "der \<Rightarrow> certificate option" where
  "ParseCertificate (CertDer c) = Some c"
| "ParseCertificate (KeyDer k) = None"

section \<open>Making the certificates\<close>

text \<open>
  What a run meets: each of the three makers draws a key and a serial number, reads the clock twice, and
  may have its certificate refused; each file may be refused or left incomplete.
\<close>

datatype save = Saved | NotCreated | NotWritten

datatype maker = MakeCA | MakeServer | MakeClient

record cert_env =
  ce_mkdir :: bool
  ce_key :: "maker \<Rightarrow> nat option"
  ce_serial :: "maker \<Rightarrow> int option"
  ce_now :: "maker \<Rightarrow> time \<times> time"
  ce_zone :: int
  ce_create :: "maker \<Rightarrow> bool"
  ce_save :: "string \<Rightarrow> save"

definition savePEM :: "cert_env \<Rightarrow> string \<Rightarrow> string \<Rightarrow> der \<Rightarrow> cert_dir \<Rightarrow> bool \<times> cert_dir" where
  "savePEM e filename pemType derBytes fs =
     (case ce_save e filename of
        Saved \<Rightarrow> (True, fs(filename \<mapsto> Pem pemType derBytes))
      | NotCreated \<Rightarrow> (False, fs)
      | NotWritten \<Rightarrow> (False, fs(filename \<mapsto> TornFile)))"

definition generateCA :: "cert_env \<Rightarrow> cert_dir \<Rightarrow> (nat \<times> der) option \<times> cert_dir" where
  "generateCA e fs =
     (case (ce_key e MakeCA, ce_serial e MakeCA) of
        (Some priv, Some serial) \<Rightarrow>
          let tpl = \<lparr>ct_serial = serial, ct_organization = [''AIEN Authority''], ct_common_name = ''AIEN Root CA'',
                ct_not_before = fst (ce_now e MakeCA), ct_not_after = AddDate_years (ce_zone e) 10 (snd (ce_now e MakeCA)),
                ct_key_usage = [DigitalSignature, CertSign], ct_ext_usage = [ClientAuth, ServerAuth],
                ct_is_ca = True, ct_basic_constraints = True, ct_dns = [], ct_ips = []\<rparr>;
              derBytes = CreateCertificate tpl tpl priv priv
          in if \<not> ce_create e MakeCA then (None, fs)
             else case savePEM e ''certs/ca.pem'' ''CERTIFICATE'' derBytes fs of
                    (ok, fs1) \<Rightarrow> (if ok then Some (priv, derBytes) else None, fs1)
      | _ \<Rightarrow> (None, fs))"

text \<open>What \<open>generateServerCert\<close> and \<open>generateClientCert\<close> have in common: they differ in the template and the file names.\<close>

definition issue :: "cert_env \<Rightarrow> maker \<Rightarrow> (int \<Rightarrow> template) \<Rightarrow> string \<Rightarrow> string \<Rightarrow> nat \<times> der \<Rightarrow> cert_dir \<Rightarrow> bool \<times> cert_dir" where
  "issue e who tpl certFile keyFile ca fs =
     (case (ParseCertificate (snd ca), ce_key e who, ce_serial e who) of
        (Some caCert, Some priv, Some serial) \<Rightarrow>
          if \<not> ce_create e who then (False, fs)
          else (case savePEM e certFile ''CERTIFICATE'' (CreateCertificate (tpl serial) (cert_template caCert) priv (fst ca)) fs of
                  (ok, fs1) \<Rightarrow> if \<not> ok then (False, fs1) else savePEM e keyFile ''PRIVATE KEY'' (KeyDer priv) fs1)
      | _ \<Rightarrow> (False, fs))"

definition server_template :: "cert_env \<Rightarrow> int \<Rightarrow> template" where
  "server_template e serial =
     \<lparr>ct_serial = serial, ct_organization = [''AIEN Service''], ct_common_name = ''intent-service'',
      ct_not_before = fst (ce_now e MakeServer), ct_not_after = AddDate_years (ce_zone e) 2 (snd (ce_now e MakeServer)),
      ct_key_usage = [DigitalSignature, KeyEncipherment], ct_ext_usage = [ServerAuth],
      ct_is_ca = False, ct_basic_constraints = False,
      ct_dns = [''localhost'', ''intent-service'', ''wallet'', ''wallet-service''], ct_ips = [''127.0.0.1'', ''0.0.0.0'']\<rparr>"

definition client_template :: "cert_env \<Rightarrow> int \<Rightarrow> template" where
  "client_template e serial =
     \<lparr>ct_serial = serial, ct_organization = [''AIEN Client''], ct_common_name = ''gateway'',
      ct_not_before = fst (ce_now e MakeClient), ct_not_after = AddDate_years (ce_zone e) 2 (snd (ce_now e MakeClient)),
      ct_key_usage = [DigitalSignature, KeyEncipherment], ct_ext_usage = [ClientAuth],
      ct_is_ca = False, ct_basic_constraints = False, ct_dns = [''localhost'', ''gateway''], ct_ips = []\<rparr>"

definition generateServerCert :: "cert_env \<Rightarrow> nat \<times> der \<Rightarrow> cert_dir \<Rightarrow> bool \<times> cert_dir" where
  "generateServerCert e = issue e MakeServer (server_template e) ''certs/server-cert.pem'' ''certs/server-key.pem''"

definition generateClientCert :: "cert_env \<Rightarrow> nat \<times> der \<Rightarrow> cert_dir \<Rightarrow> bool \<times> cert_dir" where
  "generateClientCert e = issue e MakeClient (client_template e) ''certs/client-cert.pem'' ''certs/client-key.pem''"

datatype generated = Generated | NoDirectory | NoCA | NoServerCert | NoClientCert

definition generate_certs_main :: "cert_env \<Rightarrow> cert_dir \<Rightarrow> generated \<times> cert_dir" where
  "generate_certs_main e fs =
     (if \<not> ce_mkdir e then (NoDirectory, fs)
      else case generateCA e fs of
             (None, fs1) \<Rightarrow> (NoCA, fs1)
           | (Some ca, fs1) \<Rightarrow>
      case generateServerCert e ca fs1 of (ok, fs2) \<Rightarrow>
      if \<not> ok then (NoServerCert, fs2)
      else case generateClientCert e ca fs2 of (ok, fs3) \<Rightarrow>
      (if ok then Generated else NoClientCert, fs3))"

section \<open>Using them\<close>

text \<open>\<open>tls.LoadX509KeyPair\<close> and \<open>AppendCertsFromPEM\<close> on these files\<close>

definition load_pair :: "cert_dir \<Rightarrow> string \<Rightarrow> string \<Rightarrow> certificate option" where
  "load_pair fs certFile keyFile =
     (case (fs certFile, fs keyFile) of
        (Some (Pem pt (CertDer c)), Some (Pem pt' (KeyDer k))) \<Rightarrow>
          if pt = ''CERTIFICATE'' \<and> pt' = ''PRIVATE KEY'' \<and> cert_key c = k then Some c else None
      | _ \<Rightarrow> None)"

definition load_root :: "cert_dir \<Rightarrow> string \<Rightarrow> certificate option" where
  "load_root fs caFile =
     (case fs caFile of Some (Pem pt (CertDer c)) \<Rightarrow> if pt = ''CERTIFICATE'' then Some c else None | _ \<Rightarrow> None)"

definition valid_at :: "time \<Rightarrow> certificate \<Rightarrow> bool" where
  "valid_at now c \<longleftrightarrow> ct_not_before (cert_template c) \<le> now \<and> now \<le> ct_not_after (cert_template c)"

text \<open>The chain of a certificate and the only root: both are valid and of the usage, and the root has signed it.\<close>

definition chain_ok :: "time \<Rightarrow> ext_usage \<Rightarrow> certificate \<Rightarrow> certificate \<Rightarrow> bool" where
  "chain_ok now usage anchor c \<longleftrightarrow>
     valid_at now c \<and> valid_at now anchor \<and> cert_signer c = cert_key anchor
     \<and> cert_issuer c = (ct_organization (cert_template anchor), ct_common_name (cert_template anchor))
     \<and> ct_basic_constraints (cert_template anchor) \<and> ct_is_ca (cert_template anchor)
     \<and> CertSign \<in> set (ct_key_usage (cert_template anchor))
     \<and> usage \<in> set (ct_ext_usage (cert_template anchor)) \<and> usage \<in> set (ct_ext_usage (cert_template c))"

text \<open>
  A client that has loaded its mode dials a server that has loaded its own: the client verifies the
  server's certificate for its server name, and the server requires and verifies the client's.
\<close>

fun handshake :: "cert_dir \<Rightarrow> time \<Rightarrow> tls_mode \<Rightarrow> tls_mode \<Rightarrow> bool" where
  "handshake fs now (MutualTLS ca cert key name) (MutualTLS ca' cert' key' name') =
     (case (load_root fs ca, load_pair fs cert key, load_root fs ca', load_pair fs cert' key') of
        (Some anchor, Some server, Some anchor', Some client) \<Rightarrow>
          chain_ok now ServerAuth anchor' server \<and> name' \<in> set (ct_dns (cert_template server)) \<and> chain_ok now ClientAuth anchor client
      | _ \<Rightarrow> False)"
| "handshake fs now Insecure Insecure = True"
| "handshake fs now _ _ = False"

definition server_mode :: "tls_mode" where
  "server_mode = MutualTLS ''certs/ca.pem'' ''certs/server-cert.pem'' ''certs/server-key.pem'' []"

definition client_mode :: "string \<Rightarrow> tls_mode" where
  "client_mode name = MutualTLS ''certs/ca.pem'' ''certs/client-cert.pem'' ''certs/client-key.pem'' name"

section \<open>What a run leaves\<close>

lemma savePEM_cases:
  assumes "savePEM e f pt d fs = (ok, fs')"
  shows "if ok then fs' = fs(f \<mapsto> Pem pt d) else fs' = fs \<or> fs' = fs(f \<mapsto> TornFile)"
  using assms by (auto simp: savePEM_def split: save.splits)

text \<open>What the maker \<open>who\<close> has made of its key, its template and the authority\<close>

definition issued :: "cert_env \<Rightarrow> maker \<Rightarrow> (int \<Rightarrow> template) \<Rightarrow> nat \<times> der \<Rightarrow> certificate \<Rightarrow> bool" where
  "issued e who tpl ca c \<longleftrightarrow>
     (\<exists>caCert serial. ParseCertificate (snd ca) = Some caCert \<and> ce_key e who = Some (cert_key c)
        \<and> CertDer c = CreateCertificate (tpl serial) (cert_template caCert) (cert_key c) (fst ca))"

lemma issue_steps:
  assumes "issue e who tpl f k ca fs = (ok, fs')"
  obtains (Nothing) "\<not> ok" "fs' = fs"
  | (Begun) c saved fs1 where "issued e who tpl ca c" "savePEM e f ''CERTIFICATE'' (CertDer c) fs = (saved, fs1)"
      "if saved then savePEM e k ''PRIVATE KEY'' (KeyDer (cert_key c)) fs1 = (ok, fs') else \<not> ok \<and> fs' = fs1"
proof (cases "ok \<or> fs' \<noteq> fs")
  case True
  then obtain caCert priv serial where i: "ParseCertificate (snd ca) = Some caCert" "ce_key e who = Some priv" "ce_serial e who = Some serial"
    "ce_create e who"
    using assms by (auto simp: issue_def split: option.splits if_splits)
  obtain c where c: "CreateCertificate (tpl serial) (cert_template caCert) priv (fst ca) = CertDer c" "cert_key c = priv"
    by (simp add: CreateCertificate_def)
  obtain saved fs1 where s: "savePEM e f ''CERTIFICATE'' (CertDer c) fs = (saved, fs1)" by fastforce
  have "issued e who tpl ca c" using i(1,2) c unfolding issued_def by metis
  moreover have "if saved then savePEM e k ''PRIVATE KEY'' (KeyDer (cert_key c)) fs1 = (ok, fs') else \<not> ok \<and> fs' = fs1"
    using assms i c s by (auto simp: issue_def)
  ultimately show thesis using s by (intro Begun)
next
  case False
  then show thesis by (intro Nothing) simp_all
qed

lemma issue_ok:
  assumes "issue e who tpl f k ca fs = (True, fs')"
  obtains c where "issued e who tpl ca c" "fs' = fs(f \<mapsto> Pem ''CERTIFICATE'' (CertDer c), k \<mapsto> Pem ''PRIVATE KEY'' (KeyDer (cert_key c)))"
  using assms
proof (cases rule: issue_steps)
  case (Begun c saved fs1)
  with that [of c] show thesis
    using savePEM_cases [of e f "''CERTIFICATE''" "CertDer c" fs saved fs1]
      savePEM_cases [of e k "''PRIVATE KEY''" "KeyDer (cert_key c)" fs1 True fs'] by (simp split: if_splits)
qed simp

lemma issue_others: "issue e who tpl f k ca fs = (ok, fs') \<Longrightarrow> g \<noteq> f \<Longrightarrow> g \<noteq> k \<Longrightarrow> fs' g = fs g"
  by (erule issue_steps) (auto simp: savePEM_def split: save.splits if_splits)

text \<open>After a failure the pair on the disk is the old one or does not load, unless the old key was drawn again.\<close>

lemma issue_failed:
  assumes "issue e who tpl f k ca fs = (False, fs')" "f \<noteq> k" "load_pair fs f k = Some c0" "ce_key e who \<noteq> Some (cert_key c0)"
  shows "load_pair fs' f k \<in> {None, Some c0}"
proof -
  have old: "fs k = Some (Pem ''PRIVATE KEY'' (KeyDer (cert_key c0)))"
    using assms(3) by (auto simp: load_pair_def split: option.splits pem_file.splits der.splits if_splits)
  from assms(1) show ?thesis
  proof (cases rule: issue_steps)
    case (Begun c saved fs1)
    have "cert_key c \<noteq> cert_key c0" using Begun(1) assms(4) by (auto simp: issued_def)
    then show ?thesis
      using Begun(2,3) old assms(2,3)
      by (cases "fs' = fs") (auto simp: savePEM_def load_pair_def split: save.splits if_splits)
  qed (use assms in simp)
qed

definition ca_certificate :: "cert_env \<Rightarrow> nat \<Rightarrow> int \<Rightarrow> certificate" where
  "ca_certificate e priv serial =
     \<lparr>cert_template = \<lparr>ct_serial = serial, ct_organization = [''AIEN Authority''], ct_common_name = ''AIEN Root CA'',
        ct_not_before = whole_second (fst (ce_now e MakeCA)),
        ct_not_after = whole_second (AddDate_years (ce_zone e) 10 (snd (ce_now e MakeCA))),
        ct_key_usage = [DigitalSignature, CertSign], ct_ext_usage = [ClientAuth, ServerAuth],
        ct_is_ca = True, ct_basic_constraints = True, ct_dns = [], ct_ips = []\<rparr>,
      cert_issuer = ([''AIEN Authority''], ''AIEN Root CA''), cert_key = priv, cert_signer = priv\<rparr>"

lemma generateCA_made:
  assumes "generateCA e fs = (Some ca, fs')"
  obtains priv serial where "ce_key e MakeCA = Some priv" "ca = (priv, CertDer (ca_certificate e priv serial))"
    "fs' = fs(''certs/ca.pem'' \<mapsto> Pem ''CERTIFICATE'' (CertDer (ca_certificate e priv serial)))"
  using assms
  by (auto simp: generateCA_def Let_def CreateCertificate_def ca_certificate_def savePEM_def split: option.splits save.splits if_splits)

lemma issuedD:
  assumes "issued e who tpl (priv, CertDer anchor) c"
  obtains serial where "ce_key e who = Some (cert_key c)" "cert_signer c = priv"
    "cert_issuer c = (ct_organization (cert_template anchor), ct_common_name (cert_template anchor))"
    "cert_template c = (tpl serial)\<lparr>ct_not_before := whole_second (ct_not_before (tpl serial)),
       ct_not_after := whole_second (ct_not_after (tpl serial))\<rparr>"
proof -
  obtain serial where "ce_key e who = Some (cert_key c)"
    "c = \<lparr>cert_template = (tpl serial)\<lparr>ct_not_before := whole_second (ct_not_before (tpl serial)),
       ct_not_after := whole_second (ct_not_after (tpl serial))\<rparr>,
      cert_issuer = (ct_organization (cert_template anchor), ct_common_name (cert_template anchor)),
      cert_key = cert_key c, cert_signer = priv\<rparr>" (is "c = ?c serial")
    using assms by (auto simp: issued_def CreateCertificate_def)
  moreover from this(2) have "cert_signer c = cert_signer (?c serial)" "cert_issuer c = cert_issuer (?c serial)"
    "cert_template c = cert_template (?c serial)" by simp_all
  ultimately show thesis by (intro that [of serial]) simp_all
qed

text \<open>The times at which the three certificates of a run are all valid\<close>

definition validity :: "cert_env \<Rightarrow> time set" where
  "validity e =
     {now. \<forall>(who, years) \<in> {(MakeCA, 10), (MakeServer, 2), (MakeClient, 2)}.
        whole_second (fst (ce_now e who)) \<le> now \<and> now \<le> whole_second (AddDate_years (ce_zone e) years (snd (ce_now e who)))}"

lemma generated_files:
  assumes "generate_certs_main e fs = (Generated, fs')"
  obtains priv serial server client where
    "ce_key e MakeCA = Some priv"
    "issued e MakeServer (server_template e) (priv, CertDer (ca_certificate e priv serial)) server"
    "issued e MakeClient (client_template e) (priv, CertDer (ca_certificate e priv serial)) client"
    "load_root fs' ''certs/ca.pem'' = Some (ca_certificate e priv serial)"
    "load_pair fs' ''certs/server-cert.pem'' ''certs/server-key.pem'' = Some server"
    "load_pair fs' ''certs/client-cert.pem'' ''certs/client-key.pem'' = Some client"
proof -
  obtain ca fs1 fs2 where run: "generateCA e fs = (Some ca, fs1)" "generateServerCert e ca fs1 = (True, fs2)"
    "generateClientCert e ca fs2 = (True, fs')"
    using assms by (auto simp: generate_certs_main_def split: option.splits prod.splits if_splits)
  obtain priv serial where ca: "ce_key e MakeCA = Some priv" "ca = (priv, CertDer (ca_certificate e priv serial))"
    "fs1 = fs(''certs/ca.pem'' \<mapsto> Pem ''CERTIFICATE'' (CertDer (ca_certificate e priv serial)))"
    using run(1) by (rule generateCA_made)
  obtain server where s: "issued e MakeServer (server_template e) ca server"
    "fs2 = fs1(''certs/server-cert.pem'' \<mapsto> Pem ''CERTIFICATE'' (CertDer server),
       ''certs/server-key.pem'' \<mapsto> Pem ''PRIVATE KEY'' (KeyDer (cert_key server)))"
    using run(2) unfolding generateServerCert_def by (rule issue_ok)
  obtain client where c: "issued e MakeClient (client_template e) ca client"
    "fs' = fs2(''certs/client-cert.pem'' \<mapsto> Pem ''CERTIFICATE'' (CertDer client),
       ''certs/client-key.pem'' \<mapsto> Pem ''PRIVATE KEY'' (KeyDer (cert_key client)))"
    using run(3) unfolding generateClientCert_def by (rule issue_ok)
  show thesis using ca s c by (intro that [of priv serial server client]) (simp_all add: load_root_def load_pair_def)
qed


text \<open>
  C34. A renewal that is interrupted stops the platform's TLS.  When certificates are in place and the
  generator is run again, and it fails after it has replaced the authority, then with the files it leaves
  no client and server agree any more, at any time and for any name: the old client certificate is not of
  the new authority, and a new one has no key.
\<close>

theorem interrupted_renewal_stops_tls:
  assumes "generate_certs_main e fs0 = (Generated, fs)" "generate_certs_main e' fs = (r, fs')" "r \<in> {NoServerCert, NoClientCert}"
    and "ce_key e' MakeCA \<noteq> ce_key e MakeCA" "ce_key e' MakeClient \<noteq> ce_key e MakeClient"
  shows "\<not> handshake fs' now server_mode (client_mode name)"
proof -
  obtain priv serial client where old: "ce_key e MakeCA = Some priv"
    "issued e MakeClient (client_template e) (priv, CertDer (ca_certificate e priv serial)) client"
    "load_pair fs ''certs/client-cert.pem'' ''certs/client-key.pem'' = Some client"
    using assms(1) by (rule generated_files)
  obtain ca fs1 ok fs2 where run: "generateCA e' fs = (Some ca, fs1)" "generateServerCert e' ca fs1 = (ok, fs2)"
    "\<not> ok \<and> fs' = fs2 \<or> ok \<and> generateClientCert e' ca fs2 = (False, fs')"
    using assms(2,3) by (auto simp: generate_certs_main_def split: option.splits prod.splits if_splits)
  obtain priv' serial' where ca: "ce_key e' MakeCA = Some priv'"
    "fs1 = fs(''certs/ca.pem'' \<mapsto> Pem ''CERTIFICATE'' (CertDer (ca_certificate e' priv' serial')))"
    using run(1) by (rule generateCA_made)
  have same: "fs2 g = fs1 g" if "g \<notin> {''certs/server-cert.pem'', ''certs/server-key.pem''}" for g
    using run(2) that by (intro issue_others [of e' MakeServer "server_template e'" "''certs/server-cert.pem''" "''certs/server-key.pem''" ca])
      (simp_all add: generateServerCert_def)
  have pair2: "load_pair fs2 ''certs/client-cert.pem'' ''certs/client-key.pem'' = Some client"
    using old(3) same by (simp add: load_pair_def ca(2))
  have root2: "load_root fs2 ''certs/ca.pem'' = Some (ca_certificate e' priv' serial')" using same by (simp add: load_root_def ca(2))
  have "load_pair fs' ''certs/client-cert.pem'' ''certs/client-key.pem'' \<in> {None, Some client}
      \<and> load_root fs' ''certs/ca.pem'' = Some (ca_certificate e' priv' serial')"
    using run(3)
  proof
    assume "\<not> ok \<and> fs' = fs2"
    with pair2 root2 show ?thesis by simp
  next
    assume "ok \<and> generateClientCert e' ca fs2 = (False, fs')"
    then have i: "issue e' MakeClient (client_template e') ''certs/client-cert.pem'' ''certs/client-key.pem'' ca fs2 = (False, fs')"
      by (simp add: generateClientCert_def)
    have "ce_key e' MakeClient \<noteq> Some (cert_key client)" using assms(5) old(2) by (auto simp: issued_def)
    from issue_failed [OF i _ pair2 this] issue_others [OF i, of "''certs/ca.pem''"] root2 show ?thesis
      by (simp add: load_root_def)
  qed
  moreover have "\<not> chain_ok now ClientAuth (ca_certificate e' priv' serial') client"
    using old(2)
  proof (rule issuedD)
    assume "cert_signer client = priv"
    then show ?thesis using old(1) ca(1) assms(4) by (auto simp: chain_ok_def ca_certificate_def)
  qed
  ultimately show ?thesis by (auto simp: server_mode_def client_mode_def split: option.splits)
qed

section \<open>Instances\<close>

definition sample_certs :: "nat \<Rightarrow> cert_env" where
  "sample_certs k = \<lparr>ce_mkdir = True, ce_key = (\<lambda>who. Some (3 * k + (case who of MakeCA \<Rightarrow> 0 | MakeServer \<Rightarrow> 1 | MakeClient \<Rightarrow> 2))),
     ce_serial = (\<lambda>_. Some 1), ce_now = (\<lambda>_. (0, 0)), ce_zone = 0, ce_create = (\<lambda>_. True), ce_save = (\<lambda>_. Saved)\<rparr>"

lemma sample_generated: "\<exists>fs'. generate_certs_main (sample_certs k) fs = (Generated, fs')"
  by (simp add: generate_certs_main_def generateCA_def generateServerCert_def generateClientCert_def issue_def savePEM_def
      sample_certs_def CreateCertificate_def Let_def)

text \<open>Certificates made at the beginning of 1970 are valid until the beginning of 1972, after 730 days.\<close>

lemma sample_validity: "now \<in> validity (sample_certs k) \<longleftrightarrow> 0 \<le> now \<and> now \<le> 730 * 86400 * second"
proof -
  have "AddDate_years 0 2 0 = 730 * 86400 * second" "AddDate_years 0 10 0 = 3652 * 86400 * second" by code_simp+
  then show ?thesis by (auto simp: validity_def sample_certs_def whole_second_def second_def)
qed


lemma interrupted_renewal_stops_tls_witness:
  "\<exists>fs fs'. generate_certs_main (sample_certs 0) Map.empty = (Generated, fs)
    \<and> generate_certs_main ((sample_certs 1)\<lparr>ce_save := (\<lambda>f. if f = ''certs/client-key.pem'' then NotWritten else Saved)\<rparr>) fs = (NoClientCert, fs')
    \<and> \<not> handshake fs' 0 server_mode (client_mode ''wallet'')"
proof -
  let ?e = "(sample_certs 1)\<lparr>ce_save := (\<lambda>f. if f = ''certs/client-key.pem'' then NotWritten else Saved)\<rparr>"
  obtain fs where run: "generate_certs_main (sample_certs 0) Map.empty = (Generated, fs)" using sample_generated by blast
  obtain fs' where run': "generate_certs_main ?e fs = (NoClientCert, fs')"
    by (simp add: generate_certs_main_def generateCA_def generateServerCert_def generateClientCert_def issue_def savePEM_def
      sample_certs_def CreateCertificate_def Let_def)
  have "\<not> handshake fs' 0 server_mode (client_mode ''wallet'')"
    by (rule interrupted_renewal_stops_tls [OF run run']) (simp_all add: sample_certs_def)
  with run run' show ?thesis by blast
qed

end
