(* ===== verification/Tools.thy ===== *)
theory Tools imports GatewayRuns Execution begin

text \<open>
  The command-line clients: \<open>scripts/keygen.go\<close>, which makes keys and signs requests, and
  \<open>scripts/load_test_csv.go\<close>, which logs in to the gateway and submits the transfers of a CSV file.
  Parameters of the model: the records \<open>encoding/csv\<close> reads from the file, \<open>strconv.ParseFloat\<close> on a
  field, and the text \<open>encoding/json\<close> writes for a float.
\<close>

section \<open>Making keys and signing requests\<close>

datatype keygen_result =
    KgUsage
  | KgInvalidKey
  | KgSignError crypto_error
  | KgRequest SubmitIntentHTTPRequest bytes
  | KgRandomError crypto_error
  | KgKeys string string

definition keygen_main :: "ed25519 \<Rightarrow> bytes option \<Rightarrow> string list \<Rightarrow> keygen_result" where
  "keygen_main ed random args =
     (if args \<noteq> [] \<and> args ! 0 = ''--sign''
      then if length args < 5 then KgUsage
           else let privKeyHex = args ! 1; intentType = args ! 2; submitterID = args ! 3; payload = args ! 4
           in case DecodeString privKeyHex of
                None \<Rightarrow> KgInvalidKey
              | Some privBytes \<Rightarrow>
                  if length privBytes \<noteq> 64 then KgInvalidKey
                  else let pubKeyHex = EncodeToString (drop 32 privBytes);
                           signBytes = GetSignBytes intentType submitterID payload
                  in case Sign ed signBytes privKeyHex of
                       Inl err \<Rightarrow> KgSignError err
                     | Inr signature \<Rightarrow>
                         KgRequest \<lparr>sh_Type = intentType, sh_Payload = payload, sh_SubmitterID = submitterID,
                             sh_Signature = signature, sh_SubmitterPublicKey = pubKeyHex, sh_Constraints = None\<rparr> signBytes
      else case GenerateKeyPair ed random of
             Inl err \<Rightarrow> KgRandomError err
           | Inr (pubHex, privHex) \<Rightarrow> KgKeys pubHex privHex)"

section \<open>Reading the transfers\<close>

text \<open>
  What the reader returns, call by call: a record, or an error (None); the end of the list is the end of
  the file.  A record has as many fields as the first one, or the reader reports an error.
\<close>

type_synonym csv = "string list option list"

text \<open>\<open>headerMap\<close>: of equal names the last one counts.\<close>

definition header_index :: "string list \<Rightarrow> string \<Rightarrow> nat option" where
  "header_index headers name =
     foldl (\<lambda>found (i, h). if h = name then Some i else found) None (zip [0..<length headers] headers)"

fun read_rows ::
  "(string \<Rightarrow> float64 option) \<Rightarrow> nat \<times> nat \<times> nat \<times> nat \<Rightarrow> int \<Rightarrow> csv \<Rightarrow> transfer_payload list \<Rightarrow> transfer_payload list option" where
  "read_rows parse_float (t, a, f, d) limit [] list = Some list"
| "read_rows parse_float (t, a, f, d) limit (None # rows) list = None"
| "read_rows parse_float (t, a, f, d) limit (Some row # rows) list =
     (if row ! t \<noteq> ''TRANSFER'' then read_rows parse_float (t, a, f, d) limit rows list
      else case parse_float (row ! a) of
             None \<Rightarrow> read_rows parse_float (t, a, f, d) limit rows list
           | Some amount \<Rightarrow>
               let list' = list @ [\<lparr>tp_from = row ! f, tp_to = row ! d, tp_amount = amount\<rparr>]
               in if int (length list') \<ge> limit then Some list'
                  else read_rows parse_float (t, a, f, d) limit rows list')"

definition readTransactionsFromCSV :: "(string \<Rightarrow> float64 option) \<Rightarrow> csv \<Rightarrow> int \<Rightarrow> transfer_payload list option" where
  "readTransactionsFromCSV parse_float rs limit =
     (case rs of
        [] \<Rightarrow> None
      | None # rows \<Rightarrow> None
      | Some headers # rows \<Rightarrow>
          (case (header_index headers ''type'', header_index headers ''amount'',
                 header_index headers ''nameOrig'', header_index headers ''nameDest'') of
             (Some t, Some a, Some f, Some d) \<Rightarrow> read_rows parse_float (t, a, f, d) limit rows []
           | _ \<Rightarrow> None))"

section \<open>Seeding the balances\<close>

definition seed_balance :: "numeric" where
  "seed_balance = Num (1000000000 * 100000000)"

definition seed_account :: "int \<Rightarrow> string \<Rightarrow> (string \<rightharpoonup> account) \<Rightarrow> (string \<rightharpoonup> account)" where
  "seed_account now acct m =
     (if m acct = None then m(acct \<mapsto> \<lparr>balance = seed_balance, created_at = now, updated_at = now\<rparr>) else m)"

text \<open>
  The accounts come in the order of a Go map, which is arbitrary; when \<open>Begin\<close>, \<open>Prepare\<close> or an insertion
  fails the transaction rolls back, and a commit may fail or lose its answer.
\<close>

definition preseedBalances :: "int \<Rightarrow> bool \<Rightarrow> (string \<Rightarrow> bool) \<Rightarrow> stmt \<Rightarrow> string list \<Rightarrow> wallet_db \<Rightarrow> bool \<times> wallet_db" where
  "preseedBalances now tx_fails exec_fails commit uniqueAccounts db =
     (if tx_fails \<or> list_ex exec_fails uniqueAccounts then (False, db)
      else stmt_result commit db (db\<lparr>accounts := fold (seed_account now) uniqueAccounts (accounts db)\<rparr>))"

definition unique_accounts :: "transfer_payload list \<Rightarrow> string set" where
  "unique_accounts txs = tp_from ` set txs \<union> tp_to ` set txs"

section \<open>Logging in and submitting\<close>

definition login_request :: "string \<Rightarrow> http_request" where
  "login_request addr = \<lparr>rq_method = ''POST'', rq_path = ''/api/login'', rq_query = [], rq_authorization = [], rq_remote = addr,
     rq_body = Some (jenc (JObject [(''password'', JString ''aien-admin-2026''), (''username'', JString ''admin'')]))\<rparr>"

text \<open>A \<open>map[string]string\<close>: every member is a string or null, which is the empty string; the last one of a name counts.\<close>

definition string_map :: "json \<Rightarrow> (string \<rightharpoonup> string) option" where
  "string_map v =
     (case v of
        JNull \<Rightarrow> Some Map.empty
      | JObject ms \<Rightarrow>
          if list_all (\<lambda>(k, x). case x of JString _ \<Rightarrow> True | JNull \<Rightarrow> True | _ \<Rightarrow> False) ms
          then Some (map_of (rev (map (\<lambda>(k, x). (k, case x of JString s \<Rightarrow> s | _ \<Rightarrow> [])) ms)))
          else None
      | _ \<Rightarrow> None)"

definition login_token :: "http_response \<Rightarrow> string option" where
  "login_token resp =
     (if rs_status resp \<noteq> 200 then None
      else case json_prefix (rs_body resp) of
             None \<Rightarrow> None
           | Some (v, rest) \<Rightarrow> Option.bind (string_map v) (\<lambda>m. m ''token''))"

text \<open>\<open>json.Marshal\<close> refuses a float that is not a number; its error is ignored and the payload is empty.\<close>

definition transfer_text :: "(float64 \<Rightarrow> bytes) \<Rightarrow> transfer_payload \<Rightarrow> bytes" where
  "transfer_text fmt tx =
     (case tp_amount tx of
        Fin q \<Rightarrow> jenc (JObject [(''from'', JString (tp_from tx)), (''to'', JString (tp_to tx)), (''amount'', JNumber (fmt (Fin q)))])
      | _ \<Rightarrow> [])"

definition signed_transfer ::
  "(float64 \<Rightarrow> bytes) \<Rightarrow> ed25519 \<Rightarrow> string \<Rightarrow> string \<Rightarrow> transfer_payload \<Rightarrow> crypto_error + SubmitIntentHTTPRequest" where
  "signed_transfer fmt ed pubKey privKey tx =
     (let payloadStr = transfer_text fmt tx
      in case Sign ed (GetSignBytes ''INTENT_TYPE_TRANSFER'' (tp_from tx) payloadStr) privKey of
           Inl err \<Rightarrow> Inl err
         | Inr signature \<Rightarrow>
             Inr \<lparr>sh_Type = ''TRANSFER'', sh_Payload = payloadStr, sh_SubmitterID = tp_from tx, sh_Signature = signature,
                  sh_SubmitterPublicKey = pubKey, sh_Constraints = None\<rparr>)"

definition submit_request :: "string \<Rightarrow> string \<Rightarrow> SubmitIntentHTTPRequest \<Rightarrow> http_request" where
  "submit_request addr jwtToken x = \<lparr>rq_method = ''POST'', rq_path = ''/intents'', rq_query = [],
     rq_authorization = ''Bearer '' @ jwtToken, rq_remote = addr, rq_body = Some (client_body x)\<rparr>"

text \<open>
  The workers take the jobs off a channel, so each transfer is submitted once; the list is the order in
  which the gateway meets them, with what surrounds each call.
\<close>

fun submit_transfers ::
  "gw_config \<Rightarrow> ed25519 \<Rightarrow> ('e, 's) Store \<Rightarrow> (float64 \<Rightarrow> bytes) \<Rightarrow> string \<Rightarrow> string \<Rightarrow> string \<Rightarrow> string
   \<Rightarrow> ('e gw_env \<times> rpc \<times> transfer_payload) list \<Rightarrow> nat \<times> nat \<times> 's gw_state \<Rightarrow> nat \<times> nat \<times> 's gw_state" where
  "submit_transfers cfg ed S fmt addr jwtToken pubKey privKey [] r = r"
| "submit_transfers cfg ed S fmt addr jwtToken pubKey privKey ((e, call, tx) # jobs) (successCount, failCount, st) =
     submit_transfers cfg ed S fmt addr jwtToken pubKey privKey jobs
       (case signed_transfer fmt ed pubKey privKey tx of
          Inl _ \<Rightarrow> (successCount, failCount + 1, st)
        | Inr x \<Rightarrow>
            (case call of
               RpcLost \<Rightarrow> (successCount, failCount + 1, st)
             | RpcUnanswered \<Rightarrow> (successCount, failCount + 1, snd (serve_http cfg ed S e (submit_request addr jwtToken x) st))
             | RpcAnswered \<Rightarrow>
                 (case serve_http cfg ed S e (submit_request addr jwtToken x) st of
                    (resp, st') \<Rightarrow> if rs_status resp = 201 then (successCount + 1, failCount, st')
                                   else (successCount, failCount + 1, st'))))"

section \<open>The load test\<close>

text \<open>
  What a run meets: the login, the file, the database, the order in which the map of the accounts is
  enumerated and the transfers arrive at the gateway, and what surrounds each of them.
\<close>

record load_env =
  lt_login :: "pg_env gw_env \<times> rpc"
  lt_csv :: "csv option"
  lt_opens :: bool
  lt_truncate_transactions :: stmt
  lt_truncate_accounts :: stmt
  lt_now :: int
  lt_tx_fails :: bool
  lt_exec_fails :: "string \<Rightarrow> bool"
  lt_commit :: stmt
  lt_accounts :: "string list"
  lt_random :: "bytes option"
  lt_arrival :: "transfer_payload list \<Rightarrow> transfer_payload list"
  lt_calls :: "nat \<Rightarrow> pg_env gw_env \<times> rpc"

datatype load_result =
    LtNoLogin | LtNoCsv | LtNoDatabase | LtNoTruncate | LtNoSeed | LtNoKeys
  | LtReport nat nat

text \<open>The two \<open>TRUNCATE\<close> statements of the option \<open>-clean\<close>\<close>

definition clean_tables :: "load_env \<Rightarrow> intent_db \<Rightarrow> wallet_db \<Rightarrow> bool \<times> intent_db \<times> wallet_db" where
  "clean_tables e db w =
     (case stmt_result (lt_truncate_transactions e) (db, w) (\<lparr>intent_rows = [], outbox_rows = []\<rparr>, w\<lparr>transactions := []\<rparr>) of
        (False, db1, w1) \<Rightarrow> (False, db1, w1)
      | (True, db1, w1) \<Rightarrow>
          (case stmt_result (lt_truncate_accounts e) w1 (w1\<lparr>accounts := Map.empty\<rparr>) of (ok, w2) \<Rightarrow> (ok, db1, w2)))"

text \<open>The transfers in the order of their arrival, each with its call; without workers nothing is submitted.\<close>

definition load_jobs :: "load_env \<Rightarrow> int \<Rightarrow> transfer_payload list \<Rightarrow> (pg_env gw_env \<times> rpc \<times> transfer_payload) list" where
  "load_jobs e concurrency txs =
     (let arrived = (if mset (lt_arrival e txs) = mset txs then lt_arrival e txs else txs)
      in if concurrency \<le> 0 then []
         else map (\<lambda>(k, tx). (fst (lt_calls e k), snd (lt_calls e k), tx)) (zip [0..<length arrived] arrived))"

definition loginToGateway ::
  "gw_config \<Rightarrow> ed25519 \<Rightarrow> codecs \<Rightarrow> load_env \<Rightarrow> string \<Rightarrow> intent_db gw_state \<Rightarrow> string option \<times> intent_db gw_state" where
  "loginToGateway cfg ed c e addr st =
     (case lt_login e of
        (ge, RpcLost) \<Rightarrow> (None, st)
      | (ge, RpcUnanswered) \<Rightarrow> (None, snd (serve_http cfg ed (postgres_store c) ge (login_request addr) st))
      | (ge, RpcAnswered) \<Rightarrow>
          (case serve_http cfg ed (postgres_store c) ge (login_request addr) st of (resp, st') \<Rightarrow> (login_token resp, st')))"

definition load_test_main ::
  "gw_config \<Rightarrow> ed25519 \<Rightarrow> codecs \<Rightarrow> (string \<Rightarrow> float64 option) \<Rightarrow> (float64 \<Rightarrow> bytes) \<Rightarrow> load_env \<Rightarrow> string
   \<Rightarrow> int \<Rightarrow> int \<Rightarrow> bool \<Rightarrow> wallet_db \<times> intent_db gw_state \<Rightarrow> load_result \<times> wallet_db \<times> intent_db gw_state" where
  "load_test_main cfg ed c parse_float fmt e addr limit concurrency clean ws =
     (case ws of (w, st) \<Rightarrow>
      case loginToGateway cfg ed c e addr st of
        (None, st1) \<Rightarrow> (LtNoLogin, w, st1)
      | (Some jwtToken, st1) \<Rightarrow>
      case Option.bind (lt_csv e) (\<lambda>rs. readTransactionsFromCSV parse_float rs limit) of
        None \<Rightarrow> (LtNoCsv, w, st1)
      | Some txs \<Rightarrow>
      if \<not> lt_opens e then (LtNoDatabase, w, st1)
      else case (if clean then clean_tables e (gs_backend st1) w else (True, gs_backend st1, w)) of
        (cleaned, db2, w2) \<Rightarrow>
      let st2 = st1\<lparr>gs_backend := db2\<rparr>
      in if \<not> cleaned then (LtNoTruncate, w2, st2)
      else case preseedBalances (lt_now e) (lt_tx_fails e) (lt_exec_fails e) (lt_commit e) (lt_accounts e) w2 of
        (seeded, w3) \<Rightarrow>
      if \<not> seeded then (LtNoSeed, w3, st2)
      else case GenerateKeyPair ed (lt_random e) of
        Inl err \<Rightarrow> (LtNoKeys, w3, st2)
      | Inr (pubKey, privKey) \<Rightarrow>
          (case submit_transfers cfg ed (postgres_store c) fmt addr jwtToken pubKey privKey (load_jobs e concurrency txs) (0, 0, st2) of
             (successCount, failCount, st3) \<Rightarrow> (LtReport successCount failCount, w3, st3)))"

end
