(* ===== verification/ToolsProps.thy ===== *)
theory ToolsProps imports Tools begin

text \<open>
  What the command-line clients do: the load test's transfers pass the gateway and arrive at the execution
  engine as they were read, and the requests \<open>keygen\<close> prints are never accepted.
\<close>

section \<open>The transfers that are read\<close>

definition row_transfer :: "(string \<Rightarrow> float64 option) \<Rightarrow> nat \<times> nat \<times> nat \<times> nat \<Rightarrow> string list \<Rightarrow> transfer_payload option" where
  "row_transfer parse_float ix row = (case ix of (t, a, f, d) \<Rightarrow>
     if row ! t \<noteq> ''TRANSFER'' then None
     else map_option (\<lambda>x. \<lparr>tp_from = row ! f, tp_to = row ! d, tp_amount = x\<rparr>) (parse_float (row ! a)))"

text \<open>At least one transfer is taken when there is one: a limit of zero or below counts as one.\<close>

lemma read_rows_take:
  assumes "int (length list) < max 1 limit"
  shows "read_rows parse_float ix limit (map Some rows) list =
    Some (take (nat (max 1 limit)) (list @ List.map_filter (row_transfer parse_float ix) rows))"
  using assms
proof (induction rows arbitrary: list)
  case Nil
  then show ?case by (cases ix) (simp add: map_filter_simps)
next
  case (Cons row rows)
  obtain t a f d where ix: "ix = (t, a, f, d)" by (cases ix)
  show ?case
  proof (cases "row_transfer parse_float ix row")
    case None
    then have "read_rows parse_float ix limit (map Some (row # rows)) list = read_rows parse_float ix limit (map Some rows) list"
      by (auto simp: row_transfer_def ix split: if_splits option.splits)
    with None Cons show ?thesis by (simp add: map_filter_simps)
  next
    case (Some x)
    then have step: "read_rows parse_float ix limit (map Some (row # rows)) list =
        (if int (length (list @ [x])) \<ge> limit then Some (list @ [x]) else read_rows parse_float ix limit (map Some rows) (list @ [x]))"
      by (auto simp: row_transfer_def ix Let_def split: if_splits)
    show ?thesis
    proof (cases "int (length (list @ [x])) \<ge> limit")
      case True
      then have "nat (max 1 limit) = length (list @ [x])" using Cons.prems by auto
      with True Some step show ?thesis by (simp add: map_filter_simps)
    next
      case False
      with Cons.IH [of "list @ [x]"] Some step show ?thesis by (simp add: map_filter_simps)
    qed
  qed
qed

lemma seed_accounts:
  assumes "preseedBalances now tx_fails exec_fails commit accts db = (True, db')"
  shows "accounts db' a = (if accounts db a = None \<and> a \<in> set accts
      then Some \<lparr>balance = seed_balance, created_at = now, updated_at = now\<rparr> else accounts db a)"
proof -
  have "fold (seed_account now) accts m a =
      (if m a = None \<and> a \<in> set accts then Some \<lparr>balance = seed_balance, created_at = now, updated_at = now\<rparr> else m a)" for m
    by (induction accts arbitrary: m) (auto simp: seed_account_def)
  then show ?thesis using assms by (auto simp: preseedBalances_def stmt_result_def split: if_splits stmt.splits)
qed

lemma submit_counts:
  "submit_transfers cfg ed S fmt addr jwtToken pubKey privKey jobs (n, m, st) = (n', m', st') \<Longrightarrow> n' + m' = n + m + length jobs"
  by (induction jobs arbitrary: n m st) (auto split: sum.splits rpc.splits prod.splits if_splits)

text \<open>The report accounts for every transfer that was read, and for none without workers.\<close>

lemma report_counts:
  assumes "load_test_main cfg ed c parse_float fmt e addr limit concurrency clean ws = (LtReport n m, ws')"
  shows "\<exists>rs txs. lt_csv e = Some rs \<and> readTransactionsFromCSV parse_float rs limit = Some txs
    \<and> n + m = (if concurrency \<le> 0 then 0 else length txs)"
proof -
  have "\<exists>rs txs. lt_csv e = Some rs \<and> readTransactionsFromCSV parse_float rs limit = Some txs
      \<and> n + m = length (load_jobs e concurrency txs)"
    using assms unfolding load_test_main_def Let_def
    by (auto split: prod.splits option.splits sum.splits if_splits simp: bind_eq_Some_conv dest: submit_counts)
  moreover have "length (load_jobs e concurrency txs) = (if concurrency \<le> 0 then 0 else length txs)" for txs
    by (auto simp: load_jobs_def Let_def dest: mset_eq_length)
  ultimately show ?thesis by metis
qed

section \<open>The requests of \<open>keygen\<close>\<close>

lemma call_rpc_refused: "\<exists>err'. call_rpc cfg call err strings (Inl x, b) b = (Inl err', b)"
  by (cases x; cases call) (simp_all add: call_rpc_def)

lemma submitIntent_unsigned:
  assumes "\<not> well_signed ed (to_grpc (gw_parseIntentType (sh_Type x)) x)" "Option.bind (rq_body r) parse_submit = Some x"
  shows "rs_status (fst (submitIntent cfg ed S e hs r st)) \<noteq> 201 \<and> gs_backend (snd (submitIntent cfg ed S e hs r st)) = gs_backend st"
proof (cases "submits r x \<and> cached_text e (gs_redis st) (sh_Signature x) = []")
  case True
  obtain err where "SubmitIntent ed S (ge_backend e) (gs_backend st) (to_grpc (gw_parseIntentType (sh_Type x)) x) = (Inl err, gs_backend st)"
    using SubmitIntent_refused [OF assms(1)] by metis
  then obtain err' where "call_rpc cfg (ge_rpc e) (ge_rpc_error e) [sh_SubmitterID x, sh_Signature x, sh_SubmitterPublicKey x]
      (SubmitIntent ed S (ge_backend e) (gs_backend st) (to_grpc (gw_parseIntentType (sh_Type x)) x)) (gs_backend st) = (Inl err', gs_backend st)"
    using call_rpc_refused by metis
  from submit_miss [OF conjunct1 [OF True] conjunct2 [OF True] this] show ?thesis
    by (simp add: handleGRPCError_def writeError_def writeJSON_def http_code_of_def Let_def)
next
  case False
  show ?thesis
  proof (cases "submits r x")
    case True
    with False have "cached_text e (gs_redis st) (sh_Signature x) \<noteq> []" by simp
    from submit_hit [OF True refl this, of cfg ed S hs] show ?thesis by auto
  next
    case nosub: False
    have "\<forall>y. \<not> submits r y" using nosub assms(2) by (auto simp: submits_def)
    from submit_refused [OF this, of cfg ed S e hs st] show ?thesis by simp
  qed
qed

text \<open>
  The signing tool does not fit the service.  Whatever type is given to \<open>keygen --sign\<close>, the request
  it prints is refused by the gateway, in every state of everything behind it: it signs the type as it is
  given, the service verifies the name of the protobuf enumeration, and the gateway does not accept that
  name as a type; unless the signature is by chance one of that other text as well.
\<close>

theorem keygen_request_refused:
  assumes "keygen_main ed random (''--sign'' # privHex # typ # sub # payload # rest) = KgRequest x signBytes"
    and "DecodeString privHex = Some priv"
    and "\<not> ed_verify ed (drop 32 priv) (GetSignBytes (''INTENT_TYPE_'' @ typ) sub payload) (ed_sign ed priv (GetSignBytes typ sub payload))"
    and "Option.bind (rq_body r) parse_submit = Some x"
  shows "rs_status (fst (submitIntent cfg ed S e hs r st)) \<noteq> 201 \<and> gs_backend (snd (submitIntent cfg ed S e hs r st)) = gs_backend st"
proof (rule submitIntent_unsigned [OF _ assms(4)])
  have x: "x = \<lparr>sh_Type = typ, sh_Payload = payload, sh_SubmitterID = sub,
      sh_Signature = EncodeToString (ed_sign ed priv (GetSignBytes typ sub payload)),
      sh_SubmitterPublicKey = EncodeToString (drop 32 priv), sh_Constraints = None\<rparr>"
    using assms(1,2) by (auto simp: keygen_main_def Sign_def Let_def split: if_splits)
  have "IntentType_String (gw_parseIntentType typ) = ''INTENT_TYPE_'' @ typ \<or> gw_parseIntentType typ = INTENT_TYPE_UNSPECIFIED"
    by (simp add: gw_parseIntentType_def)
  then show "\<not> well_signed ed (to_grpc (gw_parseIntentType (sh_Type x)) x)"
    using assms(3) by (auto simp: well_signed_def to_grpc_def x Verify_def split: if_splits)
qed

section \<open>The load test\<close>

lemma b64_ascii: "ascii (RawURL_Encode s)"
proof -
  have "byte (b64_char n) < 128" if "n < 64" for n using that by (auto simp: b64_char_def)
  then show ?thesis using Encode_chars [of _ s] by (fastforce simp: ascii_def)
qed

lemma token_valid: "valid_utf8 (generateJWT secret now user)"
  by (rule ascii_valid) (simp add: generateJWT_def sign_token_def Let_def b64_ascii)

lemma clean_login: "clean_path ''/api/login'' = ''/api/login''"
  by code_simp

lemma login_succeeds:
  "login_token (fst (serve_http cfg ed S e (login_request addr) st)) = Some (generateJWT (jwtSecret cfg) (ge_now e) ''admin'')"
proof -
  let ?tok = "generateJWT (jwtSecret cfg) (ge_now e) ''admin''"
  have "json_prefix (jenc (JObject [(''password'', JString ''aien-admin-2026''), (''username'', JString ''admin'')]) @ []) =
      Some (JObject [(''password'', JString ''aien-admin-2026''), (''username'', JString ''admin'')], [])"
    by (rule json_prefix_object) (simp_all add: ascii_valid)
  then have "parse_login (jenc (JObject [(''password'', JString ''aien-admin-2026''), (''username'', JString ''admin'')])) =
      Some (''admin'', ''aien-admin-2026'')"
    by (simp add: parse_login_def decode_struct_def put_login_def)
  then have login: "handleLogin cfg e [] (login_request addr) = writeJSON [] 200 (JObject [(''token'', JString ?tok)])"
    by (simp add: handleLogin_def login_request_def)
  have ex: "exempt (rq_path (login_request addr))" by (simp add: exempt_def login_request_def)
  have "route_of (login_request addr) = RouteLogin"
    by (simp add: route_of_def login_request_def clean_login)
  then have "fst (serve_http cfg ed S e (login_request addr) st) = writeJSON [] 200 (JObject [(''token'', JString ?tok)])"
    by (simp add: serve_http_def loggingMiddleware_def serve_exempt(1) [OF ex] mux_def login split: prod.splits)
  moreover have "json_prefix (jenc (JObject [(''token'', JString ?tok)]) @ [char_of (10 :: nat)]) =
      Some (JObject [(''token'', JString ?tok)], [char_of (10 :: nat)])"
    by (rule json_prefix_object) (simp_all add: ascii_valid token_valid)
  ultimately show ?thesis by (simp add: login_token_def writeJSON_def jencode_line_def string_map_def)
qed

text \<open>What \<open>encoding/json\<close> writes for a whole number is its decimal digits, which it reads back.\<close>

definition writes_whole :: "(float64 \<Rightarrow> bytes) \<Rightarrow> float64 \<Rightarrow> bool" where
  "writes_whole fmt x \<longleftrightarrow> (\<exists>q k. x = Fin q \<and> fmt x = int_dec k \<and> ParseFloat_lit (int_dec k) = Some x)"

lemma ascii_quote: "ascii s \<Longrightarrow> ascii (quote s)"
proof -
  assume "ascii s"
  then have "ascii (quote_body s)"
  proof (induction s)
    case (Cons c s)
    have "(of_char c :: nat) div 16 < 16" by (rule less_mult_imp_div_less) (use of_char_mod_256 [where 'a = nat, of c] in simp)
    moreover have "(of_char c :: nat) mod 16 < 41" by (rule less_trans [of _ 16]) simp_all
    ultimately have "ascii (escape_ascii c)" using Cons.prems by (simp add: escape_ascii_def hex_low_def backslash_def Let_def)
    with Cons show ?case by simp
  qed simp
  then show ?thesis by (simp add: quote_def dquote_def)
qed

lemma ascii_int_dec: "ascii (int_dec k)"
proof -
  have "ascii (nat_dec n)" for n using nat_dec_digits [of _ n] by (force simp: ascii_def is_digit_def)
  then show ?thesis by (simp add: int_dec_def)
qed

lemma transfer_text_read:
  assumes "writes_whole fmt (tp_amount tx)" "ascii (tp_from tx)" "ascii (tp_to tx)"
  shows "ascii (transfer_text fmt tx)" "parse_transfer (transfer_text fmt tx) = Some tx"
proof -
  obtain q k where k: "tp_amount tx = Fin q" "fmt (Fin q) = int_dec k" "ParseFloat_lit (int_dec k) = Some (Fin q)"
    using assms(1) by (auto simp: writes_whole_def)
  have lit: "transfer_text fmt tx = jenc (JObject [(''from'', JString (tp_from tx)), (''to'', JString (tp_to tx)), (''amount'', JNumber (int_dec k))])"
    by (simp add: transfer_text_def k(1,2))
  have "json_parse (transfer_text fmt tx) =
      Some (JObject [(''from'', JString (tp_from tx)), (''to'', JString (tp_to tx)), (''amount'', JNumber (int_dec k))])"
    unfolding lit by (rule json_parse_object) (use assms(2,3) in \<open>auto simp: ascii_valid\<close>)
  then show "parse_transfer (transfer_text fmt tx) = Some tx"
    using k(1,3) by (cases tx) (simp add: parse_transfer_def decode_struct_def put_transfer_def)
  show "ascii (transfer_text fmt tx)"
    unfolding lit using assms(2,3) by (simp add: ascii_quote ascii_int_dec)
qed


section \<open>Instances\<close>

lemma sample_private: "length (sample_key @ sample_key) = 64" "drop 32 (sample_key @ sample_key) = sample_key"
  "take 32 (sample_key @ sample_key) = sample_key" "length sample_key = 32"
  by (simp_all add: sample_key_def)

lemma keygen_request_refused_witness:
  "\<exists>x signBytes. keygen_main toy_ed None [''--sign'', EncodeToString (sample_key @ sample_key), ''TRANSFER'', ''alice'', ''p''] = KgRequest x signBytes
     \<and> rs_status (fst (submitIntent gw_cfg toy_ed memory_store (at_second 1) [] (sent x) new_state)) \<noteq> 201"
proof -
  let ?priv = "sample_key @ sample_key"
  obtain x sb where x: "keygen_main toy_ed None [''--sign'', EncodeToString ?priv, ''TRANSFER'', ''alice'', ''p''] = KgRequest x sb"
    by (simp add: keygen_main_def Sign_def sample_private(4) Let_def del: Encode_Cons)
  then have xx: "x = \<lparr>sh_Type = ''TRANSFER'', sh_Payload = ''p'', sh_SubmitterID = ''alice'',
      sh_Signature = EncodeToString (ed_sign toy_ed ?priv (GetSignBytes ''TRANSFER'' ''alice'' ''p'')),
      sh_SubmitterPublicKey = EncodeToString sample_key, sh_Constraints = None\<rparr>"
    by (auto simp: keygen_main_def Sign_def sample_private(2,4) Let_def)
  have "parse_submit (client_body x) = Some x"
    by (rule parse_client_body) (simp_all add: xx ascii_valid hex_text_ascii)
  then have body: "Option.bind (rq_body (sent x)) parse_submit = Some x" by (simp add: sent_def post_def)
  have "\<not> ed_verify toy_ed (drop 32 ?priv) (GetSignBytes (''INTENT_TYPE_'' @ ''TRANSFER'') ''alice'' ''p'')
      (ed_sign toy_ed ?priv (GetSignBytes ''TRANSFER'' ''alice'' ''p''))"
    by (simp add: toy_ed_def GetSignBytes_def sample_private)
  from keygen_request_refused [OF x _ this body, of gw_cfg memory_store "at_second 1" "[]" new_state] x show ?thesis by auto
qed

definition sample_transfer :: "transfer_payload" where
  "sample_transfer = \<lparr>tp_from = ''alice'', tp_to = ''bob'', tp_amount = Fin 1\<rparr>"


end
