(* ===== verification/WorkerPool.thy ===== *)
theory WorkerPool imports Execution Config begin

text \<open>
  The worker pool of the execution engine, \<open>execution-engine/main.go\<close>: the subscription's callback,
  which puts each task on a buffered channel, the workers, which take them off it and execute them side
  by side, and the shutdown.  A worker's \<open>executeTask\<close> is cut where it waits for another process: the
  claim, the call of the wallet and the final status are steps of their own.
\<close>

section \<open>The parts of a task's execution\<close>

text \<open>The claim: refused by an error, nothing to do, or the row is now executing\<close>

datatype claim = ClaimError exec_error | NotScheduled | ClaimedRow Intent string

definition claim_task :: "codecs \<Rightarrow> exec_env \<Rightarrow> bytes \<Rightarrow> intent_db \<Rightarrow> claim \<times> intent_db" where
  "claim_task c e msg db =
     (case unmarshal c msg of
        None \<Rightarrow> (ClaimError ExecUnmarshal, db)
      | Some intent \<Rightarrow>
      case uuid_in c (Id intent) of
        None \<Rightarrow> (ClaimError ExecClaim, db)
      | Some u \<Rightarrow>
      let isScheduled = (\<lambda>s. s = ''INTENT_STATUS_SCHEDULED'');
          rows = rows_matching u isScheduled db
      in case stmt_result (ex_claim e) db (set_status u isScheduled ''INTENT_STATUS_EXECUTING'' (ex_db_now e) db) of
           (ok, db1) \<Rightarrow>
             if \<not> ok then (ClaimError ExecClaim, db1)
             else if ex_rows_error e \<or> rows = 0 then (NotScheduled, db1)
             else (ClaimedRow intent u, db1))"

text \<open>The parts in a row are \<open>executeTask\<close>.\<close>

lemma executeTask_parts:
  "executeTask c e msg (db, w, stored) =
     (case claim_task c e msg db of
        (ClaimError x, db1) \<Rightarrow> (Some x, db1, w, stored)
      | (NotScheduled, db1) \<Rightarrow> (None, db1, w, stored)
      | (ClaimedRow intent u, db1) \<Rightarrow>
          (case runExecutionSimulation e intent w of
             (executionErr, w') \<Rightarrow>
               (case finish_task c e intent u executionErr (ex_other e db1) stored of
                  (err, db2, stored') \<Rightarrow> (err, db2, w', stored'))))"
  by (simp add: executeTask_def claim_task_def Let_def split: option.splits prod.splits)

section \<open>The pool\<close>

datatype worker =
    Idle
  | Took bytes
  | Running bytes Intent string
  | Ran bytes Intent string "run_error option"
  | Stopped

datatype phase = Serving | Stopping | Exited | Panicked

record pool =
  p_size :: nat
  p_delivered :: "bytes list"
  p_pending :: "bytes list"
  p_sending :: "bytes option"
  p_tasks :: "bytes list"
  p_closed :: bool
  p_workers :: "worker list"
  p_answers :: "(bytes \<times> bool) list"
  p_db :: intent_db
  p_wallet :: wallet_db
  p_stored :: "message_data list"
  p_phase :: phase

definition new_pool :: "environ \<Rightarrow> intent_db \<Rightarrow> wallet_db \<Rightarrow> message_data list \<Rightarrow> pool" where
  "new_pool env db w stored =
     \<lparr>p_size = nat (pool_size env), p_delivered = [], p_pending = [], p_sending = None, p_tasks = [], p_closed = False,
      p_workers = replicate (nat (pool_size env)) Idle, p_answers = [], p_db = db, p_wallet = w, p_stored = stored,
      p_phase = Serving\<rparr>"

definition live :: "pool \<Rightarrow> bool" where
  "live s \<longleftrightarrow> p_phase s = Serving \<or> p_phase s = Stopping"

definition answer :: "nat \<Rightarrow> bytes \<Rightarrow> bool \<Rightarrow> pool \<Rightarrow> pool" where
  "answer i m ack s = s\<lparr>p_workers := (p_workers s)[i := Idle], p_answers := p_answers s @ [(m, ack)]\<rparr>"

definition set_worker :: "nat \<Rightarrow> worker \<Rightarrow> pool \<Rightarrow> pool" where
  "set_worker i x s = s\<lparr>p_workers := (p_workers s)[i := x]\<rparr>"

text \<open>A worker's next part: what it does when it is scheduled, or None when it waits or has ended\<close>

definition claim_step :: "codecs \<Rightarrow> exec_env \<Rightarrow> nat \<Rightarrow> bytes \<Rightarrow> pool \<Rightarrow> pool" where
  "claim_step c e i m s =
     (case claim_task c e m (p_db s) of
        (ClaimError x, db') \<Rightarrow> answer i m False (s\<lparr>p_db := db'\<rparr>)
      | (NotScheduled, db') \<Rightarrow> answer i m True (s\<lparr>p_db := db'\<rparr>)
      | (ClaimedRow intent u, db') \<Rightarrow> set_worker i (Running m intent u) (s\<lparr>p_db := db'\<rparr>))"

definition run_step :: "exec_env \<Rightarrow> nat \<Rightarrow> bytes \<Rightarrow> Intent \<Rightarrow> string \<Rightarrow> pool \<Rightarrow> pool" where
  "run_step e i m intent u s =
     (case runExecutionSimulation e intent (p_wallet s) of
        (executionErr, w') \<Rightarrow> set_worker i (Ran m intent u executionErr) (s\<lparr>p_wallet := w'\<rparr>))"

definition finish_step :: "codecs \<Rightarrow> exec_env \<Rightarrow> nat \<Rightarrow> bytes \<Rightarrow> Intent \<Rightarrow> string \<Rightarrow> run_error option \<Rightarrow> pool \<Rightarrow> pool" where
  "finish_step c e i m intent u executionErr s =
     (case finish_task c e intent u executionErr (p_db s) (p_stored s) of
        (err, db', stored') \<Rightarrow> answer i m (err = None) (s\<lparr>p_db := db', p_stored := stored'\<rparr>))"

definition worker_step :: "codecs \<Rightarrow> exec_env \<Rightarrow> nat \<Rightarrow> pool \<Rightarrow> pool option" where
  "worker_step c e i s =
     (case p_workers s ! i of
        Idle \<Rightarrow>
          (case p_tasks s of
             m # ms \<Rightarrow> Some (set_worker i (Took m) (s\<lparr>p_tasks := ms\<rparr>))
           | [] \<Rightarrow> if p_closed s then Some (set_worker i Stopped s) else None)
      | Took m \<Rightarrow> Some (claim_step c e i m s)
      | Running m intent u \<Rightarrow> Some (run_step e i m intent u s)
      | Ran m intent u executionErr \<Rightarrow> Some (finish_step c e i m intent u executionErr s)
      | Stopped \<Rightarrow> None)"

text \<open>
  The pool and what is around it: the broker may deliver any message at any time, one that was delivered
  before included; other processes may change the tables, but leave the rows that are executing alone,
  and the primary key stays one.
\<close>

definition executing :: "intent_db \<Rightarrow> string \<Rightarrow> bool" where
  "executing db u \<longleftrightarrow> (\<exists>r \<in> set (intent_rows db). row_id r = u)
     \<and> (\<forall>r \<in> set (intent_rows db). row_id r = u \<longrightarrow> row_status r = ''INTENT_STATUS_EXECUTING'')"

definition spares :: "intent_db \<Rightarrow> intent_db \<Rightarrow> bool" where
  "spares db db' \<longleftrightarrow> (\<forall>u. executing db u \<longrightarrow> executing db' u) \<and> distinct (map row_id (intent_rows db'))"

inductive pool_step :: "codecs \<Rightarrow> pool \<Rightarrow> pool \<Rightarrow> bool" for c where
  deliver: "live s \<Longrightarrow> pool_step c s (s\<lparr>p_delivered := p_delivered s @ [m], p_pending := p_pending s @ [m]\<rparr>)"
| callback: "live s \<Longrightarrow> p_sending s = None \<Longrightarrow> p_pending s = m # ms \<Longrightarrow>
     pool_step c s (s\<lparr>p_sending := Some m, p_pending := ms\<rparr>)"
| send: "live s \<Longrightarrow> p_sending s = Some m \<Longrightarrow> \<not> p_closed s \<Longrightarrow> length (p_tasks s) < p_size s \<Longrightarrow>
     pool_step c s (s\<lparr>p_sending := None, p_tasks := p_tasks s @ [m]\<rparr>)"
| send_closed: "live s \<Longrightarrow> p_sending s = Some m \<Longrightarrow> p_closed s \<Longrightarrow> pool_step c s (s\<lparr>p_phase := Panicked\<rparr>)"
| work: "live s \<Longrightarrow> i < length (p_workers s) \<Longrightarrow> worker_step c e i s = Some s' \<Longrightarrow> pool_step c s s'"
| outside: "live s \<Longrightarrow> spares (p_db s) db' \<Longrightarrow> pool_step c s (s\<lparr>p_db := db', p_wallet := w', p_stored := p_stored s @ ms\<rparr>)"
| signal: "p_phase s = Serving \<Longrightarrow> pool_step c s (s\<lparr>p_closed := True, p_phase := Stopping\<rparr>)"
| exits: "p_phase s = Stopping \<Longrightarrow> pool_step c s (s\<lparr>p_phase := Exited\<rparr>)"

end
