(* ===== verification/WorkerPoolProps.thy ===== *)
theory WorkerPoolProps imports WorkerPool ExecutionProps "HOL-Library.Multiset" begin

text \<open>
  What the worker pool promises: no task is lost or invented while the process lives, the channel bounds
  what it holds, and no two workers carry out the same intent; and what its shutdown does not.
\<close>

section \<open>What the pool holds\<close>

fun held :: "worker \<Rightarrow> bytes list" where
  "held (Took m) = [m]"
| "held (Running m intent u) = [m]"
| "held (Ran m intent u x) = [m]"
| "held Idle = []"
| "held Stopped = []"

fun claimed :: "worker \<Rightarrow> string option" where
  "claimed (Running m intent u) = Some u"
| "claimed (Ran m intent u x) = Some u"
| "claimed (Took m) = None"
| "claimed Idle = None"
| "claimed Stopped = None"

definition in_work :: "worker list \<Rightarrow> bytes multiset" where
  "in_work ws = mset (concat (map held ws))"

lemma in_work_update:
  assumes "i < length ws"
  obtains A where "in_work ws = A + mset (held (ws ! i))" "\<And>x. in_work (ws[i := x]) = A + mset (held x)"
proof (rule that)
  let ?A = "in_work (take i ws) + in_work (drop (Suc i) ws)"
  have "in_work (take i ws @ x # drop (Suc i) ws) = ?A + mset (held x)" for x by (simp add: in_work_def)
  then show "in_work ws = ?A + mset (held (ws ! i))" "\<And>x. in_work (ws[i := x]) = ?A + mset (held x)"
    using id_take_nth_drop [OF assms] upd_conv_take_nth_drop [OF assms] by metis+
qed

lemma length_in_work: "size (in_work ws) \<le> length ws"
proof -
  have "length (held x) \<le> 1" for x by (cases x) simp_all
  then have "length (concat (map held ws)) \<le> length ws"
  proof (induction ws)
    case (Cons a ws)
    then show ?case using add_mono [of "length (held a)" 1 "length (concat (map held ws))" "length ws"] by simp
  qed simp
  then show ?thesis by (simp add: in_work_def)
qed

definition accounted :: "pool \<Rightarrow> bool" where
  "accounted s \<longleftrightarrow> mset (p_delivered s) =
     mset (p_pending s) + (case p_sending s of None \<Rightarrow> {#} | Some m \<Rightarrow> {#m#}) + mset (p_tasks s) + in_work (p_workers s)
       + mset (map fst (p_answers s))"

definition exclusive :: "intent_db \<Rightarrow> worker list \<Rightarrow> bool" where
  "exclusive db ws \<longleftrightarrow> (\<forall>i < length ws. \<forall>u. claimed (ws ! i) = Some u \<longrightarrow>
     executing db u \<and> (\<forall>j < length ws. claimed (ws ! j) = Some u \<longrightarrow> j = i))"

definition pool_ok :: "pool \<Rightarrow> bool" where
  "pool_ok s \<longleftrightarrow> length (p_workers s) = p_size s \<and> length (p_tasks s) \<le> p_size s \<and> accounted s
     \<and> distinct (map row_id (intent_rows (p_db s))) \<and> exclusive (p_db s) (p_workers s)"

section \<open>The statements on the table\<close>

lemma set_status_ids [simp]: "map row_id (intent_rows (set_status v cond x now db)) = map row_id (intent_rows db)"
  by (simp add: set_status_def comp_def if_distrib cong: if_cong)

lemma finish_ids: "finish_task c e intent u x db stored = (err, db', stored') \<Longrightarrow>
    map row_id (intent_rows db') = map row_id (intent_rows db)"
  by (auto simp: finish_task_def Let_def stmt_result_def split: stmt.splits if_splits)

lemma executing_alt:
  "executing db u \<longleftrightarrow> u \<in> set (map row_id (intent_rows db))
     \<and> (\<forall>r \<in> set (intent_rows db). row_id r = u \<longrightarrow> row_status r = ''INTENT_STATUS_EXECUTING'')"
  by (auto simp: executing_def)

lemma executing_set_status:
  "executing (set_status v cond x now db) u \<longleftrightarrow> u \<in> set (map row_id (intent_rows db))
     \<and> (\<forall>r \<in> set (intent_rows db). row_id r = u \<longrightarrow>
          (if u = v \<and> cond (row_status r) then x else row_status r) = ''INTENT_STATUS_EXECUTING'')"
proof -
  let ?f = "\<lambda>r. if row_id r = v \<and> cond (row_status r) then r\<lparr>row_status := x, row_updated_at := now\<rparr> else r"
  have rows: "intent_rows (set_status v cond x now db) = map ?f (intent_rows db)" by (simp add: set_status_def)
  have pt: "(row_id (?f r) = u \<longrightarrow> row_status (?f r) = ''INTENT_STATUS_EXECUTING'') \<longleftrightarrow>
      (row_id r = u \<longrightarrow> (if u = v \<and> cond (row_status r) then x else row_status r) = ''INTENT_STATUS_EXECUTING'')" for r
    by auto
  have "(\<forall>r \<in> set (intent_rows (set_status v cond x now db)). row_id r = u \<longrightarrow> row_status r = ''INTENT_STATUS_EXECUTING'')
    \<longleftrightarrow> (\<forall>r \<in> set (intent_rows db). row_id r = u \<longrightarrow>
          (if u = v \<and> cond (row_status r) then x else row_status r) = ''INTENT_STATUS_EXECUTING'')"
    unfolding rows set_map ball_simps by (rule ball_cong [OF refl]) (rule pt)
  then show ?thesis unfolding executing_alt set_status_ids by (rule arg_cong)
qed

lemma executing_claim: "executing db u \<Longrightarrow> executing (set_status v is_scheduled ''INTENT_STATUS_EXECUTING'' now db) u"
  by (simp add: executing_set_status) (simp add: executing_alt)

lemma executing_other: "executing db u \<Longrightarrow> u \<noteq> v \<Longrightarrow> executing (set_status v cond x now db) u"
  by (simp add: executing_set_status) (simp add: executing_alt)

lemma finish_executing:
  "finish_task c e intent v x db stored = (err, db', stored') \<Longrightarrow> executing db u \<Longrightarrow> u \<noteq> v \<Longrightarrow> executing db' u"
  by (auto simp: finish_task_def Let_def stmt_result_def executing_other split: stmt.splits if_splits)

lemma claim_keeps:
  assumes "claim_task c e m db = (r, db')"
  shows "map row_id (intent_rows db') = map row_id (intent_rows db)" "executing db u \<Longrightarrow> executing db' u"
  using assms
  by (auto simp: claim_task_def Let_def stmt_result_def executing_claim split: option.splits stmt.splits if_splits)

lemma claim_executes:
  assumes "claim_task c e m db = (ClaimedRow intent u, db')" "distinct (map row_id (intent_rows db))"
  shows "executing db' u \<and> \<not> executing db u"
proof -
  have d: "db' = set_status u is_scheduled ''INTENT_STATUS_EXECUTING'' (ex_db_now e) db" "rows_matching u is_scheduled db \<noteq> 0"
    using assms(1)
    by (simp_all add: claim_task_def Let_def stmt_result_def split: option.splits stmt.splits if_splits)
  then obtain r where r: "r \<in> set (intent_rows db)" "row_id r = u" "is_scheduled (row_status r)"
    unfolding rows_matching_def length_0_conv filter_empty_conv by blast
  have inj: "inj_on row_id (set (intent_rows db))" using assms(2) by (simp add: distinct_map)
  have "r' = r" if "r' \<in> set (intent_rows db)" "row_id r' = u" for r'
    using inj_onD [OF inj _ that(1) r(1)] that(2) r(2) by simp
  then have "\<forall>r' \<in> set (intent_rows db). row_id r' = u \<longrightarrow> is_scheduled (row_status r')" using r(3) by blast
  then have "executing db' u" using r(1,2) by (simp add: d(1) executing_set_status rev_image_eqI)
  moreover have "\<not> executing db u" using r unfolding executing_def is_scheduled_def by force
  ultimately show ?thesis by simp
qed

section \<open>Every step\<close>

lemma exclusive_update:
  assumes "exclusive db ws" "\<forall>u. executing db u \<longrightarrow> Some u \<noteq> claimed (ws ! i) \<longrightarrow> executing db' u" "i < length ws"
    and "\<forall>u. claimed x = Some u \<longrightarrow> executing db' u \<and> (claimed (ws ! i) = Some u \<or> \<not> executing db u)"
  shows "exclusive db' (ws[i := x])"
  using assms unfolding exclusive_def
  by (simp add: nth_list_update) metis

lemma pool_ok_answer:
  assumes "pool_ok s" "i < length (p_workers s)" "held (p_workers s ! i) = [m]"
    and "\<forall>u. executing (p_db s) u \<longrightarrow> Some u \<noteq> claimed (p_workers s ! i) \<longrightarrow> executing db' u"
    and "map row_id (intent_rows db') = map row_id (intent_rows (p_db s))"
  shows "pool_ok (answer i m ack (s\<lparr>p_db := db', p_wallet := w', p_stored := st'\<rparr>))"
proof -
  obtain A where "in_work (p_workers s) = A + mset (held (p_workers s ! i))"
    "\<And>x. in_work ((p_workers s)[i := x]) = A + mset (held x)"
    using assms(2) by (rule in_work_update) auto
  moreover have "exclusive db' ((p_workers s)[i := Idle])"
    using assms(1,2,4) by (intro exclusive_update [of "p_db s"]) (simp_all add: pool_ok_def)
  ultimately show ?thesis using assms(1,3,5) by (simp add: pool_ok_def answer_def accounted_def)
qed

lemma pool_ok_set:
  assumes "pool_ok s" "i < length (p_workers s)" "mset (held x) + mset ms = mset (held (p_workers s ! i)) + mset (p_tasks s)"
    and "length ms \<le> length (p_tasks s)"
    and "\<forall>u. executing (p_db s) u \<longrightarrow> executing db' u" "map row_id (intent_rows db') = map row_id (intent_rows (p_db s))"
    and "\<forall>u. claimed x = Some u \<longrightarrow> executing db' u \<and> (claimed (p_workers s ! i) = Some u \<or> \<not> executing (p_db s) u)"
  shows "pool_ok (set_worker i x (s\<lparr>p_db := db', p_wallet := w', p_tasks := ms\<rparr>))"
proof -
  obtain A where A: "in_work (p_workers s) = A + mset (held (p_workers s ! i))"
    "\<And>x. in_work ((p_workers s)[i := x]) = A + mset (held x)"
    using assms(2) by (rule in_work_update) auto
  moreover have "exclusive db' ((p_workers s)[i := x])"
    using assms(1,2,5,7) by (intro exclusive_update [of "p_db s"]) (simp_all add: pool_ok_def)
  moreover have "mset ms + (A + mset (held x)) = mset (p_tasks s) + in_work (p_workers s)"
    using assms(3) A(1) by (simp add: ac_simps)
  ultimately show ?thesis using assms(1,4,6) by (simp add: pool_ok_def set_worker_def accounted_def ac_simps)
qed

lemma worker_step_ok:
  assumes "pool_ok s" "i < length (p_workers s)" "worker_step c e i s = Some s'"
  shows "pool_ok s' \<and> p_size s' = p_size s"
proof (cases "p_workers s ! i")
  case Idle
  show ?thesis
  proof (cases "p_tasks s")
    case Nil
    then have "s' = set_worker i Stopped s"
      using assms(3) Idle by (auto simp: worker_step_def split: if_splits)
    moreover have "pool_ok (set_worker i Stopped (s\<lparr>p_db := p_db s, p_wallet := p_wallet s, p_tasks := p_tasks s\<rparr>))"
      using Idle by (intro pool_ok_set [OF assms(1,2)]) simp_all
    ultimately show ?thesis by (simp add: set_worker_def)
  next
    case (Cons m ms)
    then have "s' = set_worker i (Took m) (s\<lparr>p_db := p_db s, p_wallet := p_wallet s, p_tasks := ms\<rparr>)"
      using assms(3) Idle by (auto simp: worker_step_def)
    moreover have "pool_ok (set_worker i (Took m) (s\<lparr>p_db := p_db s, p_wallet := p_wallet s, p_tasks := ms\<rparr>))"
      using Idle Cons by (intro pool_ok_set [OF assms(1,2)]) simp_all
    ultimately show ?thesis by (simp add: set_worker_def)
  qed
next
  case (Took m)
  have keys: "distinct (map row_id (intent_rows (p_db s)))" using assms(1) by (simp add: pool_ok_def)
  obtain r db' where r: "claim_task c e m (p_db s) = (r, db')" by fastforce
  note keeps = claim_keeps [OF r]
  show ?thesis
  proof (cases r)
    case (ClaimedRow intent u)
    then have "s' = set_worker i (Running m intent u) (s\<lparr>p_db := db', p_wallet := p_wallet s, p_tasks := p_tasks s\<rparr>)"
      using assms(3) Took r by (simp add: worker_step_def claim_step_def)
    moreover have "pool_ok (set_worker i (Running m intent u) (s\<lparr>p_db := db', p_wallet := p_wallet s, p_tasks := p_tasks s\<rparr>))"
      using Took keeps claim_executes [OF r [unfolded ClaimedRow] keys] by (intro pool_ok_set [OF assms(1,2)]) auto
    ultimately show ?thesis by (simp add: set_worker_def)
  next
    case (ClaimError x)
    then have "s' = answer i m False (s\<lparr>p_db := db', p_wallet := p_wallet s, p_stored := p_stored s\<rparr>)"
      using assms(3) Took r by (simp add: worker_step_def claim_step_def)
    moreover have "pool_ok (answer i m False (s\<lparr>p_db := db', p_wallet := p_wallet s, p_stored := p_stored s\<rparr>))"
      using Took keeps by (intro pool_ok_answer [OF assms(1,2)]) auto
    ultimately show ?thesis by (simp add: answer_def)
  next
    case NotScheduled
    then have "s' = answer i m True (s\<lparr>p_db := db', p_wallet := p_wallet s, p_stored := p_stored s\<rparr>)"
      using assms(3) Took r by (simp add: worker_step_def claim_step_def)
    moreover have "pool_ok (answer i m True (s\<lparr>p_db := db', p_wallet := p_wallet s, p_stored := p_stored s\<rparr>))"
      using Took keeps by (intro pool_ok_answer [OF assms(1,2)]) auto
    ultimately show ?thesis by (simp add: answer_def)
  qed
next
  case (Running m intent u)
  obtain x w' where "runExecutionSimulation e intent (p_wallet s) = (x, w')" by fastforce
  then have "s' = set_worker i (Ran m intent u x) (s\<lparr>p_db := p_db s, p_wallet := w', p_tasks := p_tasks s\<rparr>)"
    using assms(3) Running by (simp add: worker_step_def run_step_def)
  moreover have "executing (p_db s) u" using assms(1,2) Running by (auto simp: pool_ok_def exclusive_def)
  then have "pool_ok (set_worker i (Ran m intent u x) (s\<lparr>p_db := p_db s, p_wallet := w', p_tasks := p_tasks s\<rparr>))"
    using Running by (intro pool_ok_set [OF assms(1,2)]) auto
  ultimately show ?thesis by (simp add: set_worker_def)
next
  case (Ran m intent u x)
  obtain err db' st' where f: "finish_task c e intent u x (p_db s) (p_stored s) = (err, db', st')" by (metis prod.collapse)
  then have "s' = answer i m (err = None) (s\<lparr>p_db := db', p_wallet := p_wallet s, p_stored := st'\<rparr>)"
    using assms(3) Ran by (simp add: worker_step_def finish_step_def)
  moreover have "pool_ok (answer i m (err = None) (s\<lparr>p_db := db', p_wallet := p_wallet s, p_stored := st'\<rparr>))"
    using Ran finish_ids [OF f] finish_executing [OF f] by (intro pool_ok_answer [OF assms(1,2)]) auto
  ultimately show ?thesis by (simp add: answer_def)
qed (use assms(3) in \<open>simp add: worker_step_def\<close>)

lemma pool_step_ok:
  assumes "pool_step c s s'" "pool_ok s"
  shows "pool_ok s' \<and> p_size s' = p_size s"
  using assms
proof (induction rule: pool_step.induct)
  case (work s i e s')
  then show ?case using worker_step_ok by blast
next
  case (outside s db' w' ms)
  then show ?case by (simp add: pool_ok_def accounted_def exclusive_def spares_def)
qed (simp_all add: pool_ok_def accounted_def)

lemma new_pool_ok: "distinct (map row_id (intent_rows db)) \<Longrightarrow> pool_ok (new_pool env db w stored)"
  by (simp add: new_pool_def pool_ok_def accounted_def exclusive_def in_work_def map_replicate_const)

lemma pool_reached:
  assumes "(pool_step c)\<^sup>*\<^sup>* (new_pool env db w stored) s" "distinct (map row_id (intent_rows db))"
  shows "pool_ok s \<and> p_size s = nat (pool_size env)"
  using assms(1)
proof (induction rule: rtranclp_induct)
  case base
  then show ?case using new_pool_ok [OF assms(2)] by (simp add: new_pool_def)
next
  case (step s s')
  then show ?case using pool_step_ok by metis
qed

lemma pool_size_pos: "0 < pool_size env"
  by (simp add: pool_size_def split: option.splits)

text \<open>
  C15. The pool loses no task and invents none.  Whatever the broker delivers and however the callback and
  the workers interleave, each delivered message is exactly once either with the client library, on the
  channel, with a worker, or answered; and beyond what the client library still holds, at most twice
  the pool size and one are unanswered, which is what holds the broker back.
\<close>

theorem pool_accounts_for_tasks:
  assumes "(pool_step c)\<^sup>*\<^sup>* (new_pool env db w stored) s" "distinct (map row_id (intent_rows db))"
  shows "accounted s \<and> length (p_tasks s) \<le> nat (pool_size env)
    \<and> length (p_delivered s) \<le> length (p_pending s) + length (p_answers s) + 2 * nat (pool_size env) + 1"
proof -
  have ok: "pool_ok s" "p_size s = nat (pool_size env)" using pool_reached [OF assms] by simp_all
  then have acc: "accounted s" "length (p_tasks s) \<le> nat (pool_size env)" "length (p_workers s) = nat (pool_size env)"
    by (simp_all add: pool_ok_def)
  have "size (mset (p_delivered s)) = length (p_pending s) + (case p_sending s of None \<Rightarrow> 0 | Some m \<Rightarrow> 1)
      + length (p_tasks s) + size (in_work (p_workers s)) + length (p_answers s)"
    using acc(1) unfolding accounted_def by (simp split: option.splits)
  with acc length_in_work [of "p_workers s"] show ?thesis by (simp split: option.splits)
qed


section \<open>The shutdown\<close>

lemma executing_status: "executing db u \<Longrightarrow> status_of db u \<noteq> Some ''INTENT_STATUS_SCHEDULED''"
  unfolding status_of_def find_intent_def executing_def by (auto dest!: find_Some_set)

text \<open>
  The shutdown abandons work.  When a termination signal arrives while a worker runs an intent, the
  process can end without finishing it: the row stays executing, and every later delivery of the task,
  to this engine or another, whatever goes wrong, changes nothing.  And when the callback is waiting to
  send, as it does while all workers are busy and the channel is full, the signal closes the channel
  under it and the process panics: the subscription is only cancelled afterwards.
\<close>

theorem shutdown_abandons_work:
  assumes "(pool_step c)\<^sup>*\<^sup>* (new_pool env db w stored) s" "distinct (map row_id (intent_rows db))" "p_phase s = Serving"
    and "i < length (p_workers s)" "claimed (p_workers s ! i) = Some u"
  shows "(\<exists>s'. (pool_step c)\<^sup>*\<^sup>* s s' \<and> p_phase s' = Exited \<and> executing (p_db s') u
      \<and> (\<forall>m intent es w' st'. unmarshal c m = Some intent \<and> uuid_in c (Id intent) = Some u \<longrightarrow>
           snd (deliver_task c m es (p_db s', w', st')) = (p_db s', w', st')))
    \<and> (p_sending s \<noteq> None \<longrightarrow> (\<exists>s'. (pool_step c)\<^sup>*\<^sup>* s s' \<and> p_phase s' = Panicked))"
proof -
  have ok: "pool_ok s" using pool_reached [OF assms(1,2)] by simp
  then have ids: "distinct (map row_id (intent_rows (p_db s)))" and ex: "executing (p_db s) u"
    using assms(4,5) by (auto simp: pool_ok_def exclusive_def)
  define s1 where "s1 = s\<lparr>p_closed := True, p_phase := Stopping\<rparr>"
  have s1: "pool_step c s s1" unfolding s1_def using assms(3) by (rule pool_step.signal)
  have "pool_step c s1 (s1\<lparr>p_phase := Exited\<rparr>)" by (rule pool_step.exits) (simp add: s1_def)
  with s1 have "(pool_step c)\<^sup>*\<^sup>* s (s1\<lparr>p_phase := Exited\<rparr>)" by simp
  moreover have "snd (deliver_task c m es (p_db s, w', st')) = (p_db s, w', st')"
    if "unmarshal c m = Some intent" "uuid_in c (Id intent) = Some u" for m intent es w' st'
    using deliver_task_skips [OF ids executing_status [OF ex] that] .
  moreover have "\<exists>s'. (pool_step c)\<^sup>*\<^sup>* s s' \<and> p_phase s' = Panicked" if "p_sending s \<noteq> None"
  proof -
    obtain m where "p_sending s = Some m" using \<open>p_sending s \<noteq> None\<close> by blast
    then have "p_sending s1 = Some m" by (simp add: s1_def)
    then have "pool_step c s1 (s1\<lparr>p_phase := Panicked\<rparr>)"
      by (rule pool_step.send_closed [rotated]) (simp_all add: s1_def live_def)
    with s1 have "(pool_step c)\<^sup>*\<^sup>* s (s1\<lparr>p_phase := Panicked\<rparr>)" by simp
    then show ?thesis by (intro exI [of _ "s1\<lparr>p_phase := Panicked\<rparr>"]) simp
  qed
  ultimately show ?thesis using ex by (auto intro!: exI [of _ "s1\<lparr>p_phase := Exited\<rparr>"] simp: s1_def)
qed

section \<open>Instances\<close>

text \<open>One task runs, and the callback is about to send the same task again.\<close>

lemma busy_pool:
  obtains s where "(pool_step toy_codecs)\<^sup>*\<^sup>* (new_pool Map.empty scheduled_db (two_accounts 500 0) []) s"
    "p_phase s = Serving" "p_workers s = [Running ''i'' (toy_intent ''i'') ''i'', Idle, Idle]" "p_sending s = Some ''i''"
    "p_delivered s = [''i'', ''i'']"
proof -
  have size: "nat (pool_size Map.empty) = 3" by code_simp
  define s0 where "s0 = new_pool Map.empty scheduled_db (two_accounts 500 0) []"
  define s1 where "s1 = s0\<lparr>p_delivered := p_delivered s0 @ [''i''], p_pending := p_pending s0 @ [''i'']\<rparr>"
  define s2 where "s2 = s1\<lparr>p_sending := Some ''i'', p_pending := []\<rparr>"
  define s3 where "s3 = s2\<lparr>p_sending := None, p_tasks := p_tasks s2 @ [''i'']\<rparr>"
  define s4 where "s4 = set_worker 0 (Took ''i'') (s3\<lparr>p_tasks := []\<rparr>)"
  define s5 where "s5 = claim_step toy_codecs exec_ok 0 ''i'' s4"
  define s6 where "s6 = s5\<lparr>p_delivered := p_delivered s5 @ [''i''], p_pending := p_pending s5 @ [''i'']\<rparr>"
  define s7 where "s7 = s6\<lparr>p_sending := Some ''i'', p_pending := []\<rparr>"
  have s0: "p_workers s0 = [Idle, Idle, Idle]" "p_size s0 = 3" "p_phase s0 = Serving" "p_pending s0 = []" "p_tasks s0 = []"
    "p_delivered s0 = []" "p_sending s0 = None" "\<not> p_closed s0" "p_db s0 = scheduled_db"
    by (simp_all add: s0_def new_pool_def size numeral_eq_Suc)
  have w4: "p_workers s4 = [Took ''i'', Idle, Idle]" "p_db s4 = scheduled_db" "p_phase s4 = Serving" "p_sending s4 = None"
    "p_pending s4 = []" "p_delivered s4 = [''i'']"
    by (simp_all add: s4_def s3_def s2_def s1_def set_worker_def s0)
  have claim: "\<exists>db'. claim_task toy_codecs exec_ok ''i'' scheduled_db = (ClaimedRow (toy_intent ''i'') ''i'', db')"
    by (simp add: claim_task_def exec_ok_def stmt_result_def scheduled_db_def rows_db_def rows_matching_def is_scheduled_def)
  then have s5: "p_workers s5 = [Running ''i'' (toy_intent ''i'') ''i'', Idle, Idle]" "p_phase s5 = Serving"
    "p_sending s5 = None" "p_pending s5 = []" "p_delivered s5 = [''i'']"
    by (auto simp: s5_def claim_step_def w4 set_worker_def)
  note step = rtranclp.rtrancl_into_rtrancl [of "pool_step toy_codecs"]
  have "pool_step toy_codecs s0 s1" unfolding s1_def by (rule pool_step.deliver) (simp add: live_def s0)
  moreover have "pool_step toy_codecs s1 s2" unfolding s2_def by (rule pool_step.callback) (simp_all add: live_def s1_def s0)
  moreover have "pool_step toy_codecs s2 s3" unfolding s3_def
    by (rule pool_step.send) (simp_all add: live_def s2_def s1_def s0)
  moreover have "pool_step toy_codecs s3 s4"
    by (rule pool_step.work [of _ 0 _ exec_ok])
      (simp_all add: live_def s4_def s3_def s2_def s1_def s0 worker_step_def)
  moreover have "pool_step toy_codecs s4 s5"
    by (rule pool_step.work [of _ 0 _ exec_ok]) (simp_all add: live_def w4 s5_def worker_step_def)
  moreover have "pool_step toy_codecs s5 s6" unfolding s6_def by (rule pool_step.deliver) (simp add: live_def s5)
  moreover have "pool_step toy_codecs s6 s7" unfolding s7_def by (rule pool_step.callback) (simp_all add: live_def s6_def s5)
  ultimately have "(pool_step toy_codecs)\<^sup>*\<^sup>* s0 s7"
    by (meson r_into_rtranclp rtranclp.rtrancl_into_rtrancl)
  then show thesis by (rule that [of s7, folded s0_def]) (simp_all add: s7_def s6_def s5)
qed

lemma pool_accounts_for_tasks_witness:
  "\<exists>s. (pool_step toy_codecs)\<^sup>*\<^sup>* (new_pool Map.empty scheduled_db (two_accounts 500 0) []) s
     \<and> p_delivered s = [''i'', ''i''] \<and> accounted s"
proof -
  obtain s where s: "(pool_step toy_codecs)\<^sup>*\<^sup>* (new_pool Map.empty scheduled_db (two_accounts 500 0) []) s"
    "p_delivered s = [''i'', ''i'']" using busy_pool by metis
  with pool_accounts_for_tasks [OF s(1)] show ?thesis by auto
qed


lemma shutdown_abandons_work_witness:
  "\<exists>s'. (pool_step toy_codecs)\<^sup>*\<^sup>* (new_pool Map.empty scheduled_db (two_accounts 500 0) []) s' \<and> p_phase s' = Panicked"
proof -
  obtain s where s: "(pool_step toy_codecs)\<^sup>*\<^sup>* (new_pool Map.empty scheduled_db (two_accounts 500 0) []) s"
    "p_phase s = Serving" "p_workers s = [Running ''i'' (toy_intent ''i'') ''i'', Idle, Idle]" "p_sending s = Some ''i''"
    using busy_pool by metis
  with shutdown_abandons_work [OF s(1) _ s(2), of 0 "''i''"] obtain s' where
    "(pool_step toy_codecs)\<^sup>*\<^sup>* s s'" "p_phase s' = Panicked" by auto
  with s(1) show ?thesis by (meson rtranclp_trans)
qed

end
