(* ===== verification/Lifecycle.thy ===== *)
theory Lifecycle imports WorkerPoolProps HandlerProps begin

text \<open>
  The life of an intent through the services that write its row: the intent service inserts it, the
  scheduler and the execution engine move its status.  The services share the PostgreSQL database and
  meet only there and in the broker's messages.
\<close>

section \<open>The platform\<close>

datatype platform_event =
    Submission pg_env SubmitIntentRequest
  | SchedulerDelivery sched_env bytes
  | EngineDelivery exec_env bytes

text \<open>One handler run; what it answers is not used here.\<close>

fun platform_step :: "codecs \<Rightarrow> ed25519 \<Rightarrow> exec_state \<Rightarrow> platform_event \<Rightarrow> exec_state" where
  "platform_step c ed (db, w, stored) (Submission e req) = (snd (SubmitIntent ed (postgres_store c) e db req), w, stored)"
| "platform_step c ed (db, w, stored) (SchedulerDelivery e msg) =
     (case handleSubmittedIntent c e msg (db, stored) of (err, db', stored') \<Rightarrow> (db', w, stored'))"
| "platform_step c ed (db, w, stored) (EngineDelivery e msg) = snd (executeTask c e msg (db, w, stored))"

text \<open>No other service writes while the handler runs.\<close>

fun undisturbed :: "platform_event \<Rightarrow> bool" where
  "undisturbed (Submission e req) \<longleftrightarrow> True"
| "undisturbed (SchedulerDelivery e msg) \<longleftrightarrow> (\<forall>db. sc_other e db = db)"
| "undisturbed (EngineDelivery e msg) \<longleftrightarrow> (\<forall>db. ex_other e db = db)"

section \<open>How a row develops\<close>

definition stage_of :: "string \<Rightarrow> nat option" where
  "stage_of s =
     (if s = ''INTENT_STATUS_PENDING'' then Some 0 else if s = ''INTENT_STATUS_SCHEDULED'' then Some 1
      else if s = ''INTENT_STATUS_EXECUTING'' then Some 2
      else if s = ''INTENT_STATUS_COMPLETED'' \<or> s = ''INTENT_STATUS_FAILED'' then Some 3 else None)"

definition forward :: "string \<Rightarrow> string \<Rightarrow> bool" where
  "forward s s' \<longleftrightarrow> s' = s \<or> (\<exists>n m. stage_of s = Some n \<and> stage_of s' = Some m \<and> n < m)"

definition develops :: "intent_row \<Rightarrow> intent_row \<Rightarrow> bool" where
  "develops r r' \<longleftrightarrow> r' = r\<lparr>row_status := row_status r', row_updated_at := row_updated_at r'\<rparr> \<and> forward (row_status r) (row_status r')"

lemma develops_refl [simp]: "develops r r"
  by (simp add: develops_def forward_def)

lemma develops_trans: "develops a b \<Longrightarrow> develops b c \<Longrightarrow> develops a c"
  unfolding develops_def forward_def by (cases a, cases b, cases c) auto

lemma rows_refl: "list_all2 develops rs rs"
  by (simp add: list_all2_refl)

lemma rows_trans: "list_all2 develops as bs \<Longrightarrow> list_all2 develops bs cs \<Longrightarrow> list_all2 develops as cs"
  using list_all2_trans [of develops develops develops as bs cs] develops_trans by blast

lemma set_status_develops:
  assumes "\<forall>r \<in> set (intent_rows db). row_id r = u \<and> cond (row_status r) \<longrightarrow> forward (row_status r) new"
  shows "list_all2 develops (intent_rows db) (intent_rows (set_status u cond new now db))"
proof -
  have "develops r (if row_id r = u \<and> cond (row_status r) then r\<lparr>row_status := new, row_updated_at := now\<rparr> else r)"
    if "r \<in> set (intent_rows db)" for r
    using assms that by (auto simp: develops_def forward_def)
  then show ?thesis by (simp add: set_status_def list_all2_map2 list_all2_same)
qed

lemma result_develops:
  "list_all2 develops as (intent_rows db) \<Longrightarrow> list_all2 develops as (intent_rows db') \<Longrightarrow> stmt_result x db db' = (ok, d) \<Longrightarrow>
    list_all2 develops as (intent_rows d)"
  by (cases x) (auto simp: stmt_result_def)

lemma unique_row:
  assumes "distinct (map row_id (intent_rows db))" "find_intent db u = Some r"
  shows "\<forall>r' \<in> set (intent_rows db). row_id r' = u \<longrightarrow> r' = r"
proof -
  have "inj_on row_id (set (intent_rows db))" using assms(1) by (simp add: distinct_map)
  moreover have "r \<in> set (intent_rows db)" "row_id r = u"
    using assms(2) find_Some_set [of "\<lambda>r. row_id r = u" "intent_rows db" r] by (simp_all add: find_intent_def)
  ultimately show ?thesis by (metis inj_onD)
qed

lemma scheduler_writes:
  assumes "handleSubmittedIntent c e msg (db, stored) = (err, db', stored')" "\<forall>d. sc_other e d = d" "db' \<noteq> db"
  obtains u r new where "find_intent db u = Some r" "row_status r = ''INTENT_STATUS_PENDING''"
      "new \<in> {''INTENT_STATUS_FAILED'', ''INTENT_STATUS_SCHEDULED''}" "db' = set_status u (\<lambda>_. True) new (sc_db_now e) db"
  using assms
  by (auto simp: handleSubmittedIntent_def stmt_result_def Let_def split: option.splits if_splits stmt.splits)

lemma scheduler_develops:
  assumes "handleSubmittedIntent c e msg (db, stored) = (err, db', stored')" "\<forall>d. sc_other e d = d"
    and "distinct (map row_id (intent_rows db))"
  shows "list_all2 develops (intent_rows db) (intent_rows db')"
proof (cases "db' = db")
  case False
  obtain u r new where u: "find_intent db u = Some r" "row_status r = ''INTENT_STATUS_PENDING''"
    "new \<in> {''INTENT_STATUS_FAILED'', ''INTENT_STATUS_SCHEDULED''}" "db' = set_status u (\<lambda>_. True) new (sc_db_now e) db"
    using assms(1,2) False by (rule scheduler_writes)
  with unique_row [OF assms(3) u(1)] show ?thesis
    by (auto intro!: set_status_develops simp: forward_def stage_of_def)
qed (simp add: rows_refl)

lemma engine_develops:
  assumes "executeTask c e msg (db, w, stored) = (err, db', w', stored')" "\<forall>d. ex_other e d = d"
    and "distinct (map row_id (intent_rows db))"
  shows "list_all2 develops (intent_rows db) (intent_rows db')"
proof -
  obtain cl db1 where cl: "claim_task c e msg db = (cl, db1)" by fastforce
  have claim: "list_all2 develops (intent_rows db) (intent_rows db1)"
  proof -
    have s: "list_all2 develops (intent_rows db) (intent_rows (set_status u is_scheduled ''INTENT_STATUS_EXECUTING'' now db))" for u now
      by (rule set_status_develops) (auto simp: forward_def stage_of_def is_scheduled_def)
    show ?thesis
      using cl s rows_refl [of "intent_rows db"]
      by (auto simp: claim_task_def stmt_result_def Let_def split: option.splits stmt.splits if_splits)
  qed
  show ?thesis
  proof (cases cl)
    case (ClaimedRow i u)
    obtain x w1 where run: "runExecutionSimulation e i w = (x, w1)" by fastforce
    have fin: "finish_task c e i u x db1 stored = (err, db', stored')"
      using assms(1,2) cl ClaimedRow run by (auto simp: executeTask_parts split: prod.splits)
    have "executing db1 u" using claim_executes [OF cl [unfolded ClaimedRow] assms(3)] by simp
    then have s: "list_all2 develops (intent_rows db1) (intent_rows (set_status u (\<lambda>_. True) new now db1))"
      if "new \<in> {''INTENT_STATUS_COMPLETED'', ''INTENT_STATUS_FAILED''}" for new now
      using that by (intro set_status_develops) (auto simp: executing_def forward_def stage_of_def)
    have "list_all2 develops (intent_rows db1) (intent_rows db')"
      using fin s rows_refl [of "intent_rows db1"]
      by (auto simp: finish_task_def stmt_result_def Let_def split: stmt.splits if_splits)
    with claim show ?thesis by (rule rows_trans)
  qed (use assms(1) cl claim in \<open>auto simp: executeTask_parts\<close>)
qed

section \<open>The rows over any run\<close>

lemma develops_ids: "list_all2 develops rs rs' \<Longrightarrow> map row_id rs' = map row_id rs"
proof (induction rule: list_all2_induct)
  case (Cons r rs r' rs')
  then have "r' = r\<lparr>row_status := row_status r', row_updated_at := row_updated_at r'\<rparr>" by (simp add: develops_def)
  then have "row_id r' = row_id r" by (cases r, cases r') simp
  with Cons.IH show ?case by simp
qed simp

lemma develops_staged: "develops r r' \<Longrightarrow> stage_of (row_status r) \<noteq> None \<Longrightarrow> stage_of (row_status r') \<noteq> None"
  by (auto simp: develops_def forward_def)

lemma submission_appends:
  assumes "SubmitIntent ed (postgres_store c) e db req = (resp, db')"
  obtains new where "intent_rows db' = intent_rows db @ new" "length new \<le> 1"
    "\<forall>r \<in> set new. row_status r = PENDING_name \<and> row_id r \<notin> row_id ` set (intent_rows db)"
proof (cases "db' = db")
  case False
  then have "well_signed ed req" using SubmitIntent_refused [of ed req "postgres_store c" e db] assms by fastforce
  with assms obtain x where "pg_Create c e db req = (x, db')"
    by (auto simp: SubmitIntent_signed postgres_store_def split: prod.splits sum.splits)
  then have "\<exists>i. create_body c e db req = Inr (i, db')"
    using False by (cases x) (auto dest!: pg_CreateD pg_Create_errorD)
  then obtain i where "wrote_both c e req i db db'" using create_body_both by blast
  then obtain r where "intent_rows db' = intent_rows db @ [r]" "row_status r = PENDING_name"
    "row_id r \<notin> row_id ` set (intent_rows db)"
    unfolding wrote_both_def by blast
  with that [of "[r]"] show ?thesis by simp
qed (use that [of "[]"] in simp)

text \<open>The rows of the table are developed old rows, followed by rows of this run with a status of the life cycle.\<close>

definition evolved :: "intent_db \<Rightarrow> intent_db \<Rightarrow> bool" where
  "evolved db db' \<longleftrightarrow>
     (\<exists>olds news. intent_rows db' = olds @ news \<and> list_all2 develops (intent_rows db) olds
        \<and> (\<forall>r \<in> set news. stage_of (row_status r) \<noteq> None))
     \<and> distinct (map row_id (intent_rows db'))"

lemma evolved_rows:
  assumes "list_all2 develops (intent_rows db) (intent_rows db')" "distinct (map row_id (intent_rows db))"
  shows "evolved db db'"
  unfolding evolved_def using assms develops_ids [OF assms(1)]
  by (intro conjI exI [of _ "intent_rows db'"] exI [of _ "[]"]) simp_all

lemma evolved_trans:
  assumes "evolved a b" "evolved b d"
  shows "evolved a d"
proof -
  obtain olds news where b: "intent_rows b = olds @ news" "list_all2 develops (intent_rows a) olds"
    "\<forall>r \<in> set news. stage_of (row_status r) \<noteq> None"
    using assms(1) by (auto simp: evolved_def)
  obtain olds' news' where d: "intent_rows d = olds' @ news'" "list_all2 develops (olds @ news) olds'"
    "\<forall>r \<in> set news'. stage_of (row_status r) \<noteq> None" "distinct (map row_id (intent_rows d))"
    using assms(2) b(1) by (auto simp: evolved_def)
  obtain o1 o2 where o: "olds' = o1 @ o2" "list_all2 develops olds o1" "list_all2 develops news o2"
    using d(2) by (auto simp: list_all2_append1)
  have "\<forall>r \<in> set o2. stage_of (row_status r) \<noteq> None"
    using b(3) o(3) develops_staged by (fastforce simp: list_all2_conv_all_nth in_set_conv_nth)
  with b o d show ?thesis unfolding evolved_def
    by (intro conjI exI [of _ o1] exI [of _ "o2 @ news'"]) (auto intro: rows_trans)
qed

lemma platform_step_evolved:
  assumes "distinct (map row_id (intent_rows (fst st)))" "undisturbed ev"
  shows "evolved (fst st) (fst (platform_step c ed st ev))"
proof -
  obtain db w stored where st: "st = (db, w, stored)" by (cases st) auto
  show ?thesis
  proof (cases ev)
    case (Submission e req)
    obtain resp db' where s: "SubmitIntent ed (postgres_store c) e db req = (resp, db')" by fastforce
    from submission_appends [OF s] obtain new where new: "intent_rows db' = intent_rows db @ new" "length new \<le> 1"
      "\<forall>r \<in> set new. row_status r = PENDING_name \<and> row_id r \<notin> row_id ` set (intent_rows db)" .
    then have "evolved db db'" unfolding evolved_def using assms(1) st rows_refl
      by (intro conjI exI [of _ "intent_rows db"] exI [of _ new]; cases new) (auto simp: PENDING_name_def stage_of_def)
    then show ?thesis using s by (simp add: st Submission)
  next
    case (SchedulerDelivery e msg)
    obtain err db' stored' where "handleSubmittedIntent c e msg (db, stored) = (err, db', stored')"
      by (cases "handleSubmittedIntent c e msg (db, stored)") auto
    with scheduler_develops [OF this] evolved_rows assms show ?thesis by (simp add: st SchedulerDelivery)
  next
    case (EngineDelivery e msg)
    obtain err db' w' stored' where "executeTask c e msg (db, w, stored) = (err, db', w', stored')"
      by (cases "executeTask c e msg (db, w, stored)") auto
    with engine_develops [OF this] evolved_rows assms show ?thesis by (simp add: st EngineDelivery)
  qed
qed

definition platform_run :: "codecs \<Rightarrow> ed25519 \<Rightarrow> exec_state \<Rightarrow> platform_event list \<Rightarrow> exec_state" where
  "platform_run c ed = foldl (platform_step c ed)"



end
