(* ===== verification/Metrics.thy ===== *)
theory Metrics imports Startup Lifecycle GatewayProps ValidatorProps begin

text \<open>
  The collectors of the services (the \<open>var\<close> blocks and \<open>init\<close> functions of the five \<open>main.go\<close> and
  \<open>shared/metrics/metrics.go\<close>) and what each handler reports to them.  The client library of Prometheus is
  not modelled: a report is the call that is made, and the value of a series is the number of its calls.
  Durations are left out, the calls that report them are not.
\<close>

section \<open>Collectors\<close>

datatype collector_kind = Counter | CounterVec | Histogram | HistogramVec | Gauge

record collector =
  co_kind :: collector_kind
  co_name :: string
  co_labels :: "string list"

definition httpRequestsTotal :: collector where
  "httpRequestsTotal = \<lparr>co_kind = CounterVec, co_name = ''aien_gateway_http_requests_total'', co_labels = [''method'', ''path'', ''status'']\<rparr>"

definition httpRequestDuration :: collector where
  "httpRequestDuration = \<lparr>co_kind = HistogramVec, co_name = ''aien_gateway_http_request_duration_seconds'', co_labels = [''method'', ''path'']\<rparr>"

definition grpcRequestsTotal :: collector where
  "grpcRequestsTotal = \<lparr>co_kind = CounterVec, co_name = ''aien_intent_service_grpc_requests_total'', co_labels = [''method'', ''status'']\<rparr>"

definition grpcRequestDuration :: collector where
  "grpcRequestDuration = \<lparr>co_kind = HistogramVec, co_name = ''aien_intent_service_grpc_request_duration_seconds'', co_labels = [''method'']\<rparr>"

definition intentsScheduledTotal :: collector where
  "intentsScheduledTotal = \<lparr>co_kind = CounterVec, co_name = ''aien_scheduler_intents_scheduled_total'', co_labels = [''type'']\<rparr>"

definition intentsRejectedTotal :: collector where
  "intentsRejectedTotal = \<lparr>co_kind = CounterVec, co_name = ''aien_scheduler_intents_rejected_total'', co_labels = [''type'', ''reason'']\<rparr>"

definition schedulingDuration :: collector where
  "schedulingDuration = \<lparr>co_kind = Histogram, co_name = ''aien_scheduler_scheduling_duration_seconds'', co_labels = []\<rparr>"

definition tasksExecutedTotal :: collector where
  "tasksExecutedTotal = \<lparr>co_kind = CounterVec, co_name = ''aien_execution_engine_tasks_executed_total'', co_labels = [''type'', ''status'']\<rparr>"

definition taskExecutionDuration :: collector where
  "taskExecutionDuration = \<lparr>co_kind = HistogramVec, co_name = ''aien_execution_engine_task_duration_seconds'', co_labels = [''type'']\<rparr>"

definition workerThreadsActive :: collector where
  "workerThreadsActive = \<lparr>co_kind = Gauge, co_name = ''aien_execution_engine_active_workers'', co_labels = []\<rparr>"

definition ledgerBlocksAppended :: collector where
  "ledgerBlocksAppended = \<lparr>co_kind = CounterVec, co_name = ''aien_validator_ledger_blocks_total'', co_labels = [''type'']\<rparr>"

definition ledgerWriteDuration :: collector where
  "ledgerWriteDuration = \<lparr>co_kind = Histogram, co_name = ''aien_validator_ledger_write_duration_seconds'', co_labels = []\<rparr>"

definition ledgerVerificationErrors :: collector where
  "ledgerVerificationErrors = \<lparr>co_kind = Counter, co_name = ''aien_validator_ledger_errors_total'', co_labels = []\<rparr>"

lemmas collector_defs = httpRequestsTotal_def httpRequestDuration_def grpcRequestsTotal_def grpcRequestDuration_def
  intentsScheduledTotal_def intentsRejectedTotal_def schedulingDuration_def tasksExecutedTotal_def taskExecutionDuration_def
  workerThreadsActive_def ledgerBlocksAppended_def ledgerWriteDuration_def ledgerVerificationErrors_def

text \<open>What \<open>init\<close> registers before \<open>main\<close> begins\<close>

definition gateway_init :: "collector list" where
  "gateway_init = [httpRequestsTotal, httpRequestDuration]"

definition intent_init :: "collector list" where
  "intent_init = [grpcRequestsTotal, grpcRequestDuration]"

definition scheduler_init :: "collector list" where
  "scheduler_init = [intentsScheduledTotal, intentsRejectedTotal, schedulingDuration]"

definition execution_init :: "collector list" where
  "execution_init = [tasksExecutedTotal, taskExecutionDuration, workerThreadsActive]"

definition validator_init :: "collector list" where
  "validator_init = [ledgerBlocksAppended, ledgerWriteDuration, ledgerVerificationErrors]"

section \<open>Reports\<close>

datatype report = Inc collector "string list" | Observe collector "string list" | GaugeSet collector int | GaugeInc collector | GaugeDec collector

text \<open>\<open>WithLabelValues\<close> panics on any other number of values.\<close>

fun fits :: "report \<Rightarrow> bool" where
  "fits (Inc c vs) \<longleftrightarrow> co_kind c \<in> {Counter, CounterVec} \<and> length vs = length (co_labels c)"
| "fits (Observe c vs) \<longleftrightarrow> co_kind c \<in> {Histogram, HistogramVec} \<and> length vs = length (co_labels c)"
| "fits (GaugeSet c _) \<longleftrightarrow> co_kind c = Gauge"
| "fits (GaugeInc c) \<longleftrightarrow> co_kind c = Gauge"
| "fits (GaugeDec c) \<longleftrightarrow> co_kind c = Gauge"

fun change :: "collector \<Rightarrow> report \<Rightarrow> int" where
  "change c (GaugeInc d) = (if c = d then 1 else 0)"
| "change c (GaugeDec d) = (if c = d then -1 else 0)"
| "change c _ = 0"

section \<open>The pool monitor\<close>

record db_stats =
  OpenConnections :: int
  InUse :: int
  Idle :: int
  WaitCount :: int

definition pool_gauge :: "string \<Rightarrow> string \<Rightarrow> collector" where
  "pool_gauge serviceName what = \<lparr>co_kind = Gauge, co_name = ''aien_'' @ serviceName @ ''_db_connections_'' @ what, co_labels = []\<rparr>"

definition pool_gauges :: "string \<Rightarrow> collector list" where
  "pool_gauges serviceName = map (pool_gauge serviceName) [''open'', ''in_use'', ''idle'', ''wait_count_total'']"

text \<open>One tick of the loop\<close>

definition pool_tick :: "string \<Rightarrow> db_stats \<Rightarrow> report list" where
  "pool_tick serviceName stats =
     [GaugeSet (pool_gauge serviceName ''open'') (OpenConnections stats), GaugeSet (pool_gauge serviceName ''in_use'') (InUse stats),
      GaugeSet (pool_gauge serviceName ''idle'') (Idle stats), GaugeSet (pool_gauge serviceName ''wait_count_total'') (WaitCount stats)]"

text \<open>
  \<open>MustRegister\<close> on the default registry, whose answer to one collector is a parameter: no answer is a panic.
  \<open>MonitorDatabasePool\<close> is called once by each of the four services with a database of intents.
\<close>

fun MustRegister :: "('r \<Rightarrow> collector \<Rightarrow> 'r option) \<Rightarrow> collector list \<Rightarrow> 'r \<Rightarrow> 'r option" where
  "MustRegister reg [] R = Some R"
| "MustRegister reg (c # cs) R = Option.bind (reg R c) (MustRegister reg cs)"

definition MonitorDatabasePool :: "('r \<Rightarrow> collector \<Rightarrow> 'r option) \<Rightarrow> string \<Rightarrow> db_stats list \<Rightarrow> 'r \<Rightarrow> ('r \<times> report list) option" where
  "MonitorDatabasePool reg serviceName ticks R =
     map_option (\<lambda>R'. (R', concat (map (pool_tick serviceName) ticks))) (MustRegister reg (pool_gauges serviceName) R)"

section \<open>What the handlers report\<close>

text \<open>\<open>loggingMiddleware\<close>, for one entry of \<open>gs_observed\<close>\<close>

definition gateway_reports :: "string \<times> string \<times> nat \<Rightarrow> report list" where
  "gateway_reports obs =
     (case obs of (method, path, sts) \<Rightarrow> [Inc httpRequestsTotal [method, path, nat_dec sts], Observe httpRequestDuration [method, path]])"

definition interceptor_reports :: "string \<Rightarrow> 'e status + 'a \<Rightarrow> report list" where
  "interceptor_reports FullMethod resp =
     (let statusStr = (case resp of Inl (code, _) \<Rightarrow> code_String code | Inr _ \<Rightarrow> ''OK'')
      in [Inc grpcRequestsTotal [FullMethod, statusStr], Observe grpcRequestDuration [FullMethod]])"

definition scheduler_reports :: "codecs \<Rightarrow> sched_env \<Rightarrow> bytes \<Rightarrow> intent_db \<Rightarrow> report list" where
  "scheduler_reports c e msg db =
     (case unmarshal c msg of
        None \<Rightarrow> []
      | Some intent \<Rightarrow>
      if sc_query_fails e then []
      else case uuid_in c (Id intent) of
             None \<Rightarrow> []
           | Some u \<Rightarrow>
      case find_intent db u of
        None \<Rightarrow> []
      | Some r \<Rightarrow>
      if row_status r \<noteq> ''INTENT_STATUS_PENDING'' then []
      else if (case row_deadline r of None \<Rightarrow> False | Some d \<Rightarrow> sc_now e > d)
      then (if sc_expire e = StmtOk then [Inc intentsRejectedTotal [IntentType_String (Type intent), ''deadline_exceeded'']] else [])
      else if sc_begin_fails e \<or> sc_update_fails e \<or> sc_commit e \<noteq> StmtOk then []
      else if marshal c (intent\<lparr>Status := INTENT_STATUS_SCHEDULED\<rparr>) = None \<or> sc_publish e \<noteq> Acked then []
      else [Inc intentsScheduledTotal [IntentType_String (Type intent)]])
     @ [Observe schedulingDuration []]"

definition engine_reports :: "codecs \<Rightarrow> exec_env \<Rightarrow> bytes \<Rightarrow> intent_db \<Rightarrow> wallet_db \<Rightarrow> report list" where
  "engine_reports c e msg db w =
     [GaugeInc workerThreadsActive]
     @ (case unmarshal c msg of
          None \<Rightarrow> []
        | Some intent \<Rightarrow>
            (case claim_task c e msg db of
               (ClaimedRow _ _, _) \<Rightarrow>
                 (case runExecutionSimulation e intent w of
                    (executionErr, _) \<Rightarrow>
                      if ex_final e \<noteq> StmtOk then []
                      else [Inc tasksExecutedTotal [IntentType_String (Type intent),
                              if executionErr = None then ''INTENT_STATUS_COMPLETED'' else ''INTENT_STATUS_FAILED'']])
             | _ \<Rightarrow> [])
            @ [Observe taskExecutionDuration [IntentType_String (Type intent)]])
     @ [GaugeDec workerThreadsActive]"

definition validator_reports :: "codecs \<Rightarrow> val_env \<Rightarrow> intent_db \<Rightarrow> bytes \<Rightarrow> ledger_file \<Rightarrow> report list" where
  "validator_reports c e db msg file =
     (case unmarshal c msg of
        None \<Rightarrow> [Inc ledgerVerificationErrors []]
      | Some intent \<Rightarrow>
      if va_query_fails e then [Inc ledgerVerificationErrors []]
      else case uuid_in c (Id intent) of
             None \<Rightarrow> [Inc ledgerVerificationErrors []]
           | Some u \<Rightarrow>
      case find_intent db u of
        None \<Rightarrow> [Inc ledgerVerificationErrors []]
      | Some r \<Rightarrow>
      if row_status r \<notin> set final_statuses then [Inc ledgerVerificationErrors []]
      else case Append (va_ledger e) file (Id intent) (row_type r) (row_status r) of
             (Inl _, _) \<Rightarrow> [Inc ledgerVerificationErrors []]
           | (Inr _, _) \<Rightarrow> [Inc ledgerBlocksAppended [row_type r]])
     @ [Observe ledgerWriteDuration []]"

text \<open>The process over its deliveries, as in \<open>run_validator\<close>\<close>

fun validator_run_reports :: "codecs \<Rightarrow> (val_env \<times> intent_db \<times> bytes) list \<Rightarrow> ledger_file \<Rightarrow> report list" where
  "validator_run_reports c [] file = []"
| "validator_run_reports c ((e, db, msg) # ds) file =
     validator_reports c e db msg file
     @ (case handleExecutedIntent c e db msg file of
          (Some ValPanic, _) \<Rightarrow> []
        | (_, file') \<Rightarrow> validator_run_reports c ds file')"

section \<open>Every report fits its collector\<close>

lemma collector_shapes [simp]:
  "co_kind httpRequestsTotal = CounterVec" "length (co_labels httpRequestsTotal) = 3"
  "co_kind httpRequestDuration = HistogramVec" "length (co_labels httpRequestDuration) = 2"
  "co_kind grpcRequestsTotal = CounterVec" "length (co_labels grpcRequestsTotal) = 2"
  "co_kind grpcRequestDuration = HistogramVec" "length (co_labels grpcRequestDuration) = 1"
  "co_kind intentsScheduledTotal = CounterVec" "length (co_labels intentsScheduledTotal) = 1"
  "co_kind intentsRejectedTotal = CounterVec" "length (co_labels intentsRejectedTotal) = 2"
  "co_kind schedulingDuration = Histogram" "co_labels schedulingDuration = []"
  "co_kind tasksExecutedTotal = CounterVec" "length (co_labels tasksExecutedTotal) = 2"
  "co_kind taskExecutionDuration = HistogramVec" "length (co_labels taskExecutionDuration) = 1"
  "co_kind workerThreadsActive = Gauge"
  "co_kind ledgerBlocksAppended = CounterVec" "length (co_labels ledgerBlocksAppended) = 1"
  "co_kind ledgerWriteDuration = Histogram" "co_labels ledgerWriteDuration = []"
  "co_kind ledgerVerificationErrors = Counter" "co_labels ledgerVerificationErrors = []"
  by (simp_all add: collector_defs)

lemma reports_fit:
  "list_all fits (gateway_reports obs)" "list_all fits (interceptor_reports m resp)"
  "list_all fits (scheduler_reports c se msg db)" "list_all fits (engine_reports c xe msg db w)"
  "list_all fits (validator_reports c ve db msg file)" "list_all fits (pool_tick s stats)"
  by (auto simp: gateway_reports_def interceptor_reports_def Let_def scheduler_reports_def engine_reports_def validator_reports_def
      pool_tick_def pool_gauge_def split: prod.split option.split sum.split claim.split)

section \<open>The start\<close>

text \<open>
  A registry that takes every collector whose name is new: with the names \<open>used\<close> it holds already, none of
  the platform, no service panics at its start.
\<close>

definition takes_new_names :: "('r \<Rightarrow> collector \<Rightarrow> 'r option) \<Rightarrow> ('r \<Rightarrow> string set) \<Rightarrow> bool" where
  "takes_new_names reg used \<longleftrightarrow> (\<forall>R c. co_name c \<notin> used R \<longrightarrow> (\<exists>R'. reg R c = Some R' \<and> used R' = insert (co_name c) (used R)))"

lemma MustRegister_new:
  assumes "takes_new_names reg used" "distinct (map co_name cs)" "set (map co_name cs) \<inter> used R = {}"
  shows "\<exists>R'. MustRegister reg cs R = Some R' \<and> used R' = used R \<union> set (map co_name cs)"
  using assms(2,3)
proof (induction cs arbitrary: R)
  case (Cons c cs)
  have "co_name c \<notin> used R" using Cons.prems(2) by auto
  then obtain R1 where R1: "reg R c = Some R1" "used R1 = insert (co_name c) (used R)"
    using assms(1) unfolding takes_new_names_def by blast
  have "\<exists>R'. MustRegister reg cs R1 = Some R' \<and> used R' = used R1 \<union> set (map co_name cs)"
    using Cons.prems R1(2) by (intro Cons.IH) auto
  with R1 show ?case by auto
qed simp

definition service_collectors :: "collector list list" where
  "service_collectors = [gateway_init, intent_init @ pool_gauges ''intent_service'', scheduler_init @ pool_gauges ''scheduler'',
     execution_init @ pool_gauges ''execution_engine'', validator_init @ pool_gauges ''validator'']"

lemma service_names: "list_all (\<lambda>cs. distinct (map co_name cs) \<and> (\<forall>x \<in> set (map co_name cs). take 5 x = ''aien_'')) service_collectors"
  by (simp add: service_collectors_def gateway_init_def intent_init_def scheduler_init_def execution_init_def
      validator_init_def pool_gauges_def pool_gauge_def collector_defs)

lemma services_register:
  assumes "takes_new_names reg used" "cs \<in> set service_collectors" "\<forall>x \<in> used R. take 5 x \<noteq> ''aien_''"
  shows "\<exists>R'. MustRegister reg cs R = Some R'"
proof -
  have "distinct (map co_name cs)" "\<forall>x \<in> set (map co_name cs). take 5 x = ''aien_''"
    using assms(2) service_names unfolding list_all_iff by blast+
  then show ?thesis using MustRegister_new [OF assms(1), of cs R] assms(3) by blast
qed

text \<open>The gauge of active workers is back where it was when a run of \<open>executeTask\<close> is over.\<close>

lemma workers_gauge_balanced: "(\<Sum>x \<leftarrow> engine_reports c e msg db w. change workerThreadsActive x) = 0"
  by (simp add: engine_reports_def split: option.split prod.split claim.split)

section \<open>Counters and rows\<close>

text \<open>An intent counts as executed exactly when this run took its row from scheduled to a final status.\<close>

lemma executed_counter_follows_row:
  assumes "executeTask c e msg (db, w, stored) = (err, db', w', stored')" "\<forall>d. ex_other e d = d" "distinct (map row_id (intent_rows db))"
    and "unmarshal c msg = Some i" "uuid_in c (Id i) = Some u" "st \<in> {''INTENT_STATUS_COMPLETED'', ''INTENT_STATUS_FAILED''}"
  shows "Inc tasksExecutedTotal [IntentType_String (Type i), st] \<in> set (engine_reports c e msg db w)
     \<longleftrightarrow> err = None \<and> status_of db u = Some ''INTENT_STATUS_SCHEDULED'' \<and> status_of db' u = Some st"
proof -
  obtain cl db1 where cl: "claim_task c e msg db = (cl, db1)" by fastforce
  have scheduled: "status_of db u = Some ''INTENT_STATUS_SCHEDULED''" if "rows_matching u is_scheduled db \<noteq> 0"
    using that set_status_none(2) [OF assms(3), of u is_scheduled] by (auto simp: is_scheduled_def)
  have other: "ex_other e db1 = db1" using assms(2) by blast
  show ?thesis
  proof (cases "\<exists>i' u'. cl = ClaimedRow i' u'")
    case True
    then have claimed: "cl = ClaimedRow i u" "status_of db u = Some ''INTENT_STATUS_SCHEDULED''"
      "db1 = set_status u is_scheduled ''INTENT_STATUS_EXECUTING'' (ex_db_now e) db"
      using cl assms(4,5) scheduled
      by (auto simp: claim_task_def Let_def stmt_result_def split: stmt.splits if_splits)
    obtain x w1 where run: "runExecutionSimulation e i w = (x, w1)" by fastforce
    have status: "status_of db1 u = Some ''INTENT_STATUS_EXECUTING''"
      using claimed(2,3) by (simp add: status_of_set_status is_scheduled_def)
    have fin: "finish_task c e i u x db1 stored = (err, db', stored')"
      using assms(1) by (auto simp: executeTask_parts cl claimed(1) run other split: prod.splits)
    show ?thesis
      using fin status assms(4,6) claimed(2)
      by (cases "ex_final e"; cases x)
         (auto simp: engine_reports_def cl claimed(1) run finish_task_def stmt_result_def Let_def status_of_set_status)
  next
    case False
    then have "err = None \<longrightarrow> db' = db1" "Inc tasksExecutedTotal [IntentType_String (Type i), st] \<notin> set (engine_reports c e msg db w)"
      using assms(1,4) by (auto simp: executeTask_parts cl engine_reports_def split: claim.splits)
    moreover have "status_of db1 u \<noteq> Some st" if "status_of db u = Some ''INTENT_STATUS_SCHEDULED''"
      using cl that assms(4-6)
      by (auto simp: claim_task_def Let_def stmt_result_def status_of_set_status is_scheduled_def split: stmt.splits if_splits)
    ultimately show ?thesis by auto
  qed
qed

text \<open>An intent counts as scheduled, or rejected, exactly when this delivery took its row from pending there.\<close>

lemma scheduled_counter_follows_row:
  assumes "handleSubmittedIntent c e msg (db, stored) = (err, db', stored')" "\<forall>d. sc_other e d = d"
    and "unmarshal c msg = Some i" "uuid_in c (Id i) = Some u"
  shows "Inc intentsScheduledTotal [IntentType_String (Type i)] \<in> set (scheduler_reports c e msg db)
     \<longleftrightarrow> err = None \<and> status_of db u = Some ''INTENT_STATUS_PENDING'' \<and> status_of db' u = Some ''INTENT_STATUS_SCHEDULED''"
    and "Inc intentsRejectedTotal [IntentType_String (Type i), ''deadline_exceeded''] \<in> set (scheduler_reports c e msg db)
     \<longleftrightarrow> err = None \<and> status_of db u = Some ''INTENT_STATUS_PENDING'' \<and> status_of db' u = Some ''INTENT_STATUS_FAILED''"
proof -
  have neq: "intentsScheduledTotal \<noteq> intentsRejectedTotal" "intentsRejectedTotal \<noteq> intentsScheduledTotal" by (simp_all add: collector_defs)
  show "Inc intentsScheduledTotal [IntentType_String (Type i)] \<in> set (scheduler_reports c e msg db)
     \<longleftrightarrow> err = None \<and> status_of db u = Some ''INTENT_STATUS_PENDING'' \<and> status_of db' u = Some ''INTENT_STATUS_SCHEDULED''"
    "Inc intentsRejectedTotal [IntentType_String (Type i), ''deadline_exceeded''] \<in> set (scheduler_reports c e msg db)
     \<longleftrightarrow> err = None \<and> status_of db u = Some ''INTENT_STATUS_PENDING'' \<and> status_of db' u = Some ''INTENT_STATUS_FAILED''"
    using assms neq
    by (cases "find_intent db u"; auto simp: handleSubmittedIntent_def scheduler_reports_def Let_def stmt_result_def publish_def status_of_set_status
        status_of_def [of db] split: stmt.splits if_splits option.splits)+
qed

section \<open>The paths of requests\<close>

text \<open>
  The series of the gateway are named by the path as it was sent, before anything is checked: requests
  without a token make one new series each, for as many paths as their sender likes.
\<close>

definition series :: "report list \<Rightarrow> string list set" where
  "series rs = {vs. Inc httpRequestsTotal vs \<in> set rs}"

lemma refused_is_observed:
  assumes "rq_authorization r = []" "\<not> exempt (rq_path r)"
  shows "\<exists>resp. serve_http cfg ed S e r st = (resp, st\<lparr>gs_observed := gs_observed st @ [(rq_method r, rq_path r, 401)]\<rparr>)"
  using assms by (auto simp: serve_http_def loggingMiddleware_def authMiddleware_def exempt_def writeError_def writeJSON_def)

lemma paths_become_series:
  assumes "\<forall>(e, r) \<in> set ers. rq_authorization r = [] \<and> \<not> exempt (rq_path r)" "distinct (map (rq_path \<circ> snd) ers)"
    and "serve_all cfg ed S ers st = (resps, st')" "gs_observed st = []"
  shows "card (series (concat (map gateway_reports (gs_observed st')))) = length ers"
proof -
  have obs: "gs_observed st' = gs_observed st @ map (\<lambda>(e, r). (rq_method r, rq_path r, 401)) ers"
    if "\<forall>(e, r) \<in> set ers. rq_authorization r = [] \<and> \<not> exempt (rq_path r)" "serve_all cfg ed S ers st = (resps, st')" for ers st resps
    using that
  proof (induction ers arbitrary: st resps)
    case (Cons er ers)
    obtain e r where er: "er = (e, r)" by (cases er)
    obtain resp where "serve_http cfg ed S e r st = (resp, st\<lparr>gs_observed := gs_observed st @ [(rq_method r, rq_path r, 401)]\<rparr>)"
      using refused_is_observed Cons.prems(1) er by fastforce
    with Cons.prems Cons.IH show ?case by (fastforce simp: er map_prod_def split: prod.splits)
  qed simp
  have "series (concat (map gateway_reports (gs_observed st'))) = (\<lambda>(e, r). [rq_method r, rq_path r, nat_dec 401]) ` set ers"
    using obs [OF assms(1,3)] assms(4) by (force simp: series_def gateway_reports_def)
  moreover have "inj_on (\<lambda>(e, r). [rq_method r, rq_path r, nat_dec 401]) (set ers)"
  proof (rule inj_onI)
    fix x y
    assume x: "x \<in> set ers" "y \<in> set ers" and eq: "(case x of (e, r) \<Rightarrow> [rq_method r, rq_path r, nat_dec 401]) = (case y of (e, r) \<Rightarrow> [rq_method r, rq_path r, nat_dec 401])"
    have "(rq_path \<circ> snd) x = (rq_path \<circ> snd) y" using eq by (simp add: split_def)
    then show "x = y" using assms(2) x by (auto simp: distinct_map inj_on_def)
  qed
  moreover have "distinct ers" using assms(2) by (simp add: distinct_map)
  ultimately show ?thesis by (simp add: card_image distinct_card)
qed

section \<open>Counters and ledger\<close>

lemma validator_reports_delivery:
  assumes "sound_file file" "delivery_ok c (e, db, msg)"
  shows "validator_reports c e db msg file =
    (case auditable c (e, db, msg) of None \<Rightarrow> [Inc ledgerVerificationErrors []] | Some (_, t, _) \<Rightarrow> [Inc ledgerBlocksAppended [t]])
    @ [Observe ledgerWriteDuration []]"
proof (cases "auditable c (e, db, msg)")
  case None
  then show ?thesis by (auto simp: auditable_def validator_reports_def split: option.splits if_splits)
next
  case (Some req)
  obtain i t st where req: "req = (i, t, st)" by (cases req)
  obtain file' where "handleExecutedIntent c e db msg file = (None, file')"
    using handle_delivery [OF assms] Some by auto
  with Some req show ?thesis
    by (auto simp: auditable_def validator_reports_def handleExecutedIntent_def split: option.splits if_splits sum.splits prod.splits)
qed

lemma validator_counts:
  assumes "sound_file file" "\<forall>d \<in> set ds. delivery_ok c d" "run_validator c ds file = (acks, file')"
  shows "\<exists>bs. file_blocks file' = file_blocks file @ bs
    \<and> (\<forall>t. count_list (validator_run_reports c ds file) (Inc ledgerBlocksAppended [t]) = length (filter (\<lambda>b. BType b = t) bs))
    \<and> count_list (validator_run_reports c ds file) (Inc ledgerVerificationErrors []) = count_list acks False
    \<and> count_list (validator_run_reports c ds file) (Observe ledgerWriteDuration []) = length ds"
  using assms
proof (induction ds arbitrary: "file" acks)
  case (Cons d ds)
  obtain e db msg where d: "d = (e, db, msg)" by (cases d) auto
  have ok: "delivery_ok c (e, db, msg)" using Cons.prems(2) d by simp
  note reports = validator_reports_delivery [OF Cons.prems(1) ok] and del = handle_delivery [OF Cons.prems(1) ok]
  have neq: "ledgerVerificationErrors \<noteq> ledgerBlocksAppended" by (simp add: collector_defs)
  show ?case
  proof (cases "auditable c (e, db, msg)")
    case None
    then obtain err where h: "err \<noteq> ValPanic" "handleExecutedIntent c e db msg file = (Some err, file)" using del by auto
    obtain acks' where run: "run_validator c ds file = (acks', file')" "acks = False # acks'"
      using Cons.prems(3) h by (cases err) (auto simp: d map_prod_def split: prod.splits)
    obtain bs where "file_blocks file' = file_blocks file @ bs
      \<and> (\<forall>t. count_list (validator_run_reports c ds file) (Inc ledgerBlocksAppended [t]) = length (filter (\<lambda>b. BType b = t) bs))
      \<and> count_list (validator_run_reports c ds file) (Inc ledgerVerificationErrors []) = count_list acks' False
      \<and> count_list (validator_run_reports c ds file) (Observe ledgerWriteDuration []) = length ds"
      using Cons.IH [OF Cons.prems(1) _ run(1)] Cons.prems(2) by auto
    then show ?thesis using h None run(2) reports neq by (intro exI [of _ bs]) (cases err; simp add: d)
  next
    case (Some req)
    obtain i t st where req: "req = (i, t, st)" by (cases req)
    then obtain b g where h: "handleExecutedIntent c e db msg file = (None, g)" "sound_file g"
      "file_blocks g = file_blocks file @ [b]" "BType b = t"
      using del Some by (auto simp: block_request_def)
    obtain acks' where run: "run_validator c ds g = (acks', file')" "acks = True # acks'"
      using Cons.prems(3) h(1) by (auto simp: d map_prod_def split: prod.splits)
    obtain bs where "file_blocks file' = file_blocks g @ bs
      \<and> (\<forall>t. count_list (validator_run_reports c ds g) (Inc ledgerBlocksAppended [t]) = length (filter (\<lambda>b. BType b = t) bs))
      \<and> count_list (validator_run_reports c ds g) (Inc ledgerVerificationErrors []) = count_list acks' False
      \<and> count_list (validator_run_reports c ds g) (Observe ledgerWriteDuration []) = length ds"
      using Cons.IH [OF h(2) _ run(1)] Cons.prems(2) by auto
    then show ?thesis using h Some req run(2) reports neq by (intro exI [of _ "b # bs"]) (auto simp: d)
  qed
qed simp

text \<open>
  C36. The counters of the validator are true.  In normal operation, over any deliveries with any contents,
  the counter of appended blocks rises for each type by exactly the number of blocks of that type which the
  ledger gains, the counter of errors by the number of deliveries that are not acknowledged, and the
  durations of all deliveries are reported.
\<close>

theorem ledger_counters_agree:
  assumes "sound_file file" "\<forall>d \<in> set ds. delivery_ok c d" "run_validator c ds file = (acks, file')"
  shows "(\<forall>t. count_list (validator_run_reports c ds file) (Inc ledgerBlocksAppended [t])
       = length (filter (\<lambda>b. BType b = t) (drop (length (file_blocks file)) (file_blocks file'))))
    \<and> count_list (validator_run_reports c ds file) (Inc ledgerVerificationErrors []) = count_list acks False
    \<and> count_list (validator_run_reports c ds file) (Observe ledgerWriteDuration []) = length ds"
  using validator_counts [OF assms] by auto

lemma ledger_counters_agree_witness:
  "\<exists>file' b. run_validator toy_codecs [final_delivery] None = ([True], file') \<and> file_blocks file' = [b]
     \<and> count_list (validator_run_reports toy_codecs [final_delivery] None) (Inc ledgerBlocksAppended [''INTENT_TYPE_TRANSFER'']) = 1
     \<and> count_list (validator_run_reports toy_codecs [final_delivery] None) (Inc ledgerVerificationErrors []) = 0"
proof -
  obtain e db msg where d: "final_delivery = (e, db, msg)" by (cases final_delivery) auto
  note aud = final_delivery_auditable [unfolded d]
  obtain g b where run: "run_validator toy_codecs [final_delivery] None = ([True], g)" "file_blocks g = [b]" "BType b = ''INTENT_TYPE_TRANSFER''"
    using handle_delivery [OF sound_empty final_delivery_ok [unfolded d]] aud
    by (auto simp: d block_request_def file_blocks_def)
  have none: "file_blocks None = []" by (simp add: file_blocks_def)
  show ?thesis
    using ledger_counters_agree [OF sound_empty _ run(1)] final_delivery_ok run by (auto simp: none)
qed

end
