(* ===== verification/Shutdown.thy ===== *)
theory Shutdown imports Prelude begin

text \<open>
  The end of the three services that answer requests: the goroutine that waits for a signal and the return of
  \<open>main\<close> in \<open>gateway/main.go\<close>, \<open>wallet/main.go\<close> and \<open>intent-service/main.go\<close>, with the loop of
  \<open>intent-service/outbox/worker.go\<close> and its \<open>Stop\<close>.

  Three goroutines and the requests interleave as they like.  \<open>ListenAndServe\<close> of \<open>net/http\<close> returns as soon as
  \<open>Shutdown\<close> is called.  The gRPC library is not part of the repository: whether its \<open>Serve\<close> returns only
  when \<open>GracefulStop\<close> has waited for the open calls is the parameter \<open>waits\<close>.  A listener that fails is not
  considered here; then \<open>main\<close> calls \<open>os.Exit(1)\<close> (theory \<open>Startup\<close>).
\<close>

section \<open>Where the goroutines are\<close>

datatype server = GatewayServer | WalletServer | IntentServer

text \<open>The goroutine of the signal: waiting for it, in \<open>Shutdown\<close> or \<open>GracefulStop\<close>, before \<open>outboxWorker.Stop\<close>, in its \<open>wg.Wait\<close>, at its end\<close>

datatype signaller = NoSignal | Draining | BeforeStop | InWait | SignalHandled

text \<open>The loop of the outbox worker: in \<open>processBatch\<close>, in the \<open>select\<close>, after \<open>wg.Done\<close>\<close>

datatype poller = InBatch | InSelect | Ended

fun rank :: "signaller \<Rightarrow> nat" where
  "rank NoSignal = 0"
| "rank Draining = 1"
| "rank BeforeStop = 2"
| "rank InWait = 3"
| "rank SignalHandled = 4"

lemma rank_inj [simp]: "rank a = rank b \<longleftrightarrow> a = b"
  by (cases a; cases b) simp_all

instantiation signaller :: linorder
begin

definition less_eq_signaller :: "signaller \<Rightarrow> signaller \<Rightarrow> bool" where
  "less_eq_signaller a b \<longleftrightarrow> rank a \<le> rank b"

definition less_signaller :: "signaller \<Rightarrow> signaller \<Rightarrow> bool" where
  "less_signaller a b \<longleftrightarrow> rank a < rank b"

instance
  by standard (auto simp: less_eq_signaller_def less_signaller_def simp flip: rank_inj)

end

record serving =
  sv_listening :: bool
  sv_open :: "nat list"
  sv_answered :: "nat list"
  sv_signaller :: signaller
  sv_stopChan_closed :: bool
  sv_poller :: poller
  sv_batches :: nat
  sv_returned :: bool

definition serving_start :: "server \<Rightarrow> serving" where
  "serving_start k = \<lparr>sv_listening = True, sv_open = [], sv_answered = [], sv_signaller = NoSignal, sv_stopChan_closed = False,
     sv_poller = (if k = IntentServer then InBatch else Ended), sv_batches = 0, sv_returned = False\<rparr>"

text \<open>After \<open>GracefulStop\<close> the intent service stops its worker; the other two are done.\<close>

definition after_drain :: "server \<Rightarrow> signaller" where
  "after_drain k = (if k = IntentServer then BeforeStop else SignalHandled)"

text \<open>The call that serves returns, and \<open>main\<close> with it, which ends the process.\<close>

definition may_return :: "bool \<Rightarrow> server \<Rightarrow> signaller \<Rightarrow> bool" where
  "may_return waits k sig \<longleftrightarrow> (if k = GatewayServer \<or> \<not> waits then Draining \<le> sig else after_drain k \<le> sig)"

inductive stop_step :: "bool \<Rightarrow> server \<Rightarrow> serving \<Rightarrow> serving \<Rightarrow> bool" for waits k where
  accept: "\<not> sv_returned s \<Longrightarrow> sv_listening s \<Longrightarrow> n \<notin> set (sv_open s) \<union> set (sv_answered s) \<Longrightarrow>
     stop_step waits k s (s\<lparr>sv_open := sv_open s @ [n]\<rparr>)"
| answer: "\<not> sv_returned s \<Longrightarrow> n \<in> set (sv_open s) \<Longrightarrow>
     stop_step waits k s (s\<lparr>sv_open := remove1 n (sv_open s), sv_answered := sv_answered s @ [n]\<rparr>)"
| signal: "\<not> sv_returned s \<Longrightarrow> sv_signaller s = NoSignal \<Longrightarrow>
     stop_step waits k s (s\<lparr>sv_signaller := Draining, sv_listening := False\<rparr>)"
| drained: "\<not> sv_returned s \<Longrightarrow> sv_signaller s = Draining \<Longrightarrow> sv_open s = [] \<Longrightarrow>
     stop_step waits k s (s\<lparr>sv_signaller := after_drain k\<rparr>)"
| ten_seconds: "\<not> sv_returned s \<Longrightarrow> k = GatewayServer \<Longrightarrow> sv_signaller s = Draining \<Longrightarrow>
     stop_step waits k s (s\<lparr>sv_signaller := SignalHandled\<rparr>)"
| close_stopChan: "\<not> sv_returned s \<Longrightarrow> sv_signaller s = BeforeStop \<Longrightarrow>
     stop_step waits k s (s\<lparr>sv_signaller := InWait, sv_stopChan_closed := True\<rparr>)"
| wait_ends: "\<not> sv_returned s \<Longrightarrow> sv_signaller s = InWait \<Longrightarrow> sv_poller s = Ended \<Longrightarrow>
     stop_step waits k s (s\<lparr>sv_signaller := SignalHandled\<rparr>)"
| batch: "\<not> sv_returned s \<Longrightarrow> sv_poller s = InBatch \<Longrightarrow>
     stop_step waits k s (s\<lparr>sv_poller := InSelect, sv_batches := sv_batches s + 1\<rparr>)"
| poll_interval: "\<not> sv_returned s \<Longrightarrow> sv_poller s = InSelect \<Longrightarrow> stop_step waits k s (s\<lparr>sv_poller := InBatch\<rparr>)"
| loop_ends: "\<not> sv_returned s \<Longrightarrow> sv_poller s = InSelect \<Longrightarrow> sv_stopChan_closed s \<Longrightarrow>
     stop_step waits k s (s\<lparr>sv_poller := Ended\<rparr>)"
| return: "\<not> sv_returned s \<Longrightarrow> may_return waits k (sv_signaller s) \<Longrightarrow> stop_step waits k s (s\<lparr>sv_returned := True\<rparr>)"

inductive_cases stop_stepE: "stop_step waits k s s'"

definition stopping :: "bool \<Rightarrow> server \<Rightarrow> serving \<Rightarrow> bool" where
  "stopping waits k s \<longleftrightarrow> (stop_step waits k)\<^sup>*\<^sup>* (serving_start k) s"

lemma stopping_step: "stopping waits k s \<Longrightarrow> stop_step waits k s s' \<Longrightarrow> stopping waits k s'"
  unfolding stopping_def by (rule rtranclp.rtrancl_into_rtrancl)

section \<open>What holds in every state\<close>

lemma after_drain_le: "Draining \<le> after_drain k" "NoSignal < after_drain k" "NoSignal < Draining" "Draining < after_drain k"
  by (simp_all add: after_drain_def less_eq_signaller_def less_signaller_def)

lemma signaller_forward: "stop_step waits k s s' \<Longrightarrow> sv_signaller s \<le> sv_signaller s'"
  by (erule stop_stepE) (simp_all add: less_eq_signaller_def after_drain_def)

definition shutdown_inv :: "bool \<Rightarrow> server \<Rightarrow> serving \<Rightarrow> bool" where
  "shutdown_inv waits k s \<longleftrightarrow> (sv_listening s \<longleftrightarrow> sv_signaller s = NoSignal) \<and> distinct (sv_open s @ sv_answered s)
     \<and> (k \<noteq> GatewayServer \<and> after_drain k \<le> sv_signaller s \<longrightarrow> sv_open s = [])
     \<and> (sv_returned s \<longrightarrow> may_return waits k (sv_signaller s))
     \<and> (sv_stopChan_closed s \<longrightarrow> InWait \<le> sv_signaller s)
     \<and> (k = IntentServer \<and> sv_signaller s = SignalHandled \<longrightarrow> sv_poller s = Ended)
     \<and> (k \<noteq> IntentServer \<longrightarrow> sv_signaller s \<notin> {BeforeStop, InWait})"

lemma shutdown_inv_start: "shutdown_inv waits k (serving_start k)"
  by (simp add: shutdown_inv_def serving_start_def after_drain_def less_eq_signaller_def)

lemma shutdown_inv_step: "shutdown_inv waits k s \<Longrightarrow> stop_step waits k s s' \<Longrightarrow> shutdown_inv waits k s'"
  by (erule stop_stepE)
     (auto simp: shutdown_inv_def may_return_def after_drain_def less_eq_signaller_def distinct_remove1 dest: notin_set_remove1 split: if_splits)

lemma stopping_inv: "stopping waits k s \<Longrightarrow> shutdown_inv waits k s"
  unfolding stopping_def
  by (induction rule: rtranclp_induct) (simp_all add: shutdown_inv_start shutdown_inv_step)

section \<open>The end of the process\<close>

lemma answers_all:
  "\<not> sv_returned s \<Longrightarrow> \<exists>s'. (stop_step waits k)\<^sup>*\<^sup>* s s' \<and> sv_open s' = [] \<and> sv_signaller s' = sv_signaller s \<and> \<not> sv_returned s'"
proof (induction "sv_open s" arbitrary: s)
  case (Cons n ns)
  let ?s = "s\<lparr>sv_open := remove1 n (sv_open s), sv_answered := sv_answered s @ [n]\<rparr>"
  have step: "stop_step waits k s ?s" using Cons.prems Cons.hyps(2) by (intro answer) (auto simp flip: Cons.hyps(2))
  have "ns = sv_open ?s" "\<not> sv_returned ?s" using Cons.prems by (simp_all flip: Cons.hyps(2))
  then obtain s' where "(stop_step waits k)\<^sup>*\<^sup>* ?s s'" "sv_open s' = []" "sv_signaller s' = sv_signaller ?s" "\<not> sv_returned s'"
    using Cons.hyps(1) by blast
  with step show ?case by (auto intro: converse_rtranclp_into_rtranclp)
qed auto

lemma can_end:
  assumes "stopping waits k s" "sv_signaller s \<noteq> NoSignal"
  shows "\<exists>s'. (stop_step waits k)\<^sup>*\<^sup>* s s' \<and> sv_returned s'"
proof (cases "sv_returned s")
  case False
  have inv: "shutdown_inv waits k s" using assms(1) by (rule stopping_inv)
  have ret: "\<exists>s'. (stop_step waits k)\<^sup>*\<^sup>* s s' \<and> sv_returned s'"
    if "(stop_step waits k)\<^sup>*\<^sup>* s t" "\<not> sv_returned t" "may_return waits k (sv_signaller t)" for t
    using that(1) stop_step.return [OF that(2,3)] by (intro exI [of _ "t\<lparr>sv_returned := True\<rparr>"]) (auto intro: rtranclp.rtrancl_into_rtrancl)
  obtain t where t: "(stop_step waits k)\<^sup>*\<^sup>* s t" "sv_open t = []" "sv_signaller t = sv_signaller s" "\<not> sv_returned t"
    using answers_all [OF False] by blast
  show ?thesis
  proof (cases "sv_signaller s = Draining")
    case True
    then have "stop_step waits k t (t\<lparr>sv_signaller := after_drain k\<rparr>)" using t by (intro drained) simp_all
    with t(1) have "(stop_step waits k)\<^sup>*\<^sup>* s (t\<lparr>sv_signaller := after_drain k\<rparr>)" by (rule rtranclp.rtrancl_into_rtrancl)
    moreover have "may_return waits k (after_drain k)" by (simp add: may_return_def after_drain_le)
    ultimately show ?thesis using ret t(4) by fastforce
  next
    case later: False
    then have "may_return waits k (sv_signaller s)"
      using inv assms(2) by (cases "sv_signaller s") (auto simp: shutdown_inv_def may_return_def after_drain_def less_eq_signaller_def)
    then show ?thesis using ret [OF t(1,4)] t(3) by simp
  qed
qed auto

text \<open>A request to the gateway that is being handled when the signal comes is not waited for.\<close>

lemma gateway_drops:
  "\<exists>s. stopping waits GatewayServer s \<and> sv_returned s \<and> sv_open s \<noteq> []"
proof -
  let ?s0 = "serving_start GatewayServer"
  let ?s1 = "?s0\<lparr>sv_open := [0]\<rparr>"
  let ?s2 = "?s1\<lparr>sv_signaller := Draining, sv_listening := False\<rparr>"
  let ?s3 = "?s2\<lparr>sv_returned := True\<rparr>"
  have "stop_step waits GatewayServer ?s0 ?s1"
    using accept [of ?s0 0 waits GatewayServer] by (simp add: serving_start_def)
  moreover have "stop_step waits GatewayServer ?s1 ?s2" by (rule signal) (simp_all add: serving_start_def)
  moreover have "stop_step waits GatewayServer ?s2 ?s3" by (rule return) (simp_all add: serving_start_def may_return_def)
  ultimately have "stopping waits GatewayServer ?s3"
    unfolding stopping_def by (meson converse_rtranclp_into_rtranclp rtranclp.rtrancl_refl)
  then show ?thesis by (intro exI [of _ ?s3]) simp
qed

text \<open>The outbox worker is told to stop, but \<open>main\<close> does not wait for it either.\<close>

lemma batch_is_cut_off:
  "\<exists>s. stopping waits IntentServer s \<and> sv_returned s \<and> sv_signaller s \<noteq> SignalHandled \<and> sv_poller s = InBatch"
proof -
  let ?s0 = "serving_start IntentServer"
  let ?s1 = "?s0\<lparr>sv_signaller := Draining, sv_listening := False\<rparr>"
  let ?s2 = "?s1\<lparr>sv_signaller := after_drain IntentServer\<rparr>"
  let ?s3 = "?s2\<lparr>sv_returned := True\<rparr>"
  have "stop_step waits IntentServer ?s0 ?s1" by (rule signal) (simp_all add: serving_start_def)
  moreover have "stop_step waits IntentServer ?s1 ?s2" by (rule drained) (simp_all add: serving_start_def)
  moreover have "stop_step waits IntentServer ?s2 ?s3" by (rule return) (simp_all add: serving_start_def may_return_def after_drain_le)
  ultimately have "stopping waits IntentServer ?s3"
    unfolding stopping_def by (meson converse_rtranclp_into_rtranclp rtranclp.rtrancl_refl)
  then show ?thesis by (intro exI [of _ ?s3]) (simp add: serving_start_def after_drain_def)
qed



end
