(* ===== verification/Pipeline.thy ===== *)
theory Pipeline imports OutboxProps ValidatorProps ExecutionProps begin

text \<open>
  The whole way of an intent: the intent service, its outbox worker, the scheduler, the execution engine
  with the wallet, and the validator, each once and in this order, each handed the message that was stored
  last.  With every call in order a signed transfer is executed, or refused by the wallet, and audited.
\<close>

section \<open>The pipeline\<close>

record pipeline_env =
  pl_submit :: pg_env
  pl_worker :: worker_env
  pl_sched :: sched_env
  pl_exec :: exec_env
  pl_val :: val_env

record platform =
  pf_db :: intent_db
  pf_wallet :: wallet_db
  pf_stored :: "message_data list"
  pf_ledger :: ledger_file

record answers =
  an_submit :: "istatus + SubmitIntentResponse"
  an_worker :: "worker_error option"
  an_sched :: "sched_error option"
  an_exec :: "exec_error option"
  an_val :: "val_error option"

definition pipeline ::
  "codecs \<Rightarrow> ed25519 \<Rightarrow> OutboxWorker \<Rightarrow> pipeline_env \<Rightarrow> SubmitIntentRequest \<Rightarrow> platform \<Rightarrow> answers \<times> platform" where
  "pipeline c ed cfg E q s =
     (let (resp, db1) = SubmitIntent ed (postgres_store c) (pl_submit E) (pf_db s) q;
          (we, db2, stored2) = processBatch cfg (pl_worker E) (db1, pf_stored s);
          (se, db3, stored3) = handleSubmittedIntent c (pl_sched E) (snd (last stored2)) (db2, stored2);
          (xe, db4, w4, stored4) = executeTask c (pl_exec E) (snd (last stored3)) (db3, pf_wallet s, stored3);
          (ve, ledger5) = handleExecutedIntent c (pl_val E) db4 (snd (last stored4)) (pf_ledger s)
      in (\<lparr>an_submit = resp, an_worker = we, an_sched = se, an_exec = xe, an_val = ve\<rparr>,
          \<lparr>pf_db = db4, pf_wallet = w4, pf_stored = stored4, pf_ledger = ledger5\<rparr>))"

text \<open>A subscription to \<open>s*\<close> receives the message.\<close>

definition under :: "string \<Rightarrow> message_data \<Rightarrow> bool" where
  "under s m \<longleftrightarrow> take (length s) (fst m) = s"

text \<open>What the wallet makes of the payload: the final status of the intent and the accounts\<close>

definition transfer_outcome :: "wenv \<Rightarrow> wallet_db \<Rightarrow> Intent \<Rightarrow> IntentStatus \<times> wallet_db" where
  "transfer_outcome env w i =
     (case parse_transfer (Payload i) of
        None \<Rightarrow> (INTENT_STATUS_FAILED, w)
      | Some t \<Rightarrow>
          (case handler_Transfer env w (transfer_request i t) of
             (r, w') \<Rightarrow> (if is_ok r then INTENT_STATUS_COMPLETED else INTENT_STATUS_FAILED, w')))"

lemma transfer_outcome_status [simp]: "transfer_outcome env w (i\<lparr>Status := s\<rparr>) = transfer_outcome env w i"
  by (cases "parse_transfer (Payload i)") (simp_all add: transfer_outcome_def transfer_request_def)

section \<open>Nothing fails\<close>

definition sched_up :: "sched_env \<Rightarrow> bool" where
  "sched_up e \<longleftrightarrow> \<not> sc_query_fails e \<and> \<not> sc_begin_fails e \<and> \<not> sc_update_fails e \<and> sc_commit e = StmtOk
     \<and> sc_publish e = Acked \<and> (\<forall>db. sc_other e db = db)"

definition exec_up :: "exec_env \<Rightarrow> bool" where
  "exec_up e \<longleftrightarrow> ex_claim e = StmtOk \<and> \<not> ex_rows_error e \<and> ex_rpc e = RpcAnswered \<and> ex_final e = StmtOk
     \<and> ex_publish e = Acked \<and> (\<forall>db. ex_other e db = db)"

definition val_ok :: "val_env \<Rightarrow> bool" where
  "val_ok e \<longleftrightarrow> \<not> va_query_fails e \<and> le_ok (va_ledger e)
     \<and> length (Format_RFC3339 (le_zone (va_ledger e)) (le_now (va_ledger e))) \<le> 40"

definition all_up :: "pipeline_env \<Rightarrow> bool" where
  "all_up E \<longleftrightarrow> pg_up (pl_submit E) \<and> pg_commit (pl_submit E) = PgCommitted \<and> wo_healthy (pl_worker E)
     \<and> sched_up (pl_sched E) \<and> exec_up (pl_exec E) \<and> val_ok (pl_val E)"

text \<open>The protobuf codec reads the intent back as it was written, with any status of the schema.\<close>

definition carries :: "codecs \<Rightarrow> Intent \<Rightarrow> bool" where
  "carries c i \<longleftrightarrow> (\<forall>s. known_status s \<longrightarrow> (\<exists>b. marshal c (i\<lparr>Status := s\<rparr>) = Some b \<and> unmarshal c b = Some (i\<lparr>Status := s\<rparr>)))"

section \<open>The stages\<close>

lemma find_intent_snoc:
  "row_id r \<notin> row_id ` set (intent_rows db) \<Longrightarrow> intent_rows db' = intent_rows db @ [r] \<Longrightarrow> find_intent db' (row_id r) = Some r"
proof -
  have "row_id r \<notin> row_id ` set rs \<Longrightarrow> List.find (\<lambda>x. row_id x = row_id r) (rs @ [r]) = Some r" for rs
    by (induction rs) auto
  then show "row_id r \<notin> row_id ` set (intent_rows db) \<Longrightarrow> intent_rows db' = intent_rows db @ [r] \<Longrightarrow> find_intent db' (row_id r) = Some r"
    by (simp add: find_intent_def)
qed

lemma created_intent_core [simp]:
  "Payload (created_intent e q) = si_Payload q" "(created_intent e q)\<lparr>Status := INTENT_STATUS_PENDING\<rparr> = created_intent e q"
  by (simp_all add: created_intent_def Let_def split: prod.splits)

lemma submit_stage:
  assumes "well_signed ed q" "pg_up e" "pg_commit e = PgCommitted" "pg_fresh c e db" "outbox_rows db = []"
    and "marshal c (created_intent e q) = Some ev" "uuid_in c (pg_outbox_id e) = Some v"
  obtains db1 r o' where
    "SubmitIntent ed (postgres_store c) e db q =
       (Inr \<lparr>sr_IntentId = pg_id e, sr_Status = INTENT_STATUS_PENDING, sr_CreatedAt = CreatedAt (created_intent e q)\<rparr>, db1)"
    "intent_rows db1 = intent_rows db @ [r]" "find_intent db1 (pg_id e) = Some r" "row_status r = ''INTENT_STATUS_PENDING''"
    "row_type r = IntentType_String (si_Type q)" "row_deadline r = map_option (ts_round c) (fst (stored_constraints (si_Constraints q)))"
    "outbox_rows db1 = [o']" "ob_status o' = ''PENDING''" "row_message o' = (''intents.submitted.'' @ IntentType_String (si_Type q), ev)"
proof -
  have "v \<notin> ob_id ` set (outbox_rows db)" using assms(5) by simp
  from pg_Create_healthy [OF assms(4,2,3,6,7) this]
  obtain db1 where c: "pg_Create c e db q = (Inr (created_intent e q), db1)"
    "create_body c e db q = Inr (created_intent e q, db1)" by metis
  have u: "uuid_in c (pg_id e) = Some (pg_id e)" "pg_id e \<notin> row_id ` set (intent_rows db)" using assms(4) by (simp_all add: pg_fresh_def)
  let ?r = "(new_row e q)\<lparr>row_id := pg_id e, row_deadline := map_option (ts_round c) (row_deadline (new_row e q)),
      row_created_at := ts_round c (pg_now e), row_updated_at := ts_round c (pg_now e)\<rparr>"
  let ?o = "\<lparr>ob_id = v, ob_topic = ''intents.submitted.'' @ IntentType_String (si_Type q), ob_payload = ev,
      ob_status = ''PENDING'', ob_retry_count = 0, ob_created_at = ts_round c (pg_now e), ob_updated_at = ts_round c (pg_now e)\<rparr>"
  have rows: "intent_rows db1 = intent_rows db @ [?r]" "outbox_rows db1 = [?o]"
    using c(2) u(1) assms(5-7) by (elim create_bodyD; simp)+
  have "find_intent db1 (pg_id e) = Some ?r" using find_intent_snoc [of ?r db db1] u(2) rows(1) by simp
  moreover have "SubmitIntent ed (postgres_store c) e db q =
       (Inr \<lparr>sr_IntentId = pg_id e, sr_Status = INTENT_STATUS_PENDING, sr_CreatedAt = CreatedAt (created_intent e q)\<rparr>, db1)"
    by (simp add: SubmitIntent_signed [OF assms(1)] postgres_store_def c(1))
  ultimately show thesis using rows
    by (intro that [of db1 ?r ?o]) (simp_all add: row_message_def PENDING_name_def)
qed

lemma outbox_stage:
  assumes "wo_healthy w" "outbox_rows db = [o']" "ob_status o' = ''PENDING''" "0 < batchSize cfg"
  shows "processBatch cfg w (db, stored) = (None, db\<lparr>outbox_rows := []\<rparr>, stored @ [row_message o'])"
proof -
  have "claimable w o'" using assms(1,3) by (simp add: claimable_def wo_healthy_def)
  moreover have "outbox_order w [o'] = [o']" by (simp add: outbox_order_def)
  ultimately have "claim_rows cfg w db = [o']" using assms(2,4) by (simp add: claim_rows_def)
  then show ?thesis using processBatch_healthy [OF assms(1), of cfg db stored] assms(2) by simp
qed

lemma scheduler_stage:
  assumes "sched_up e" "unmarshal c msg = Some i" "uuid_in c (Id i) = Some u" "find_intent db u = Some r"
    and "row_status r = ''INTENT_STATUS_PENDING''" "\<not> expired e r"
    and "marshal c (i\<lparr>Status := INTENT_STATUS_SCHEDULED\<rparr>) = Some d"
  shows "handleSubmittedIntent c e msg (db, stored) =
    (None, set_status u (\<lambda>_. True) ''INTENT_STATUS_SCHEDULED'' (sc_db_now e) db, stored @ [(task_subject i, d)])"
  using assms
  by (simp add: handleSubmittedIntent_def sched_up_def expired_def stmt_result_def publish_def task_subject_def Let_def)

lemma engine_stage:
  assumes "exec_up e" "unmarshal c msg = Some i" "uuid_in c (Id i) = Some u" "Type i = INTENT_TYPE_TRANSFER"
    and "status_of db u = Some ''INTENT_STATUS_SCHEDULED''" "transfer_outcome (ex_wallet e) w i = (final, w')"
    and "marshal c (i\<lparr>Status := final\<rparr>) = Some d"
  shows "executeTask c e msg (db, w, stored) =
    (None, set_status u (\<lambda>_. True) (IntentStatus_String final) (ex_db_now e)
       (set_status u is_scheduled ''INTENT_STATUS_EXECUTING'' (ex_db_now e) db), w', stored @ [(executed_subject i, d)])"
proof -
  obtain x where run: "runExecutionSimulation e i w = (x, w')"
    "final = (if x = None then INTENT_STATUS_COMPLETED else INTENT_STATUS_FAILED)"
    using assms(1,4,6)
    by (auto simp: runExecutionSimulation_def transfer_outcome_def exec_up_def wallet_transfer_def split: option.splits prod.splits if_splits)
  have "ex_claim e = StmtOk" "\<not> ex_rows_error e" using assms(1) by (simp_all add: exec_up_def)
  from executeTask_claimed [OF assms(5) this assms(2,3), of w stored] show ?thesis
    using assms(1,7) run by (simp add: exec_up_def finish_task_def stmt_result_def publish_def Let_def)
qed

lemma types_set_status [simp]: "map row_type (intent_rows (set_status u cond new now db)) = map row_type (intent_rows db)"
  by (simp add: set_status_def)

section \<open>The whole way\<close>

text \<open>The stages one after the other, each reading the message the one before published\<close>

lemma transfer_stages:
  assumes "well_signed ed q" "si_Type q = INTENT_TYPE_TRANSFER" "all_up E" "0 < batchSize cfg"
    and "pg_fresh c (pl_submit E) (pf_db s)" "outbox_rows (pf_db s) = []" "uuid_in c (pg_outbox_id (pl_submit E)) \<noteq> None"
    and "carries c (created_intent (pl_submit E) q)" "sound_file (pf_ledger s)"
    and "\<forall>d. fst (stored_constraints (si_Constraints q)) = Some d \<longrightarrow> sc_now (pl_sched E) \<le> ts_round c d"
    and "valid_utf8 (pg_id (pl_submit E))" "length (pg_id (pl_submit E)) \<le> 1000"
    and "\<forall>r \<in> set (intent_rows (pf_db s)). valid_utf8 (row_type r) \<and> length (row_type r) \<le> 1000"
    and "transfer_outcome (ex_wallet (pl_exec E)) (pf_wallet s) (created_intent (pl_submit E) q) = (final, w')"
  obtains resp db1 db2 m1 db3 m2 db4 m3 file' b where
    "SubmitIntent ed (postgres_store c) (pl_submit E) (pf_db s) q = (Inr resp, db1)"
    "processBatch cfg (pl_worker E) (db1, pf_stored s) = (None, db2, pf_stored s @ [m1])" "under ''intents.submitted.'' m1"
    "handleSubmittedIntent c (pl_sched E) (snd m1) (db2, pf_stored s @ [m1]) = (None, db3, pf_stored s @ [m1, m2])"
    "under ''tasks.scheduled.'' m2"
    "executeTask c (pl_exec E) (snd m2) (db3, pf_wallet s, pf_stored s @ [m1, m2]) = (None, db4, w', pf_stored s @ [m1, m2, m3])"
    "under ''intents.executed.'' m3"
    "handleExecutedIntent c (pl_val E) db4 (snd m3) (pf_ledger s) = (None, file')" "sound_file file'"
    "file_blocks file' = file_blocks (pf_ledger s) @ [b]"
    "block_request b = (pg_id (pl_submit E), ''INTENT_TYPE_TRANSFER'', IntentStatus_String final)"
    "status_of db4 (pg_id (pl_submit E)) = Some (IntentStatus_String final)" "outbox_rows db4 = []"
proof -
  let ?i = "created_intent (pl_submit E) q" and ?u = "pg_id (pl_submit E)"
  have up: "pg_up (pl_submit E)" "pg_commit (pl_submit E) = PgCommitted" "wo_healthy (pl_worker E)"
    "sched_up (pl_sched E)" "exec_up (pl_exec E)" "val_ok (pl_val E)"
    using assms(3) by (simp_all add: all_up_def)
  have u: "uuid_in c ?u = Some ?u" using assms(5) by (simp add: pg_fresh_def)
  have final: "final \<in> {INTENT_STATUS_COMPLETED, INTENT_STATUS_FAILED}"
    using assms(14) by (auto simp: transfer_outcome_def split: option.splits prod.splits if_splits)
  have known: "known_status INTENT_STATUS_PENDING" "known_status INTENT_STATUS_SCHEDULED" "known_status final"
    using final by (auto simp: known_status_def)
  obtain d1 d2 d3 where ev: "marshal c ?i = Some d1" "unmarshal c d1 = Some ?i"
    and task: "marshal c (?i\<lparr>Status := INTENT_STATUS_SCHEDULED\<rparr>) = Some d2" "unmarshal c d2 = Some (?i\<lparr>Status := INTENT_STATUS_SCHEDULED\<rparr>)"
    and fin: "marshal c (?i\<lparr>Status := final\<rparr>) = Some d3" "unmarshal c d3 = Some (?i\<lparr>Status := final\<rparr>)"
    using assms(8) known unfolding carries_def by (metis created_intent_core(2))
  obtain v where v: "uuid_in c (pg_outbox_id (pl_submit E)) = Some v" using assms(7) by blast
  obtain resp db1 r o' where sub: "SubmitIntent ed (postgres_store c) (pl_submit E) (pf_db s) q = (Inr resp, db1)"
    "intent_rows db1 = intent_rows (pf_db s) @ [r]" "find_intent db1 ?u = Some r" "row_status r = ''INTENT_STATUS_PENDING''"
    "row_type r = ''INTENT_TYPE_TRANSFER''" "row_deadline r = map_option (ts_round c) (fst (stored_constraints (si_Constraints q)))"
    "outbox_rows db1 = [o']" "ob_status o' = ''PENDING''" "snd (row_message o') = d1"
    "fst (row_message o') = ''intents.submitted.'' @ ''INTENT_TYPE_TRANSFER''"
    by (rule submit_stage [OF assms(1) up(1,2) assms(5,6) ev(1) v]) (simp add: assms(2))
  let ?db2 = "db1\<lparr>outbox_rows := []\<rparr>"
  note box = outbox_stage [OF up(3) sub(7,8) assms(4), of "pf_stored s"]
  have find2: "find_intent ?db2 ?u = Some r" using sub(3) by (simp add: find_intent_def)
  have "\<not> expired (pl_sched E) r" using assms(10) sub(6) by (auto simp: expired_def split: option.splits)
  note sched = scheduler_stage [OF up(4) ev(2) _ find2 sub(4) this task(1), simplified, OF u]
  let ?db3 = "set_status ?u (\<lambda>_. True) ''INTENT_STATUS_SCHEDULED'' (sc_db_now (pl_sched E)) ?db2"
  have "status_of ?db2 ?u = Some ''INTENT_STATUS_PENDING''" using find2 sub(4) by (simp add: status_of_def)
  then have st3: "status_of ?db3 ?u = Some ''INTENT_STATUS_SCHEDULED''" by (simp add: status_of_set_status)
  have out: "transfer_outcome (ex_wallet (pl_exec E)) (pf_wallet s) (?i\<lparr>Status := INTENT_STATUS_SCHEDULED\<rparr>) = (final, w')"
    using assms(14) by simp
  have m4: "marshal c (?i\<lparr>Status := INTENT_STATUS_SCHEDULED\<rparr>\<lparr>Status := final\<rparr>) = Some d3" using fin(1) by simp
  note eng = engine_stage [OF up(5) task(2) _ _ st3 out m4, simplified, OF u assms(2)]
  let ?db4 = "set_status ?u (\<lambda>_. True) (IntentStatus_String final) (ex_db_now (pl_exec E))
     (set_status ?u is_scheduled ''INTENT_STATUS_EXECUTING'' (ex_db_now (pl_exec E)) ?db3)"
  have st4: "status_of ?db4 ?u = Some (IntentStatus_String final)" using st3 by (simp add: status_of_set_status)
  obtain r4 where r4: "find_intent ?db4 ?u = Some r4" "row_type r4 = ''INTENT_TYPE_TRANSFER''" "row_status r4 = IntentStatus_String final"
    using find2 sub(5) find_intent_id [OF find2] by (simp add: find_intent_set_status)
  have aud: "auditable c (pl_val E, ?db4, d3) = Some (?u, ''INTENT_TYPE_TRANSFER'', IntentStatus_String final)"
    using up(6) u r4 final fin(2) by (auto simp: auditable_def val_ok_def final_statuses_def)
  have "valid_utf8 ''INTENT_TYPE_TRANSFER''" by code_simp
  then have "\<forall>t \<in> set (map row_type (intent_rows db1)). valid_utf8 t \<and> length t \<le> 1000" using assms(13) sub(2,5) by auto
  also have "map row_type (intent_rows db1) = map row_type (intent_rows ?db4)" by simp
  finally have types: "\<forall>x \<in> set (intent_rows ?db4). valid_utf8 (row_type x) \<and> length (row_type x) \<le> 1000"
    by (simp only: list.set_map ball_simps)
  have "delivery_ok c (pl_val E, ?db4, d3)"
    using up(6) types assms(11,12) fin(2) by (simp add: delivery_ok_def val_ok_def)
  from handle_delivery [OF assms(9) this] aud obtain b file' where val:
    "handleExecutedIntent c (pl_val E) ?db4 (d3) (pf_ledger s) = (None, file')" "sound_file file'"
    "file_blocks file' = file_blocks (pf_ledger s) @ [b]" "block_request b = (?u, ''INTENT_TYPE_TRANSFER'', IntentStatus_String final)"
    by auto
  show thesis
    by (rule that [of resp db1 ?db2 "row_message o'" ?db3 "(task_subject ?i, d2)" ?db4
          "(executed_subject (?i\<lparr>Status := INTENT_STATUS_SCHEDULED\<rparr>), d3)" file' b])
      (simp_all add: sub box sched eng val st4 task_subject_def executed_subject_def under_def)
qed

text \<open>
  C4. A signed transfer is settled and audited.  When every call works, no older event waits and the deadline
  is kept, one run of each service takes a signed transfer from its submission to the ledger: every
  service answers without an error; the accounts and the final status are what the wallet makes of the
  signed payload; exactly three messages were published; no event is left in the outbox; and the
  ledger still verifies and has grown by the one block with the intent's identifier, type and final status.
\<close>

theorem signed_transfer_is_settled:
  assumes "well_signed ed q" "si_Type q = INTENT_TYPE_TRANSFER" "all_up E" "0 < batchSize cfg"
    and "pg_fresh c (pl_submit E) (pf_db s)" "outbox_rows (pf_db s) = []" "uuid_in c (pg_outbox_id (pl_submit E)) \<noteq> None"
    and "carries c (created_intent (pl_submit E) q)" "sound_file (pf_ledger s)"
    and "\<forall>d. fst (stored_constraints (si_Constraints q)) = Some d \<longrightarrow> sc_now (pl_sched E) \<le> ts_round c d"
    and "valid_utf8 (pg_id (pl_submit E))" "length (pg_id (pl_submit E)) \<le> 1000"
    and "\<forall>r \<in> set (intent_rows (pf_db s)). valid_utf8 (row_type r) \<and> length (row_type r) \<le> 1000"
    and "transfer_outcome (ex_wallet (pl_exec E)) (pf_wallet s) (created_intent (pl_submit E) q) = (final, w')"
    and "pipeline c ed cfg E q s = (a, s')"
  shows "is_ok (an_submit a) \<and> (an_worker a, an_sched a, an_exec a, an_val a) = (None, None, None, None)
    \<and> pf_wallet s' = w' \<and> status_of (pf_db s') (pg_id (pl_submit E)) = Some (IntentStatus_String final)
    \<and> outbox_rows (pf_db s') = [] \<and> length (pf_stored s') = length (pf_stored s) + 3
    \<and> (\<exists>b. sound_file (pf_ledger s') \<and> file_blocks (pf_ledger s') = file_blocks (pf_ledger s) @ [b]
         \<and> block_request b = (pg_id (pl_submit E), ''INTENT_TYPE_TRANSFER'', IntentStatus_String final))"
proof -
  obtain resp db1 db2 m1 db3 m2 db4 m3 file' b where st:
    "SubmitIntent ed (postgres_store c) (pl_submit E) (pf_db s) q = (Inr resp, db1)"
    "processBatch cfg (pl_worker E) (db1, pf_stored s) = (None, db2, pf_stored s @ [m1])"
    "handleSubmittedIntent c (pl_sched E) (snd m1) (db2, pf_stored s @ [m1]) = (None, db3, pf_stored s @ [m1, m2])"
    "executeTask c (pl_exec E) (snd m2) (db3, pf_wallet s, pf_stored s @ [m1, m2]) = (None, db4, w', pf_stored s @ [m1, m2, m3])"
    "handleExecutedIntent c (pl_val E) db4 (snd m3) (pf_ledger s) = (None, file')" "sound_file file'"
    "file_blocks file' = file_blocks (pf_ledger s) @ [b]"
    "block_request b = (pg_id (pl_submit E), ''INTENT_TYPE_TRANSFER'', IntentStatus_String final)"
    "status_of db4 (pg_id (pl_submit E)) = Some (IntentStatus_String final)" "outbox_rows db4 = []"
    using assms(1-14) by (rule transfer_stages)
  have "pipeline c ed cfg E q s =
      (\<lparr>an_submit = Inr resp, an_worker = None, an_sched = None, an_exec = None, an_val = None\<rparr>,
       \<lparr>pf_db = db4, pf_wallet = w', pf_stored = pf_stored s @ [m1, m2, m3], pf_ledger = file'\<rparr>)"
    by (simp add: pipeline_def st)
  with assms(15) st(6-10) show ?thesis by auto
qed

section \<open>Instances\<close>

definition pay_request :: "SubmitIntentRequest" where
  "pay_request = signed_request INTENT_TYPE_TRANSFER pay_payload"

definition pipeline_up :: "pipeline_env" where
  "pipeline_up = \<lparr>pl_submit = env_of ''i'', pl_worker = steady_worker Acked, pl_sched = sched_ok Acked, pl_exec = exec_ok, pl_val = val_up\<rparr>"

text \<open>A codec for the one intent of the instance, which is told by its status\<close>

definition status_codecs :: "codecs" where
  "status_codecs = plain_codecs\<lparr>marshal := (\<lambda>i. Some (IntentStatus_String (Status i))),
     unmarshal := (\<lambda>b. Some ((created_intent (env_of ''i'') pay_request)\<lparr>Status := parseIntentStatus b\<rparr>))\<rparr>"

definition new_platform :: "platform" where
  "new_platform = \<lparr>pf_db = empty_db, pf_wallet = purse, pf_stored = [], pf_ledger = None\<rparr>"

lemma signed_transfer_is_settled_witness:
  "\<exists>a s' b. pipeline status_codecs toy_ed (NewWorker 0 0 0) pipeline_up pay_request new_platform = (a, s')
     \<and> status_of (pf_db s') ''i'' = Some ''INTENT_STATUS_COMPLETED'' \<and> wbal (wallet_abs (pf_wallet s')) ''bob'' = Some 100000000
     \<and> file_blocks (pf_ledger s') = [b] \<and> BStatus b = ''INTENT_STATUS_COMPLETED''"
proof -
  let ?i = "created_intent (env_of ''i'') pay_request"
  have q: "well_signed toy_ed pay_request" "si_Type pay_request = INTENT_TYPE_TRANSFER" "si_Payload pay_request = pay_payload"
    "fst (stored_constraints (si_Constraints pay_request)) = None"
    unfolding pay_request_def by (rule well_signed_sample) (simp_all add: signed_request_def stored_constraints_def)
  have u: "uuid_in status_codecs x = Some x" for x by (simp add: status_codecs_def)
  have "all_up pipeline_up"
    by (simp add: all_up_def pipeline_up_def pg_up_def wo_healthy_def steady_worker_def sched_up_def sched_ok_def exec_up_def exec_ok_def
        val_ok_def val_up_def) (simp add: ledger_up_def epoch_text)
  moreover have "carries status_codecs ?i" by (simp add: carries_def status_codecs_def)
  moreover have "pg_fresh status_codecs (env_of ''i'') empty_db" by (simp add: pg_fresh_def u empty_db_def)
  moreover have "valid_utf8 ''i''" by code_simp
  moreover obtain resp w' where w': "handler_Transfer healthy_env purse
      (transfer_request (pay_intent ''i'') \<lparr>tp_from = ''alice'', tp_to = ''bob'', tp_amount = Fin 1\<rparr>) = (Inr resp, w')"
    "wbal (wallet_abs w') ''bob'' = Some 100000000" by (rule pay_handler [of "''i''"]) simp
  moreover have "transfer_outcome healthy_env purse ?i = (INTENT_STATUS_COMPLETED, w')"
    using w'(1) by (simp add: transfer_outcome_def q(3) parse_pay transfer_request_def)
  moreover obtain a s' where run: "pipeline status_codecs toy_ed (NewWorker 0 0 0) pipeline_up pay_request new_platform = (a, s')" by fastforce
  ultimately show ?thesis
    using signed_transfer_is_settled [OF q(1,2) _ _ _ _ _ _ _ _ _ _ _ _ run, of INTENT_STATUS_COMPLETED w'] q(4) sound_empty
    by (auto simp: new_platform_def pipeline_up_def NewWorker_def u exec_ok_def empty_db_def file_blocks_def block_request_def)
qed

end
