(* ===== verification/AuditTrail.thy ===== *)
theory AuditTrail imports Pipeline Lifecycle begin

text \<open>
  The platform as a whole: any number of clients, the intent service, its outbox worker, the scheduler, the
  execution engine, the wallet and the validator, each handling what reaches it at any time, in any order,
  repeatedly, and with failures at any statement.  What the ledger then says about an intent is true: the
  intent was signed, and a completed transfer was carried out, once.

  A handler runs without another one between its statements; theories \<open>WalletLocks\<close> and \<open>WorkerPool\<close>
  interleave the statements of the wallet and of the engine.
\<close>

section \<open>The steps\<close>

text \<open>
  What PostgreSQL and the wire guarantee for the texts of a row: a drawn identifier and the name or number
  of a type are UTF-8 text of ordinary length.
\<close>

definition ordinary_text :: "string \<Rightarrow> bool" where
  "ordinary_text s \<longleftrightarrow> valid_utf8 s \<and> length s \<le> 1000"

text \<open>
  Opening, reading and synchronising the ledger may fail, but a write that fails has written nothing: theory
  \<open>LedgerTorn\<close> is about those that are cut off.  The text of the time has an ordinary length.
\<close>

definition all_or_nothing :: "ledger_env \<Rightarrow> bool" where
  "all_or_nothing e \<longleftrightarrow> le_write_fails e \<in> {None, Some 0} \<and> length (Format_RFC3339 (le_zone e) (le_now e)) \<le> 40"

inductive audit_step :: "codecs \<Rightarrow> ed25519 \<Rightarrow> platform \<Rightarrow> platform \<Rightarrow> bool" for c ed where
  submission: "SubmitIntent ed (postgres_store c) e (pf_db s) q = (resp, db') \<Longrightarrow> pg_fresh c e (pf_db s) \<Longrightarrow>
     ordinary_text (pg_id e) \<Longrightarrow> ordinary_text (IntentType_String (si_Type q)) \<Longrightarrow>
     audit_step c ed s (s\<lparr>pf_db := db'\<rparr>)"
| batch: "processBatch cfg w (pf_db s, pf_stored s) = (we, db', stored') \<Longrightarrow>
     audit_step c ed s (s\<lparr>pf_db := db', pf_stored := stored'\<rparr>)"
| scheduler: "m \<in> set (pf_stored s) \<Longrightarrow> under ''intents.submitted.'' m \<Longrightarrow> \<forall>d. sc_other e d = d \<Longrightarrow>
     handleSubmittedIntent c e (snd m) (pf_db s, pf_stored s) = (se, db', stored') \<Longrightarrow>
     audit_step c ed s (s\<lparr>pf_db := db', pf_stored := stored'\<rparr>)"
| engine: "m \<in> set (pf_stored s) \<Longrightarrow> under ''tasks.scheduled.'' m \<Longrightarrow> \<forall>d. ex_other e d = d \<Longrightarrow>
     executeTask c e (snd m) (pf_db s, pf_wallet s, pf_stored s) = (xe, db', w', stored') \<Longrightarrow>
     audit_step c ed s (s\<lparr>pf_db := db', pf_wallet := w', pf_stored := stored'\<rparr>)"
| validator: "m \<in> set (pf_stored s) \<Longrightarrow> under ''intents.executed.'' m \<Longrightarrow> all_or_nothing (va_ledger e) \<Longrightarrow>
     handleExecutedIntent c e (pf_db s) (snd m) (pf_ledger s) = (ve, ledger') \<Longrightarrow>
     audit_step c ed s (s\<lparr>pf_ledger := ledger'\<rparr>)"
| wallet_client: "serve env (pf_wallet s) r = (ok, w') \<Longrightarrow> audit_step c ed s (s\<lparr>pf_wallet := w'\<rparr>)"

section \<open>What holds in every state\<close>

definition row_signed :: "ed25519 \<Rightarrow> intent_row \<Rightarrow> bool" where
  "row_signed ed r \<longleftrightarrow> Verify ed (GetSignBytes (row_type r) (row_submitter_id r) (row_payload r))
     (row_signature r) (row_submitter_public_key r) = Inr True"

text \<open>The wallet's log has the transfer of the row's payload under the row's identifier.\<close>

definition row_paid :: "wallet_db \<Rightarrow> intent_row \<Rightarrow> bool" where
  "row_paid w r \<longleftrightarrow> (\<exists>t \<in> set (transactions w). \<exists>p wire. parse_transfer (row_payload r) = Some p \<and> reference_id t = row_id r
     \<and> from_account t = Some (tp_from p) \<and> to_account t = Some (tp_to p) \<and> numeric_write wire (tp_amount p) = Some (wtx_amount t))"

definition row_ok :: "codecs \<Rightarrow> ed25519 \<Rightarrow> wallet_db \<Rightarrow> intent_row \<Rightarrow> bool" where
  "row_ok c ed w r \<longleftrightarrow> uuid_in c (row_id r) = Some (row_id r) \<and> ordinary_text (row_id r) \<and> ordinary_text (row_type r)
     \<and> row_signed ed r
     \<and> (row_status r = ''INTENT_STATUS_COMPLETED'' \<and> row_type r = ''INTENT_TYPE_TRANSFER'' \<longrightarrow> row_paid w r)"

text \<open>A message carries an intent of the table.\<close>

definition genuine :: "codecs \<Rightarrow> intent_db \<Rightarrow> bytes \<Rightarrow> bool" where
  "genuine c db d \<longleftrightarrow> (\<exists>i. unmarshal c d = Some i \<and> (\<exists>r \<in> set (intent_rows db). row_id r = Id i
     \<and> row_type r = IntentType_String (Type i) \<and> row_payload r = Payload i))"

definition block_true :: "intent_db \<Rightarrow> Block \<Rightarrow> bool" where
  "block_true db b \<longleftrightarrow> (\<exists>r \<in> set (intent_rows db). block_request b = (row_id r, row_type r, row_status r)
     \<and> row_status r \<in> set final_statuses)"

definition trail :: "codecs \<Rightarrow> ed25519 \<Rightarrow> platform \<Rightarrow> bool" where
  "trail c ed s \<longleftrightarrow> distinct (map row_id (intent_rows (pf_db s))) \<and> (\<forall>r \<in> set (intent_rows (pf_db s)). row_ok c ed (pf_wallet s) r)
     \<and> (\<forall>r \<in> set (outbox_rows (pf_db s)). genuine c (pf_db s) (ob_payload r)) \<and> (\<forall>m \<in> set (pf_stored s). genuine c (pf_db s) (snd m))
     \<and> wallet_wf (pf_wallet s) \<and> sound_file (pf_ledger s) \<and> (\<forall>b \<in> set (file_blocks (pf_ledger s)). block_true (pf_db s) b)"

text \<open>The codec of the messages reads back what it wrote.\<close>

definition faithful :: "codecs \<Rightarrow> bool" where
  "faithful c \<longleftrightarrow> (\<forall>i d. marshal c i = Some d \<longrightarrow> unmarshal c d = Some i)"

section \<open>Rows that develop\<close>

lemma developsD:
  assumes "develops r r'"
  shows "row_id r' = row_id r" "row_type r' = row_type r" "row_payload r' = row_payload r"
    "row_signed ed r' = row_signed ed r" "row_paid w r' = row_paid w r" "forward (row_status r) (row_status r')"
proof -
  have r': "r' = r\<lparr>row_status := row_status r', row_updated_at := row_updated_at r'\<rparr>" using assms by (simp add: develops_def)
  show "row_id r' = row_id r" "row_type r' = row_type r" "row_payload r' = row_payload r"
    "row_signed ed r' = row_signed ed r" "row_paid w r' = row_paid w r"
    by (subst r'; simp add: row_signed_def row_paid_def)+
  show "forward (row_status r) (row_status r')" using assms by (simp add: develops_def)
qed

lemma final_stays: "s \<in> set final_statuses \<Longrightarrow> forward s s' \<Longrightarrow> s' = s"
  by (auto simp: forward_def stage_of_def final_statuses_def split: if_splits)

definition grows :: "intent_db \<Rightarrow> intent_db \<Rightarrow> bool" where
  "grows db db' \<longleftrightarrow> (\<exists>olds news. intent_rows db' = olds @ news \<and> list_all2 develops (intent_rows db) olds)"

lemma growsD:
  assumes "grows db db'" "r \<in> set (intent_rows db)"
  obtains r' where "r' \<in> set (intent_rows db')" "develops r r'"
proof -
  obtain olds news where "intent_rows db' = olds @ news" "list_all2 develops (intent_rows db) olds"
    using assms(1) by (auto simp: grows_def)
  with assms(2) that show thesis by (force simp: list_all2_conv_all_nth in_set_conv_nth)
qed

lemma grows_same [simp]: "intent_rows db' = intent_rows db \<Longrightarrow> grows db db'"
  unfolding grows_def using rows_refl by (intro exI [of _ "intent_rows db'"] exI [of _ "[]"]) simp

lemma grows_rows: "list_all2 develops (intent_rows db) (intent_rows db') \<Longrightarrow> grows db db'"
  unfolding grows_def by (intro exI [of _ "intent_rows db'"] exI [of _ "[]"]) simp

lemma genuine_grows: "grows db db' \<Longrightarrow> genuine c db d \<Longrightarrow> genuine c db' d"
  unfolding genuine_def by (metis growsD developsD(1-3))

lemma block_true_grows:
  assumes "grows db db'" "block_true db b"
  shows "block_true db' b"
proof -
  obtain r where r: "r \<in> set (intent_rows db)" "block_request b = (row_id r, row_type r, row_status r)" "row_status r \<in> set final_statuses"
    using assms(2) by (auto simp: block_true_def)
  obtain r' where r': "r' \<in> set (intent_rows db')" "develops r r'" using assms(1) r(1) by (rule growsD)
  have "row_status r' = row_status r" using final_stays [OF r(3) developsD(6) [OF r'(2)]] .
  with r r'(1) developsD(1,2) [OF r'(2)] show ?thesis unfolding block_true_def by (intro bexI [of _ r']) simp_all
qed

lemma row_ok_paid: "row_ok c ed w r \<Longrightarrow> set (transactions w) \<subseteq> set (transactions w') \<Longrightarrow> row_ok c ed w' r"
  unfolding row_ok_def row_paid_def by blast

text \<open>A row that developed without being completed\<close>

definition kept :: "intent_db \<Rightarrow> intent_row \<Rightarrow> bool" where
  "kept db r' \<longleftrightarrow> (\<exists>r \<in> set (intent_rows db). develops r r' \<and> (r' = r \<or> row_status r' \<noteq> ''INTENT_STATUS_COMPLETED''))"

lemma kept_same [simp]: "r \<in> set (intent_rows db) \<Longrightarrow> kept db r"
  unfolding kept_def by (intro bexI [of _ r]) simp_all

text \<open>What a step has to show: rows only develop, those it has written are in order, and so are its messages.\<close>

lemma trail_step:
  assumes "trail c ed s" "grows (pf_db s) db'" "distinct (map row_id (intent_rows db'))"
    and "\<forall>r' \<in> set (intent_rows db'). kept (pf_db s) r' \<or> row_ok c ed w' r'"
    and "\<forall>r \<in> set (outbox_rows db'). genuine c (pf_db s) (ob_payload r) \<or> genuine c db' (ob_payload r)"
    and "\<forall>m \<in> set stored'. genuine c (pf_db s) (snd m) \<or> genuine c db' (snd m)"
    and "wallet_wf w'" "set (transactions (pf_wallet s)) \<subseteq> set (transactions w')"
  shows "trail c ed (s\<lparr>pf_db := db', pf_wallet := w', pf_stored := stored'\<rparr>)"
proof -
  have t: "\<forall>r \<in> set (intent_rows (pf_db s)). row_ok c ed (pf_wallet s) r" "sound_file (pf_ledger s)"
    "\<forall>b \<in> set (file_blocks (pf_ledger s)). block_true (pf_db s) b"
    using assms(1) by (simp_all add: trail_def)
  have "row_ok c ed w' r'" if "r' \<in> set (intent_rows db')" for r'
  proof -
    from assms(4) that have "kept (pf_db s) r' \<or> row_ok c ed w' r'" by blast
    then show ?thesis unfolding kept_def
    proof (elim disjE bexE conjE)
      fix r
      assume r: "r \<in> set (intent_rows (pf_db s))" "develops r r'"
      have ok: "row_ok c ed w' r" using t(1) r(1) row_ok_paid assms(8) by blast
      then show "row_ok c ed w' r'" if "r' = r" using that by simp
      show "row_ok c ed w' r'" if "row_status r' \<noteq> ''INTENT_STATUS_COMPLETED''"
        using ok that developsD [OF r(2)] by (simp add: row_ok_def)
    qed
  qed
  then show ?thesis
    using assms(3,5-7) t(2,3) genuine_grows [OF assms(2)] block_true_grows [OF assms(2)] by (auto simp: trail_def)
qed

section \<open>Submission and outbox\<close>

lemma submission_writes:
  assumes "SubmitIntent ed (postgres_store c) e db q = (resp, db')" "pg_fresh c e db" "db' \<noteq> db"
  obtains r o' where "intent_rows db' = intent_rows db @ [r]" "outbox_rows db' = outbox_rows db @ [o']" "row_id r = pg_id e"
    "row_id r \<notin> row_id ` set (intent_rows db)" "row_status r = PENDING_name" "row_signed ed r" "row_type r = IntentType_String (si_Type q)"
    "row_payload r = si_Payload q" "marshal c (created_intent e q) = Some (ob_payload o')"
proof -
  have signed: "well_signed ed q" using SubmitIntent_refused [of ed q "postgres_store c" e db] assms(1,3) by fastforce
  with assms(1) obtain x where "pg_Create c e db q = (x, db')"
    by (auto simp: SubmitIntent_signed postgres_store_def split: prod.splits sum.splits)
  then obtain i where body: "create_body c e db q = Inr (i, db')"
    using assms(3) by (cases x) (auto dest!: pg_CreateD pg_Create_errorD)
  have fresh: "uuid_in c (pg_id e) = Some (pg_id e)" "pg_id e \<notin> row_id ` set (intent_rows db)"
    using assms(2) by (simp_all add: pg_fresh_def)
  let ?r = "(new_row e q)\<lparr>row_id := pg_id e, row_deadline := map_option (ts_round c) (row_deadline (new_row e q)),
      row_created_at := ts_round c (pg_now e), row_updated_at := ts_round c (pg_now e)\<rparr>"
  have "\<exists>o'. outbox_rows db' = outbox_rows db @ [o'] \<and> marshal c (created_intent e q) = Some (ob_payload o')"
    using body by (elim create_bodyD) (intro exI conjI, assumption, simp)
  moreover have "intent_rows db' = intent_rows db @ [?r]" using body fresh(1) by (elim create_bodyD) simp
  ultimately obtain o' where o': "intent_rows db' = intent_rows db @ [?r]" "outbox_rows db' = outbox_rows db @ [o']"
    "marshal c (created_intent e q) = Some (ob_payload o')" by blast
  show thesis
    by (rule that [OF o'(1,2) _ _ _ _ _ _ o'(3)]) (use signed fresh in \<open>simp_all add: row_signed_def well_signed_def\<close>)
qed

lemma genuineI:
  "faithful c \<Longrightarrow> marshal c i = Some d \<Longrightarrow> r \<in> set (intent_rows db) \<Longrightarrow> row_id r = Id i \<Longrightarrow>
    row_type r = IntentType_String (Type i) \<Longrightarrow> row_payload r = Payload i \<Longrightarrow> genuine c db d"
  unfolding genuine_def faithful_def by blast

lemma genuine_restatus:
  assumes "genuine c db m" "unmarshal c m = Some i" "faithful c" "marshal c (i\<lparr>Status := st\<rparr>) = Some d"
  shows "genuine c db d"
proof -
  obtain r where "r \<in> set (intent_rows db)" "row_id r = Id i" "row_type r = IntentType_String (Type i)" "row_payload r = Payload i"
    using assms(1,2) by (auto simp: genuine_def)
  with assms(3,4) show ?thesis by (intro genuineI [of c "i\<lparr>Status := st\<rparr>" d r db]) simp_all
qed

lemma trail_submission:
  assumes "trail c ed s" "faithful c" "SubmitIntent ed (postgres_store c) e (pf_db s) q = (resp, db')" "pg_fresh c e (pf_db s)"
    and "ordinary_text (pg_id e)" "ordinary_text (IntentType_String (si_Type q))"
  shows "trail c ed (s\<lparr>pf_db := db'\<rparr>)"
proof (cases "db' = pf_db s")
  case False
  obtain r o' where w: "intent_rows db' = intent_rows (pf_db s) @ [r]" "outbox_rows db' = outbox_rows (pf_db s) @ [o']" "row_id r = pg_id e"
    "row_id r \<notin> row_id ` set (intent_rows (pf_db s))" "row_status r = PENDING_name" "row_signed ed r" "row_type r = IntentType_String (si_Type q)"
    "row_payload r = si_Payload q" "marshal c (created_intent e q) = Some (ob_payload o')"
    using assms(3,4) False by (rule submission_writes)
  have t: "distinct (map row_id (intent_rows (pf_db s)))" "wallet_wf (pf_wallet s)"
    "\<forall>x \<in> set (outbox_rows (pf_db s)). genuine c (pf_db s) (ob_payload x)" "\<forall>m \<in> set (pf_stored s). genuine c (pf_db s) (snd m)"
    using assms(1) by (simp_all add: trail_def)
  have "genuine c db' (ob_payload o')" using w by (intro genuineI [OF assms(2) w(9), of r]) simp_all
  moreover have "row_ok c ed (pf_wallet s) r"
    using w assms(4-6) by (simp add: row_ok_def pg_fresh_def PENDING_name_def)
  moreover have "grows (pf_db s) db'" unfolding grows_def using w(1) rows_refl by blast
  ultimately have "trail c ed (s\<lparr>pf_db := db', pf_wallet := pf_wallet s, pf_stored := pf_stored s\<rparr>)"
    using t w(1,2,4) by (intro trail_step [OF assms(1)]) auto
  then show ?thesis by simp
qed (use assms(1) in simp)

text \<open>The outbox worker writes no row of an intent, and what it leaves and publishes are events of the table.\<close>

lemma rows_update_outbox [simp]: "intent_rows (update_outbox iid f db) = intent_rows db" "intent_rows (delete_outbox iid db) = intent_rows db"
  by (simp_all add: update_outbox_def delete_outbox_def)

lemma mark_processing_rows: "mark_processing w db evs = Some db' \<Longrightarrow> intent_rows db' = intent_rows db"
  by (induction evs arbitrary: db) (auto split: if_splits)

lemma claim_intents: "claim cfg w db = (r, db') \<Longrightarrow> intent_rows db' = intent_rows db"
  by (auto simp: claim_def Let_def mark_processing_rows split: if_splits option.splits)

definition from_outbox :: "intent_db \<times> message_data list \<Rightarrow> intent_db \<times> message_data list \<Rightarrow> bool" where
  "from_outbox st st' \<longleftrightarrow> intent_rows (fst st') = intent_rows (fst st) \<and> set (outbox_keys (fst st')) \<subseteq> set (outbox_keys (fst st))
     \<and> set (snd st') \<subseteq> set (snd st) \<union> snd ` set (outbox_keys (fst st))"

lemma process_event_from:
  assumes "from_outbox st0 st" "ev_key ev \<in> set (outbox_keys (fst st0))"
  shows "from_outbox st0 (process_event cfg w ev st)"
proof -
  obtain db stored where st: "st = (db, stored)" by (cases st)
  have "(ev_Topic ev, ev_Payload ev) \<in> snd ` set (outbox_keys (fst st0))"
    using assms(2) by (intro image_eqI [of _ _ "ev_key ev"]) (simp_all add: ev_key_def)
  with assms(1) show ?thesis
    by (auto simp: process_event_def st Let_def from_outbox_def keys_update keys_delete)
qed

lemma processBatch_from: "from_outbox st (snd (processBatch cfg w st))"
proof -
  obtain db stored where st: "st = (db, stored)" by (cases st)
  obtain r db' where c: "claim cfg w db = (r, db')" by (cases "claim cfg w db")
  have start: "from_outbox st (db', stored)" using claim_intents [OF c] claim_keys [OF c] by (simp add: from_outbox_def st)
  show ?thesis
  proof (cases r)
    case (Inr evs)
    have "from_outbox st (process_events cfg w es st')" if "from_outbox st st'" "\<forall>ev \<in> set es. ev_key ev \<in> set (outbox_keys (fst st))" for es st'
      using that by (induction es arbitrary: st') (simp_all add: process_events_def process_event_from)
    moreover have evs: "\<forall>ev \<in> set evs. ev_key ev \<in> set (outbox_keys (fst st))" using claim_events c Inr st by fastforce
    moreover have "\<forall>ev \<in> set (take k evs). ev_key ev \<in> set (outbox_keys (fst st))" for k using evs by (blast dest: in_set_takeD)
    ultimately show ?thesis
      using start c Inr by (simp add: processBatch_def st Let_def split: option.splits)
  qed (use start c in \<open>simp add: processBatch_def st\<close>)
qed

lemma trail_batch:
  assumes "trail c ed s" "processBatch cfg w (pf_db s, pf_stored s) = (we, db', stored')"
  shows "trail c ed (s\<lparr>pf_db := db', pf_stored := stored'\<rparr>)"
proof -
  have f: "intent_rows db' = intent_rows (pf_db s)" "set (outbox_keys db') \<subseteq> set (outbox_keys (pf_db s))"
    "set stored' \<subseteq> set (pf_stored s) \<union> snd ` set (outbox_keys (pf_db s))"
    using processBatch_from [of "(pf_db s, pf_stored s)" cfg w] assms(2) by (simp_all add: from_outbox_def)
  have t: "distinct (map row_id (intent_rows (pf_db s)))" "wallet_wf (pf_wallet s)"
    "\<forall>x \<in> set (outbox_rows (pf_db s)). genuine c (pf_db s) (ob_payload x)" "\<forall>m \<in> set (pf_stored s). genuine c (pf_db s) (snd m)"
    using assms(1) by (simp_all add: trail_def)
  have keys: "genuine c (pf_db s) (snd (snd k))" if "k \<in> set (outbox_keys (pf_db s))" for k
    using that t(3) by (auto simp: outbox_keys_def)
  have "genuine c (pf_db s) (ob_payload x)" if "x \<in> set (outbox_rows db')" for x
  proof -
    have "(ob_id x, ob_topic x, ob_payload x) \<in> set (outbox_keys db')" using that by (auto simp: outbox_keys_def)
    with f(2) keys show ?thesis by fastforce
  qed
  moreover have "genuine c (pf_db s) (snd m)" if "m \<in> set stored'" for m
    using that f(3) t(4) keys by blast
  ultimately have "trail c ed (s\<lparr>pf_db := db', pf_wallet := pf_wallet s, pf_stored := stored'\<rparr>)"
    using t f(1) by (intro trail_step [OF assms(1)]) auto
  then show ?thesis by simp
qed

section \<open>Scheduler and execution engine\<close>

lemma developed_from:
  assumes "list_all2 develops rs rs'" "r' \<in> set rs'"
  obtains r where "r \<in> set rs" "develops r r'"
  using assms by (force simp: list_all2_conv_all_nth in_set_conv_nth)

lemma kept_develops:
  assumes "list_all2 develops (intent_rows db) (intent_rows db')" "r' \<in> set (intent_rows db')"
    and "r' \<in> set (intent_rows db) \<or> row_status r' \<noteq> ''INTENT_STATUS_COMPLETED''"
  shows "kept db r'"
proof (cases "r' \<in> set (intent_rows db)")
  case False
  obtain r where "r \<in> set (intent_rows db)" "develops r r'" using assms(1,2) by (rule developed_from)
  with assms(3) False show ?thesis by (auto simp: kept_def)
qed simp

lemma set_status_rows:
  "r' \<in> set (intent_rows (set_status u cond new now db)) \<Longrightarrow> r' \<in> set (intent_rows db) \<or> row_id r' = u \<and> row_status r' = new"
  by (auto simp: set_status_def split: if_splits)

lemma publish_cases: "publish a m stored = stored \<or> publish a m stored = stored @ [m]"
  by (simp add: publish_def)

lemma scheduler_publishes:
  assumes "handleSubmittedIntent c e msg (db, stored) = (err, db', stored')"
  shows "stored' = stored \<or> (\<exists>i subject d. unmarshal c msg = Some i \<and> marshal c (i\<lparr>Status := INTENT_STATUS_SCHEDULED\<rparr>) = Some d
    \<and> stored' = stored @ [(subject, d)])"
  using assms
  by (auto simp: handleSubmittedIntent_def publish_def Let_def split: option.splits if_splits prod.splits)

lemma trail_scheduler:
  assumes "trail c ed s" "faithful c" "m \<in> set (pf_stored s)" "\<forall>d. sc_other e d = d"
    and "handleSubmittedIntent c e (snd m) (pf_db s, pf_stored s) = (se, db', stored')"
  shows "trail c ed (s\<lparr>pf_db := db', pf_stored := stored'\<rparr>)"
proof -
  have t: "distinct (map row_id (intent_rows (pf_db s)))" "wallet_wf (pf_wallet s)"
    "\<forall>x \<in> set (outbox_rows (pf_db s)). genuine c (pf_db s) (ob_payload x)" "\<forall>m \<in> set (pf_stored s). genuine c (pf_db s) (snd m)"
    using assms(1) by (simp_all add: trail_def)
  have dev: "list_all2 develops (intent_rows (pf_db s)) (intent_rows db')" using assms(5,4) t(1) by (rule scheduler_develops)
  have "outbox_rows db' = outbox_rows (pf_db s) \<and> (\<forall>r' \<in> set (intent_rows db'). r' \<in> set (intent_rows (pf_db s))
      \<or> row_status r' \<noteq> ''INTENT_STATUS_COMPLETED'')"
  proof (cases "db' = pf_db s")
    case False
    obtain u r new where w: "new \<in> {''INTENT_STATUS_FAILED'', ''INTENT_STATUS_SCHEDULED''}"
      "db' = set_status u (\<lambda>_. True) new (sc_db_now e) (pf_db s)"
      using assms(5,4) False by (rule scheduler_writes)
    have "r' \<in> set (intent_rows (pf_db s)) \<or> row_status r' \<noteq> ''INTENT_STATUS_COMPLETED''" if "r' \<in> set (intent_rows db')" for r'
      using set_status_rows [of r' u "\<lambda>_. True" new "sc_db_now e" "pf_db s"] that w by auto
    then show ?thesis using w(2) by simp
  qed simp
  moreover have "\<forall>x \<in> set stored'. genuine c (pf_db s) (snd x)"
    using scheduler_publishes [OF assms(5)] t(4) genuine_restatus [OF bspec [OF t(4) assms(3)] _ assms(2)] by auto
  ultimately have "trail c ed (s\<lparr>pf_db := db', pf_wallet := pf_wallet s, pf_stored := stored'\<rparr>)"
    using t kept_develops [OF dev] grows_rows [OF dev] develops_ids [OF dev] by (intro trail_step [OF assms(1)]) auto
  then show ?thesis by simp
qed

lemma claim_writes:
  assumes "claim_task c e msg db = (cl, db1)"
  shows "outbox_rows db1 = outbox_rows db" "r' \<in> set (intent_rows db1) \<Longrightarrow> r' \<in> set (intent_rows db) \<or> row_status r' = ''INTENT_STATUS_EXECUTING''"
    "cl = ClaimedRow i u \<Longrightarrow> unmarshal c msg = Some i \<and> uuid_in c (Id i) = Some u"
  using assms set_status_rows [of r' _ is_scheduled "''INTENT_STATUS_EXECUTING''" "ex_db_now e" db]
  by (auto simp: claim_task_def Let_def stmt_result_def split: option.splits stmt.splits if_splits)

lemma finish_writes:
  assumes "finish_task c e i u x db stored = (err, db', stored')"
  shows "outbox_rows db' = outbox_rows db"
    "r' \<in> set (intent_rows db') \<Longrightarrow> r' \<in> set (intent_rows db) \<or>
       row_id r' = u \<and> row_status r' = (if x = None then ''INTENT_STATUS_COMPLETED'' else ''INTENT_STATUS_FAILED'')"
    "stored' = stored \<or> (\<exists>f d. marshal c (i\<lparr>Status := f\<rparr>) = Some d \<and> stored' = stored @ [(executed_subject i, d)])"
proof -
  show "outbox_rows db' = outbox_rows db"
    using assms by (auto simp: finish_task_def Let_def stmt_result_def split: stmt.splits if_splits)
  have "db' = db \<or> db' = set_status u (\<lambda>_. True) (if x = None then ''INTENT_STATUS_COMPLETED'' else ''INTENT_STATUS_FAILED'') (ex_db_now e) db"
    using assms by (cases x; cases "ex_final e") (simp_all add: finish_task_def Let_def stmt_result_def)
  then show "r' \<in> set (intent_rows db) \<or>
       row_id r' = u \<and> row_status r' = (if x = None then ''INTENT_STATUS_COMPLETED'' else ''INTENT_STATUS_FAILED'')"
    if "r' \<in> set (intent_rows db')"
  proof (elim disjE)
    assume "db' = set_status u (\<lambda>_. True) (if x = None then ''INTENT_STATUS_COMPLETED'' else ''INTENT_STATUS_FAILED'') (ex_db_now e) db"
    with that show ?thesis by (simp only:) (rule set_status_rows)
  qed (use that in simp)
  show "stored' = stored \<or> (\<exists>f d. marshal c (i\<lparr>Status := f\<rparr>) = Some d \<and> stored' = stored @ [(executed_subject i, d)])"
    using assms publish_cases by (fastforce simp: finish_task_def Let_def split: prod.splits option.splits if_splits)
qed

lemma wallet_keeps:
  assumes "serve env w r = (ok, w')" "wallet_wf w"
  shows "wallet_wf w'" "set (transactions w) \<subseteq> set (transactions w')"
proof -
  show "wallet_wf w'" using serve_wf [OF assms(2), of env r] assms(1) by simp
  show "set (transactions w) \<subseteq> set (transactions w')"
  proof (cases "is_write r")
    case True
    from serve_step [OF assms(1) this] show ?thesis by auto
  next
    case False
    with serve_read [OF False, of env w] assms(1) show ?thesis by simp
  qed
qed

lemma serve_transfer: "serve env w (ReqTransfer q) = (is_ok (fst (handler_Transfer env w q)), snd (handler_Transfer env w q))"
  by (cases "handler_Transfer env w q") (simp add: serve_def)

lemma run_wallet:
  assumes "runExecutionSimulation e i w = (x, w')" "wallet_wf w"
  shows "wallet_wf w'" "set (transactions w) \<subseteq> set (transactions w')"
proof -
  have "w' = w \<or> (\<exists>req. w' = snd (handler_Transfer (ex_wallet e) w req))"
    using assms(1) wallet_transfer_state
    by (auto simp: runExecutionSimulation_def split: IntentType.splits option.splits prod.splits if_splits) (metis snd_conv)+
  then show "wallet_wf w'" "set (transactions w) \<subseteq> set (transactions w')"
    using assms(2) wallet_keeps [OF serve_transfer] by blast+
qed

lemma run_pays:
  assumes "runExecutionSimulation e i w = (None, w')" "Type i = INTENT_TYPE_TRANSFER" "row_id r = Id i" "row_payload r = Payload i"
  shows "row_paid w' r"
proof -
  obtain p where p: "parse_transfer (Payload i) = Some p" "wallet_transfer (ex_rpc e) (ex_wallet e) w (transfer_request i p) = (True, w')"
    using assms(1,2) by (auto simp: runExecutionSimulation_def split: option.splits prod.splits if_splits)
  obtain resp where "handler_Transfer (ex_wallet e) w (transfer_request i p) = (Inr resp, w')" using wallet_transfer_ok [OF p(2)] by blast
  from handler_Transfer_moved [OF this] obtain x y where
    "moved (ex_wallet e) w (tp_from p) (tp_to p) (tp_amount p) (Id i) x y w'" by (auto simp: transfer_request_def)
  then show ?thesis using p(1) assms(3,4) by (auto simp: moved_def row_paid_def)
qed

lemma String_TRANSFER: "IntentType_String t = ''INTENT_TYPE_TRANSFER'' \<longleftrightarrow> t = INTENT_TYPE_TRANSFER"
proof -
  have "CHR ''I'' \<notin> set (int_dec n)" for n
    using nat_dec_digits [of "CHR ''I''"] by (auto simp: int_dec_def is_digit_def)
  then have "int_dec n \<noteq> ''INTENT_TYPE_TRANSFER''" for n by (metis list.set_intros(1))
  then show ?thesis by (cases t) auto
qed

lemma engine_stages:
  assumes "executeTask c e msg (db, w, stored) = (xe, db', w', stored')" "\<forall>d. ex_other e d = d"
  obtains (unclaimed) cl where "claim_task c e msg db = (cl, db')" "w' = w" "stored' = stored"
    | (claimed) i u db1 x where "claim_task c e msg db = (ClaimedRow i u, db1)" "runExecutionSimulation e i w = (x, w')"
        "finish_task c e i u x db1 stored = (xe, db', stored')"
  using assms by (auto simp: executeTask_parts split: prod.splits claim.splits)

lemma completed_is_paid:
  assumes "trail c ed s" "genuine c (pf_db s) msg" "unmarshal c msg = Some i" "uuid_in c (Id i) = Some u"
    and "runExecutionSimulation e i (pf_wallet s) = (None, w')" "set (transactions (pf_wallet s)) \<subseteq> set (transactions w')"
    and "r0 \<in> set (intent_rows (pf_db s))" "develops r0 r'" "row_id r' = u"
  shows "row_ok c ed w' r'"
proof -
  have t: "distinct (map row_id (intent_rows (pf_db s)))" "\<forall>r \<in> set (intent_rows (pf_db s)). row_ok c ed (pf_wallet s) r"
    using assms(1) by (simp_all add: trail_def)
  obtain r1 where r1: "r1 \<in> set (intent_rows (pf_db s))" "row_id r1 = Id i" "row_type r1 = IntentType_String (Type i)" "row_payload r1 = Payload i"
    using assms(2,3) by (auto simp: genuine_def)
  have "uuid_in c (Id i) = Some (Id i)" using t(2) r1(1,2) by (auto simp: row_ok_def)
  then have "row_id r0 = row_id r1" using assms(4,9) r1(2) developsD(1) [OF assms(8)] by simp
  then have same: "r0 = r1" using t(1) assms(7) r1(1) by (auto simp: distinct_map dest: inj_onD)
  have "row_ok c ed w' r1" using t(2) r1(1) row_ok_paid assms(6) by blast
  moreover have "row_paid w' r1" if "row_type r1 = ''INTENT_TYPE_TRANSFER''"
    using run_pays [OF assms(5) _ r1(2,4)] that r1(3) by (simp add: String_TRANSFER)
  ultimately show ?thesis using developsD [OF assms(8) [unfolded same]] by (simp add: row_ok_def)
qed

lemma trail_engine:
  assumes "trail c ed s" "faithful c" "m \<in> set (pf_stored s)" "\<forall>d. ex_other e d = d"
    and "executeTask c e (snd m) (pf_db s, pf_wallet s, pf_stored s) = (xe, db', w', stored')"
  shows "trail c ed (s\<lparr>pf_db := db', pf_wallet := w', pf_stored := stored'\<rparr>)"
proof -
  have t: "distinct (map row_id (intent_rows (pf_db s)))" "wallet_wf (pf_wallet s)"
    "\<forall>x \<in> set (outbox_rows (pf_db s)). genuine c (pf_db s) (ob_payload x)" "\<forall>m \<in> set (pf_stored s). genuine c (pf_db s) (snd m)"
    using assms(1) by (simp_all add: trail_def)
  have g: "genuine c (pf_db s) (snd m)" using t(4) assms(3) by blast
  have dev: "list_all2 develops (intent_rows (pf_db s)) (intent_rows db')" using assms(5,4) t(1) by (rule engine_develops)
  note step = trail_step [OF assms(1) grows_rows [OF dev]]
  from assms(5,4) show ?thesis
  proof (cases rule: engine_stages)
    case (unclaimed cl)
    have "kept (pf_db s) r'" if "r' \<in> set (intent_rows db')" for r'
      using claim_writes(2) [OF unclaimed(1) that] by (intro kept_develops [OF dev that]) auto
    then show ?thesis
      using t develops_ids [OF dev] claim_writes(1) [OF unclaimed(1)] unclaimed(2,3) by (intro step) auto
  next
    case (claimed i u db1 x)
    note cw = claim_writes [OF claimed(1)] and fw = finish_writes [OF claimed(3)] and w = run_wallet [OF claimed(2) t(2)]
    have i: "unmarshal c (snd m) = Some i" "uuid_in c (Id i) = Some u" using cw(3) by simp_all
    have "kept (pf_db s) r' \<or> row_ok c ed w' r'" if r': "r' \<in> set (intent_rows db')" for r'
    proof (cases "r' \<in> set (intent_rows (pf_db s)) \<or> row_status r' \<noteq> ''INTENT_STATUS_COMPLETED''")
      case True
      then show ?thesis using kept_develops [OF dev r'] by blast
    next
      case False
      then have "r' \<notin> set (intent_rows db1)" using cw(2) by fastforce
      then have u: "row_id r' = u" "x = None" using fw(2) [OF r'] False by (auto split: if_splits)
      obtain r0 where "r0 \<in> set (intent_rows (pf_db s))" "develops r0 r'" using developed_from [OF dev r'] .
      then show ?thesis using completed_is_paid [OF assms(1) g i claimed(2) [unfolded u(2)] w(2)] u(1) by blast
    qed
    moreover have "\<forall>x \<in> set stored'. genuine c (pf_db s) (snd x)"
      using fw(3) t(4) genuine_restatus [OF g i(1) assms(2)] by auto
    ultimately show ?thesis using t develops_ids [OF dev] cw(1) fw(1) w by (intro step) auto
  qed
qed

section \<open>Validator and clients of the wallet\<close>

definition steady :: "ledger_env \<Rightarrow> ledger_env" where
  "steady e = e\<lparr>le_open_fails := False, le_read_fails := None, le_create_fails := False, le_write_fails := None, le_sync_fails := False\<rparr>"

lemma steady_ok [simp]: "le_ok (steady e)" "le_now (steady e) = le_now e" "le_zone (steady e) = le_zone e"
  by (simp_all add: steady_def le_ok_def)

lemma readLastBlock_steady: "readLastBlock e file = Inr b \<Longrightarrow> readLastBlock (steady e) file = Inr b"
  by (auto simp: readLastBlock_def steady_def scan_file_def split: if_splits option.splits prod.splits)

lemma Append_whole:
  assumes "le_write_fails e \<in> {None, Some 0}"
  shows "snd (Append e file i t st) \<in> {file, Some (file_data file), snd (Append (steady e) file i t st)}"
proof (cases "readLastBlock e file")
  case (Inr b)
  have "next_block b (steady e) i t st = next_block b e i t st" by (simp add: next_block_def)
  then show ?thesis using Inr readLastBlock_steady [OF Inr] assms
    by (auto simp: Append_def Let_def file_data_def) (simp_all add: steady_def)
qed (simp add: Append_def)

lemma same_data [simp]:
  "sound_file (Some (file_data f)) \<longleftrightarrow> sound_file f" "file_blocks (Some (file_data f)) = file_blocks f"
  by (simp_all add: sound_file_def complete_file_def holds_def file_blocks_def)

lemma handle_whole:
  assumes "le_write_fails (va_ledger e) \<in> {None, Some 0}"
  shows "snd (handleExecutedIntent c e db msg file)
    \<in> {file, Some (file_data file), snd (handleExecutedIntent c (e\<lparr>va_ledger := steady (va_ledger e)\<rparr>) db msg file)}"
  using Append_whole [OF assms, of "file"]
  by (auto simp: handleExecutedIntent_def split_def split: option.split sum.split)

lemma trail_validator:
  assumes "trail c ed s" "m \<in> set (pf_stored s)" "all_or_nothing (va_ledger e)"
    and "handleExecutedIntent c e (pf_db s) (snd m) (pf_ledger s) = (ve, ledger')"
  shows "trail c ed (s\<lparr>pf_ledger := ledger'\<rparr>)"
proof -
  let ?e = "e\<lparr>va_ledger := steady (va_ledger e)\<rparr>"
  have t: "\<forall>r \<in> set (intent_rows (pf_db s)). row_ok c ed (pf_wallet s) r" "sound_file (pf_ledger s)"
    using assms(1) by (simp_all add: trail_def)
  have "genuine c (pf_db s) (snd m)" using assms(1,2) by (simp add: trail_def)
  then obtain i r where i: "unmarshal c (snd m) = Some i" "r \<in> set (intent_rows (pf_db s))" "row_id r = Id i" by (auto simp: genuine_def)
  have u: "uuid_in c (Id i) = Some (Id i)" "ordinary_text (Id i)" using t(1) i(2,3) by (auto simp: row_ok_def)
  have "delivery_ok c (?e, pf_db s, snd m)"
    using assms(3) t(1) u(2) i(1) by (auto simp: delivery_ok_def all_or_nothing_def row_ok_def ordinary_text_def)
  note d = handle_delivery [OF t(2) this]
  have "trail c ed (s\<lparr>pf_ledger := snd (handleExecutedIntent c ?e (pf_db s) (snd m) (pf_ledger s))\<rparr>)"
  proof (cases "auditable c (?e, pf_db s, snd m)")
    case None
    with d assms(1) show ?thesis by auto
  next
    case (Some req)
    with d obtain b g where b: "handleExecutedIntent c ?e (pf_db s) (snd m) (pf_ledger s) = (None, g)" "sound_file g"
      "file_blocks g = file_blocks (pf_ledger s) @ [b]" "block_request b = req" by auto
    obtain r' where r': "find_intent (pf_db s) (Id i) = Some r'" "row_status r' \<in> set final_statuses" "req = (Id i, row_type r', row_status r')"
      using Some i(1) u(1) by (auto simp: auditable_def split: option.splits if_splits)
    have "block_true (pf_db s) b"
      unfolding block_true_def using find_intent_in [OF r'(1)] find_intent_id [OF r'(1)] r'(2,3) b(4) by (intro bexI [of _ r']) simp_all
    with b(1-3) assms(1) show ?thesis by (simp add: trail_def)
  qed
  moreover have "trail c ed (s\<lparr>pf_ledger := Some (file_data (pf_ledger s))\<rparr>)" using assms(1) by (simp add: trail_def)
  moreover have "trail c ed (s\<lparr>pf_ledger := pf_ledger s\<rparr>)" using assms(1) by simp
  ultimately show ?thesis
    using handle_whole [of e c "pf_db s" "snd m" "pf_ledger s"] assms(3,4) by (auto simp: all_or_nothing_def)
qed

lemma trail_wallet:
  assumes "trail c ed s" "serve env (pf_wallet s) r = (ok, w')"
  shows "trail c ed (s\<lparr>pf_wallet := w'\<rparr>)"
proof -
  have "wallet_wf (pf_wallet s)" using assms(1) by (simp add: trail_def)
  note w = wallet_keeps [OF assms(2) this]
  have "trail c ed (s\<lparr>pf_db := pf_db s, pf_wallet := w', pf_stored := pf_stored s\<rparr>)"
    using assms(1) w by (intro trail_step [OF assms(1)]) (auto simp: trail_def)
  then show ?thesis by simp
qed

section \<open>Any run\<close>

lemma trail_audit_step: "audit_step c ed s s' \<Longrightarrow> faithful c \<Longrightarrow> trail c ed s \<Longrightarrow> trail c ed s'"
proof (induction rule: audit_step.cases)
  case submission
  then show ?case using trail_submission by simp
next
  case batch
  then show ?case using trail_batch by simp
next
  case scheduler
  then show ?case using trail_scheduler by simp
next
  case engine
  then show ?case using trail_engine by simp
next
  case validator
  then show ?case using trail_validator by simp
next
  case wallet_client
  then show ?case using trail_wallet by simp
qed

definition installed :: "wallet_db \<Rightarrow> platform" where
  "installed w = \<lparr>pf_db = empty_db, pf_wallet = w, pf_stored = [], pf_ledger = None\<rparr>"

lemma trail_installed: "wallet_wf w \<Longrightarrow> trail c ed (installed w)"
  using sound_empty by (simp add: trail_def installed_def empty_db_def file_blocks_def)

lemma trail_runs: "(audit_step c ed)\<^sup>*\<^sup>* s s' \<Longrightarrow> faithful c \<Longrightarrow> trail c ed s \<Longrightarrow> trail c ed s'"
  by (induction rule: rtranclp_induct) (simp_all add: trail_audit_step)

text \<open>The entries of the wallet's log under the identifier of an intent\<close>

definition entries_of :: "wallet_db \<Rightarrow> string \<Rightarrow> wtx list" where
  "entries_of w ref = filter (\<lambda>t. reference_id t = ref) (transactions w)"

lemma one_entry:
  assumes "wallet_wf w" "t \<in> set (transactions w)"
  shows "entries_of w (reference_id t) = [t]"
proof -
  have "distinct (map reference_id ts) \<Longrightarrow> t \<in> set ts \<Longrightarrow> filter (\<lambda>u. reference_id u = reference_id t) ts = [t]" for ts
    by (induction ts) (auto simp: filter_empty_conv image_iff)
  with assms show ?thesis by (simp add: entries_of_def wallet_wf_def)
qed

lemma paid_once: "wallet_wf w \<Longrightarrow> row_paid w r \<Longrightarrow>
   \<exists>t p wire. entries_of w (row_id r) = [t] \<and> parse_transfer (row_payload r) = Some p
     \<and> from_account t = Some (tp_from p) \<and> to_account t = Some (tp_to p) \<and> numeric_write wire (tp_amount p) = Some (wtx_amount t)"
  unfolding row_paid_def using one_entry by (metis (no_types, lifting))


section \<open>An instance\<close>

text \<open>A codec for the intent of the instance alone, so that it reads back all it writes\<close>

definition one_intent_codecs :: "codecs" where
  "one_intent_codecs = status_codecs\<lparr>marshal := (\<lambda>i. if known_status (Status i)
       \<and> i\<lparr>Status := INTENT_STATUS_PENDING\<rparr> = created_intent (env_of ''i'') pay_request
     then Some (IntentStatus_String (Status i)) else None)\<rparr>"

lemma faithful_one_intent: "faithful one_intent_codecs"
proof -
  have "unmarshal one_intent_codecs (IntentStatus_String (Status i)) = Some i"
    if "known_status (Status i)" "i\<lparr>Status := INTENT_STATUS_PENDING\<rparr> = created_intent (env_of ''i'') pay_request" for i
    using that(1) by (simp add: one_intent_codecs_def status_codecs_def that(2) [symmetric])
  then show ?thesis by (simp add: faithful_def one_intent_codecs_def)
qed

lemma pipeline_up_ok:
  "all_up pipeline_up" "all_or_nothing (va_ledger (pl_val pipeline_up))" "sc_other (pl_sched pipeline_up) d = d" "ex_other (pl_exec pipeline_up) d = d"
proof -
  show "all_up pipeline_up"
    by (simp add: all_up_def pipeline_up_def pg_up_def wo_healthy_def steady_worker_def sched_up_def sched_ok_def exec_up_def exec_ok_def
        val_ok_def val_up_def) (simp add: ledger_up_def epoch_text)
  then show "all_or_nothing (va_ledger (pl_val pipeline_up))" "sc_other (pl_sched pipeline_up) d = d" "ex_other (pl_exec pipeline_up) d = d"
    by (simp_all add: all_up_def sched_up_def exec_up_def val_ok_def le_ok_def all_or_nothing_def)
qed


end
