(* ===== verification/Spec2Isabelle.thy ===== *)
theory Spec2Isabelle
  imports WalletProps MemoryProps HandlerProps OutboxProps SchedulerProps ExecutionProps ValidatorProps GatewayLedger WalletLocksRuns StartupProps Certs ToolsProps Metrics Shutdown AuditTrail
begin

text \<open>
  AIEN, a platform that executes signed intents: a verification development.

  \<^bold>\<open>The program.\<close>  Clients post intents to the gateway (\<open>gateway/main.go\<close>), which checks a session token,
  limits the rate, answers repeated submissions from Redis and forwards the others by gRPC to the
  intent service (\<open>intent-service/\<close>).  That service verifies the Ed25519 signature and writes the intent
  and an outbox event in one transaction; its outbox worker publishes the event on NATS JetStream.  The
  scheduler (\<open>scheduler/main.go\<close>) moves the intent to scheduled and publishes a task.  The execution engine
  (\<open>execution-engine/main.go\<close>) claims the row, calls the wallet service (\<open>wallet/\<close>) for transfers, writes
  the final status and publishes the result, which the validator (\<open>validator/\<close>) appends to a hash-chained
  ledger file.  The services share the tables of PostgreSQL and meet only there, at the broker and in the
  two gRPC calls.

  \<^bold>\<open>How code is modelled.\<close>  A service's state is what outlives a call: the tables as records of lists or
  maps (\<open>wallet_db\<close>, \<open>intent_db\<close>), the ledger as its bytes, Redis as a map with expiries, the broker as the
  list of stored messages.  A handler is a function from the state and an environment record to its answer
  and the new state.  The environment holds what the handler meets: clocks, drawn identifiers, and for
  every call of a database, broker, file or peer whether it succeeds, fails, or takes effect while the
  caller sees an error.  Errors are values of a datatype of the component.  Amounts are binary64
  (\<open>Float64\<close>: rounding to nearest even on rationals) and \<open>NUMERIC(20, 8)\<close> values are integers of 10^-8
  units; 32-bit words wrap in \<open>Sha256\<close>, and \<open>int32\<close> counts are reduced.

  \<^bold>\<open>Foundations.\<close>  \<open>Prelude\<close> (results, decimal numerals, shared lemmas), \<open>Float64\<close>, \<open>Utf8\<close>, \<open>Base64\<close>,
  \<open>Sha256\<close>, \<open>Rfc3339\<close>, \<open>Json\<close> and \<open>JsonCodec\<close> (the scanner, the decoding into structs, the encoder and
  their round trip), \<open>Http\<close>, \<open>Grpc\<close>, \<open>Jwt\<close>: the parts of Go's standard library the services compute with.

  \<^bold>\<open>Wallet.\<close>  \<open>WalletStore\<close> is \<open>wallet/store/postgres.go\<close> over \<open>schema.sql\<close>, each public method a
  transaction body inside the locale \<open>wallet_op\<close>, interpreted for \<open>Credit\<close>, \<open>Debit\<close> and \<open>Transfer\<close>.
  \<open>WalletHandler\<close> is \<open>wallet/handler/handler.go\<close>.  \<open>WalletMoney\<close> and \<open>WalletProps\<close> show that a transfer is
  all or nothing, that a reference is processed once, that balances stay non-negative, and the refinement of an
  abstract transfer on whole amounts below 2^23, beyond which money can appear.  \<open>WalletLocks\<close> interleaves
  transactions statement by statement with PostgreSQL's row locks and uniqueness waits; \<open>WalletLocksProps\<close>
  shows that every interleaving is some sequence of the committed calls and that no deadlock is possible,
  and \<open>WalletLocksRuns\<close> runs two crossing transfers.

  \<^bold>\<open>Intents.\<close>  \<open>IntentTypes\<close> are the messages of \<open>intent.pb.go\<close>; \<open>IntentStore\<close> is the interface \<open>Store\<close> with its
  contract, the locale \<open>intent_store\<close>, and \<open>store/memory.go\<close>; \<open>IntentPostgres\<close> is \<open>store/postgres.go\<close>.
  \<open>MemoryProps\<close> and \<open>PostgresProps\<close> interpret the contract for both providers and show that paging is complete
  and that \<open>Create\<close> writes both rows or none.  \<open>Crypto\<close> is \<open>shared/crypto\<close>, \<open>IntentHandler\<close> is
  \<open>handler/handler.go\<close>, and \<open>HandlerProps\<close> shows that only signed intents enter.  \<open>Outbox\<close> and \<open>OutboxProps\<close> are
  \<open>outbox/worker.go\<close>: delivery at least once.

  \<^bold>\<open>Execution.\<close>  \<open>Scheduler\<close>, \<open>SchedulerProps\<close>, \<open>Execution\<close> and \<open>ExecutionProps\<close> are the handlers of the two
  services for one intent: what an acknowledged event means, that the status tells what happened to the money,
  that a task is carried out at most once, and the runs in which an intent is lost.  \<open>WorkerPool\<close> and
  \<open>WorkerPoolProps\<close> are the goroutines around \<open>executeTask\<close> as a step relation.  \<open>Lifecycle\<close> puts the intent
  service, the scheduler and the engine on one database: rows only move forward.  \<open>Pipeline\<close> runs every service once:
  a signed transfer is settled and audited when nothing fails.  \<open>AuditTrail\<close> is the whole platform as a step
  relation, with any failures and repetitions: an invariant of all its states shows that what a block of the ledger
  says was signed, and that a completed transfer was paid once.

  \<^bold>\<open>Ledger.\<close>  \<open>Ledger\<close> is \<open>validator/ledger/ledger.go\<close> byte by byte, \<open>Validator\<close> the handler of
  \<open>validator/main.go\<close>.  \<open>LedgerProps\<close> states the contract \<open>audit_log\<close> and interprets it on the file engine,
  \<open>LedgerTorn\<close> treats a write that is cut off, \<open>ValidatorProps\<close> relates the file to the deliveries.

  \<^bold>\<open>Gateway.\<close>  \<open>Gateway\<close> is \<open>gateway/main.go\<close> without its start.  \<open>GatewayProps\<close> (sessions), \<open>GatewayLimits\<close> (rate),
  \<open>GatewayCache\<close> (repeated submissions), \<open>GatewayLedger\<close> (the ledger page) and \<open>GatewayRuns\<close> (concrete clients).

  \<^bold>\<open>Around the services.\<close>  \<open>Config\<close> is \<open>shared/config\<close> and the connection loop of \<open>shared/db\<close>; \<open>Startup\<close> holds the six
  \<open>main\<close> functions, \<open>StartupProps\<close> what they promise about TLS and about their order.  \<open>Certs\<close> is
  \<open>scripts/generate_certs.go\<close> with the handshake the certificates are for.  \<open>Tools\<close> and \<open>ToolsProps\<close> are
  \<open>scripts/keygen.go\<close> and \<open>scripts/load_test_csv.go\<close> as clients of the gateway.  \<open>Shutdown\<close> interleaves the signal
  goroutine, the open requests and the return of \<open>main\<close> of the three servers.  \<open>Metrics\<close> are the collectors and
  what the handlers report to them: the counters follow the rows and the ledger.

  \<^bold>\<open>Parameters.\<close>  Code outside the repository is an argument: Ed25519 (record \<open>ed25519\<close>), the protobuf codec,
  UUID literals and the rounding of \<open>timestamptz\<close> (record \<open>codecs\<close>), JetStream in \<open>StartupProps\<close>, the registry
  of Prometheus, whether the gRPC server waits for its open calls, the records of \<open>encoding/csv\<close>.  What is relied on is stated as a hypothesis and shown to be possible by a witness.

  \<^bold>\<open>Loops.\<close>  Every function of the program terminates in HOL: batches and pages recur on lists, the loops
  with indices on a measure, and processes that run for ever are step relations or functions of the list of
  their deliveries.  Only a client that follows page tokens (\<open>walk_pages\<close>) has fuel; more fuel than there are
  matching intents is shown to be enough.

  \<^bold>\<open>Not modelled.\<close>  Logging (\<open>shared/logger\<close>), which only observes, and the measured durations; the
  generated gRPC stubs and the reflection data of the messages; the web page, containers and manifests;
  lock time-outs and isolation levels beyond what the statements of the wallet use; contexts whose time
  runs out, which are failures of the calls they surround; the order of Go's maps, which is a parameter
  where it matters; the change of the local zone's offset within the life of a certificate.
\<close>

end
